(* ===== verification/Prelude.thy ===== *)
theory Prelude
  imports Main "HOL-Library.Word"
begin

text \<open>
  What every component of the model shares: the collections of rewrite rules, the
  searches of \<^verbatim>\<open>std::string\<close> (\<^verbatim>\<open>find\<close>, \<^verbatim>\<open>rfind\<close>, \<^verbatim>\<open>find_first_of\<close>,
  \<^verbatim>\<open>compare\<close> with a literal) and generic lemmas on lists. A \<^verbatim>\<open>std::string\<close> is a
  \<open>string\<close>: a list of bytes. A position in it that only moves forward is the list of bytes
  not read yet.
\<close>

section \<open>Collections\<close>

named_theorems shortens \<open>a reader returns no more input than it was given\<close>
named_theorems conn_frame \<open>what an operation on a connection leaves alone\<close>
named_theorems mgr_frame \<open>what an operation of the manager leaves alone\<close>

section \<open>Lists\<close>

lemma length_dropWhile_le [simp]: "length (dropWhile P xs) \<le> length xs"
  by (induction xs) auto

lemma dropWhile_length_less: "xs \<noteq> [] \<Longrightarrow> P (hd xs) \<Longrightarrow> length (dropWhile P xs) < length xs"
  by (cases xs) (auto simp: le_imp_less_Suc)

lemma takeWhile_append_stop:
  "(\<And>x. x \<in> set xs \<Longrightarrow> P x) \<Longrightarrow> ys = [] \<or> \<not> P (hd ys) \<Longrightarrow> takeWhile P (xs @ ys) = xs"
  by (induction xs) (cases ys; auto)+

lemma dropWhile_append_stop:
  "(\<And>x. x \<in> set xs \<Longrightarrow> P x) \<Longrightarrow> ys = [] \<or> \<not> P (hd ys) \<Longrightarrow> dropWhile P (xs @ ys) = ys"
  by (induction xs) (cases ys; auto)+

lemma dropWhile_stop [simp]: "xs \<noteq> [] \<Longrightarrow> \<not> P (hd xs) \<Longrightarrow> dropWhile P xs = xs"
  by (cases xs) auto

section \<open>Searching a string\<close>

text \<open>\<^verbatim>\<open>s.find(c)\<close>: the first position of a byte, \<open>None\<close> for \<^verbatim>\<open>npos\<close>.\<close>

fun find_char :: "char \<Rightarrow> string \<Rightarrow> nat option" where
  "find_char c [] = None"
| "find_char c (x # xs) = (if x = c then Some 0 else map_option Suc (find_char c xs))"

text \<open>\<^verbatim>\<open>s.rfind(c)\<close>: the last position.\<close>

definition rfind_char :: "char \<Rightarrow> string \<Rightarrow> nat option" where
  "rfind_char c s = map_option (\<lambda>i. length s - 1 - i) (find_char c (rev s))"

text \<open>\<^verbatim>\<open>s.compare(0, n, lit) == 0\<close> for a literal of length \<open>n\<close>.\<close>

definition starts_with :: "string \<Rightarrow> string \<Rightarrow> bool" where
  "starts_with lit s \<longleftrightarrow> take (length lit) s = lit"

text \<open>\<^verbatim>\<open>s.find(lit)\<close> for a string.\<close>

fun find_sub :: "string \<Rightarrow> string \<Rightarrow> nat option" where
  "find_sub lit [] = (if lit = [] then Some 0 else None)"
| "find_sub lit (x # xs) =
     (if starts_with lit (x # xs) then Some 0 else map_option Suc (find_sub lit xs))"

text \<open>\<^verbatim>\<open>s.find_first_of(set)\<close>.\<close>

fun find_first_of :: "char list \<Rightarrow> string \<Rightarrow> nat option" where
  "find_first_of cs [] = None"
| "find_first_of cs (x # xs) =
     (if x \<in> set cs then Some 0 else map_option Suc (find_first_of cs xs))"

lemma find_char_None [simp]: "find_char c s = None \<longleftrightarrow> c \<notin> set s"
  by (induction s) auto

lemma find_char_absent [simp]: "c \<notin> set s \<Longrightarrow> find_char c s = None"
  by simp

lemma find_char_Some_split:
  "find_char c s = Some i \<Longrightarrow> s = take i s @ c # drop (Suc i) s \<and> c \<notin> set (take i s) \<and> i < length s"
proof (induction s arbitrary: i)
  case (Cons x xs)
  then show ?case by (cases i) (auto split: if_splits)
qed simp

lemma find_char_append_fresh [simp]:
  "c \<notin> set s \<Longrightarrow> find_char c (s @ c # t) = Some (length s)"
  by (induction s) auto

lemma find_char_append_left:
  "c \<in> set s \<Longrightarrow> find_char c (s @ t) = find_char c s"
  by (induction s) auto

lemma find_char_mem: "find_char c s = Some i \<Longrightarrow> c \<in> set s"
  by (metis find_char_None option.distinct(1))

lemma find_char_append_right:
  "c \<notin> set s \<Longrightarrow> find_char c (s @ t) =
     (case find_char c t of None \<Rightarrow> None | Some i \<Rightarrow> Some (length s + i))"
  by (induction s) (auto split: option.splits dest: find_char_mem)

lemma find_char_drop: "find_char c s = Some i \<Longrightarrow> drop i s = c # drop (Suc i) s"
  using find_char_Some_split [of c s i] by (metis append_eq_conv_conj append_take_drop_id same_append_eq)

lemma find_char_bound: "find_char c s = Some i \<Longrightarrow> i < length s"
  by (drule find_char_Some_split) simp

lemma rfind_char_None [simp]: "rfind_char c s = None \<longleftrightarrow> c \<notin> set s"
  by (simp add: rfind_char_def)

lemma rfind_char_append_fresh [simp]:
  "c \<notin> set t \<Longrightarrow> rfind_char c (s @ c # t) = Some (length s)"
  by (simp add: rfind_char_def)

lemma starts_with_append [simp]: "starts_with lit (lit @ s)"
  by (simp add: starts_with_def)

lemma starts_with_split: "starts_with lit s \<longleftrightarrow> (\<exists>t. s = lit @ t)"
  by (auto simp: starts_with_def) (metis append_take_drop_id)

lemma find_sub_None_iff: "lit \<noteq> [] \<Longrightarrow> find_sub lit s = None \<longleftrightarrow> (\<forall>a b. s \<noteq> a @ lit @ b)"
proof (induction s)
  case (Cons x xs)
  have "(\<exists>a b. x # xs = a @ lit @ b) \<longleftrightarrow> starts_with lit (x # xs) \<or> (\<exists>a b. xs = a @ lit @ b)"
    (is "?l \<longleftrightarrow> ?r")
  proof
    assume ?l
    then obtain a b where "x # xs = a @ lit @ b" by blast
    then show ?r by (cases a) (auto simp: starts_with_split)
  next
    assume ?r
    then show ?l by (auto simp: starts_with_split) (metis append_Nil, metis append_Cons)
  qed
  with Cons show ?case by auto
qed simp

lemma find_sub_zero [simp]: "starts_with lit s \<Longrightarrow> find_sub lit s = Some 0"
  by (cases s) (auto simp: starts_with_def)

lemma sum_list_update:
  fixes f :: "'a \<Rightarrow> nat"
  assumes "i < length xs"
  shows "(\<Sum>x\<leftarrow>xs[i := y]. f x) + f (xs ! i) = (\<Sum>x\<leftarrow>xs. f x) + f y"
  using assms by (induction xs arbitrary: i) (auto split: nat.split)

end
