(* ===== verification/Cstdlib.thy ===== *)
theory Cstdlib
  imports Prelude
begin

text \<open>
  The C library functions the sources call on text: \<^verbatim>\<open>c_str\<close>, \<^verbatim>\<open>strtoll\<close>, \<^verbatim>\<open>strtol\<close>,
  \<^verbatim>\<open>atoi\<close>, the decimal conversions of \<^verbatim>\<open>snprintf\<close> and \<^verbatim>\<open>%04x\<close>, and the conversions between
  integer widths. \<^verbatim>\<open>strtol\<close> saturates at the width of \<^verbatim>\<open>long\<close>, which differs between the
  targets (32 bits on \<^verbatim>\<open>linux-x86\<close>, \<^verbatim>\<open>windows-x86\<close> and \<^verbatim>\<open>windows-x86_64\<close>, 64 on
  \<^verbatim>\<open>linux-x86_64\<close>), so the definitions that depend on it take it as \<open>lb\<close>.
\<close>

section \<open>Characters\<close>

definition byte :: "char \<Rightarrow> nat" where
  "byte c = of_char c"

definition is_cspace :: "char \<Rightarrow> bool" where
  "is_cspace c \<longleftrightarrow> byte c = 32 \<or> (9 \<le> byte c \<and> byte c \<le> 13)"

definition is_digit :: "char \<Rightarrow> bool" where
  "is_digit c \<longleftrightarrow> 48 \<le> byte c \<and> byte c \<le> 57"

text \<open>The value of a digit in any base up to 36, as \<^verbatim>\<open>strtol\<close> reads it.\<close>

definition digit_val :: "char \<Rightarrow> int option" where
  "digit_val c =
     (let n = byte c in
      if 48 \<le> n \<and> n \<le> 57 then Some (int n - 48)
      else if 97 \<le> n \<and> n \<le> 122 then Some (int n - 87)
      else if 65 \<le> n \<and> n \<le> 90 then Some (int n - 55)
      else None)"

definition c_str :: "string \<Rightarrow> string" where
  "c_str s = takeWhile (\<lambda>c. byte c \<noteq> 0) s"

lemma byte_bound [simp]: "byte c < 256"
  by (simp add: byte_def)

lemma byte_char_of [simp]: "n < 256 \<Longrightarrow> byte (char_of n) = n"
  by (simp add: byte_def)

lemma char_of_byte [simp]: "char_of (byte c) = c"
  by (simp add: byte_def)

lemma byte_eq_iff: "byte c = byte d \<longleftrightarrow> c = d"
  by (metis char_of_byte)

section \<open>Integer widths\<close>

abbreviation (input) llong_max :: int where "llong_max \<equiv> 9223372036854775807"
abbreviation (input) llong_min :: int where "llong_min \<equiv> -9223372036854775808"
abbreviation (input) int_max :: int where "int_max \<equiv> 2147483647"
abbreviation (input) int_min :: int where "int_min \<equiv> -2147483648"

definition clamp :: "int \<Rightarrow> int \<Rightarrow> int \<Rightarrow> int" where
  "clamp lo hi n = (if n > hi then hi else if n < lo then lo else n)"

text \<open>Conversion of a value to a 32-bit \<^verbatim>\<open>int\<close>, two's complement.\<close>

definition to_int32 :: "int \<Rightarrow> int" where
  "to_int32 n = signed_take_bit 31 n"

lemma to_int32_range: "int_min \<le> to_int32 n \<and> to_int32 n \<le> int_max"
proof -
  have "- (2 ^ 31) \<le> signed_take_bit 31 n" by (rule signed_take_bit_int_greater_eq_minus_exp)
  moreover have "signed_take_bit 31 n < 2 ^ 31" by (rule signed_take_bit_int_less_exp)
  ultimately show ?thesis by (simp add: to_int32_def)
qed

lemma to_int32_id: "int_min \<le> n \<Longrightarrow> n \<le> int_max \<Longrightarrow> to_int32 n = n"
  unfolding to_int32_def by (rule signed_take_bit_int_eq_self) simp_all

lemma clamp_range: "lo \<le> hi \<Longrightarrow> lo \<le> clamp lo hi n \<and> clamp lo hi n \<le> hi"
  by (auto simp: clamp_def)

lemma clamp_id: "lo \<le> n \<Longrightarrow> n \<le> hi \<Longrightarrow> clamp lo hi n = n"
  by (auto simp: clamp_def)

section \<open>Reading numbers\<close>

fun digits_value :: "int \<Rightarrow> int \<Rightarrow> string \<Rightarrow> int" where
  "digits_value b acc [] = acc"
| "digits_value b acc (c # cs) =
     (case digit_val c of
        Some d \<Rightarrow> if d < b then digits_value b (acc * b + d) cs else acc
      | None \<Rightarrow> acc)"

definition drop_sign :: "string \<Rightarrow> int \<times> string" where
  "drop_sign s =
     (case s of
        c # cs \<Rightarrow> if c = CHR ''-'' then (-1, cs) else if c = CHR ''+'' then (1, cs) else (1, s)
      | [] \<Rightarrow> (1, []))"

text \<open>The optional \<^verbatim>\<open>0x\<close> of base 16: only a prefix when a hexadecimal digit follows.\<close>

definition drop_hex_prefix :: "string \<Rightarrow> string" where
  "drop_hex_prefix s =
     (case s of
        z # x # c # cs \<Rightarrow>
          if z = CHR ''0'' \<and> (x = CHR ''x'' \<or> x = CHR ''X'') \<and>
             (case digit_val c of Some d \<Rightarrow> d < 16 | None \<Rightarrow> False)
          then c # cs else s
      | _ \<Rightarrow> s)"

text \<open>The exact value \<^verbatim>\<open>strtol(s, 0, base)\<close> converts, before it saturates.\<close>

definition strto_value :: "int \<Rightarrow> string \<Rightarrow> int" where
  "strto_value b s =
     (case drop_sign (dropWhile is_cspace (c_str s)) of
        (sg, t) \<Rightarrow> sg * digits_value b 0 (if b = 16 then drop_hex_prefix t else t))"

definition strtoll :: "int \<Rightarrow> string \<Rightarrow> int" where
  "strtoll b s = clamp llong_min llong_max (strto_value b s)"

definition strtol :: "nat \<Rightarrow> int \<Rightarrow> string \<Rightarrow> int" where
  "strtol lb b s = clamp (- (2 ^ (lb - 1))) (2 ^ (lb - 1) - 1) (strto_value b s)"

text \<open>\<^verbatim>\<open>atoi\<close> is \<^verbatim>\<open>(int) strtol(s, 0, 10)\<close> in the C libraries of the four targets.\<close>

definition atoi :: "nat \<Rightarrow> string \<Rightarrow> int" where
  "atoi lb s = to_int32 (strtol lb 10 s)"

lemma strtoll_range: "llong_min \<le> strtoll b s \<and> strtoll b s \<le> llong_max"
  unfolding strtoll_def by (rule clamp_range) simp

lemma atoi_range: "int_min \<le> atoi lb s \<and> atoi lb s \<le> int_max"
  unfolding atoi_def by (rule to_int32_range)

section \<open>Printing numbers\<close>

definition dec_digit :: "nat \<Rightarrow> char" where
  "dec_digit d = char_of (48 + d)"

fun dec_nat :: "nat \<Rightarrow> string" where
  "dec_nat n = (if n < 10 then [dec_digit n] else dec_nat (n div 10) @ [dec_digit (n mod 10)])"

declare dec_nat.simps [simp del]

definition dec_int :: "int \<Rightarrow> string" where
  "dec_int n = (if n < 0 then CHR ''-'' # dec_nat (nat (- n)) else dec_nat (nat n))"

definition hex_digit :: "nat \<Rightarrow> char" where
  "hex_digit d = (if d < 10 then char_of (48 + d) else char_of (87 + d))"

text \<open>\<^verbatim>\<open>%04x\<close> of a byte.\<close>

definition hex4 :: "nat \<Rightarrow> string" where
  "hex4 n = [CHR ''0'', CHR ''0'', hex_digit (n div 16), hex_digit (n mod 16)]"

section \<open>Reading back what was printed\<close>

lemma is_digit_dec_digit [simp]: "d < 10 \<Longrightarrow> is_digit (dec_digit d)"
  by (simp add: is_digit_def dec_digit_def)

lemma digit_val_dec_digit [simp]: "d < 10 \<Longrightarrow> digit_val (dec_digit d) = Some (int d)"
  by (simp add: digit_val_def dec_digit_def Let_def)

lemma dec_nat_digits: "c \<in> set (dec_nat n) \<Longrightarrow> is_digit c"
proof (induction n rule: dec_nat.induct)
  case (1 n)
  then show ?case by (cases "n < 10") (auto simp: dec_nat.simps [of n])
qed

lemma dec_nat_no_char: "\<not> is_digit c \<Longrightarrow> c \<notin> set (dec_nat n)"
  using dec_nat_digits by blast

lemma dec_nat_not_Nil [simp]: "dec_nat n \<noteq> []"
  by (subst dec_nat.simps) simp

lemma dec_int_not_Nil [simp]: "dec_int n \<noteq> []"
  by (simp add: dec_int_def)

lemma digits_value_append:
  "(\<And>c. c \<in> set s \<Longrightarrow> is_digit c) \<Longrightarrow>
   digits_value 10 acc (s @ t) = digits_value 10 (digits_value 10 acc s) t"
proof (induction s arbitrary: acc)
  case (Cons c s)
  then have "is_digit c" by simp
  then obtain d where "digit_val c = Some d" "d < 10"
    by (auto simp: is_digit_def digit_val_def Let_def)
  with Cons show ?case by simp
qed simp

lemma digits_value_dec_nat: "digits_value 10 0 (dec_nat n) = int n"
proof (induction n rule: dec_nat.induct)
  case (1 n)
  show ?case
  proof (cases "n < 10")
    case True
    then show ?thesis by (simp add: dec_nat.simps [of n])
  next
    case False
    have "digits_value 10 0 (dec_nat (n div 10) @ [dec_digit (n mod 10)])
        = int (n div 10) * 10 + int (n mod 10)"
      using 1 False by (simp add: digits_value_append dec_nat_digits)
    also have "\<dots> = int n" by presburger
    finally show ?thesis using False by (simp add: dec_nat.simps [of n])
  qed
qed

lemma digits_value_stop:
  "t = [] \<or> \<not> is_digit (hd t) \<Longrightarrow> digits_value 10 acc t = acc"
  by (cases t) (auto simp: is_digit_def digit_val_def Let_def split: if_splits)

lemma digits_value_dec_nat_stop:
  "t = [] \<or> \<not> is_digit (hd t) \<Longrightarrow> digits_value 10 0 (dec_nat n @ t) = int n"
  by (simp add: digits_value_append dec_nat_digits digits_value_dec_nat digits_value_stop)

lemma digit_not_special:
  "is_digit c \<Longrightarrow> \<not> is_cspace c \<and> c \<noteq> CHR ''-'' \<and> c \<noteq> CHR ''+'' \<and> byte c \<noteq> 0"
  by (auto simp: is_digit_def is_cspace_def byte_def)

lemma dec_nat_hd: "is_digit (hd (dec_nat n))"
  by (rule dec_nat_digits [OF hd_in_set]) simp

lemma dec_nat_last: "is_digit (last (dec_nat n))"
  by (rule dec_nat_digits [OF last_in_set]) simp

lemma drop_sign_dec_nat: "drop_sign (dec_nat n) = (1, dec_nat n)"
  using digit_not_special [OF dec_nat_hd [of n]]
  by (cases "dec_nat n") (auto simp: drop_sign_def)

lemma c_str_digits [simp]: "(\<And>c. c \<in> set s \<Longrightarrow> is_digit c) \<Longrightarrow> c_str s = s"
  unfolding c_str_def takeWhile_eq_all_conv using digit_not_special by blast

theorem strto_value_dec_int: "strto_value 10 (dec_int n) = n"
proof (cases "n < 0")
  case True
  have "c_str (dec_nat (nat (- n))) = dec_nat (nat (- n))"
    by (rule c_str_digits) (rule dec_nat_digits)
  with True have "c_str (dec_int n) = dec_int n"
    by (simp add: dec_int_def c_str_def byte_def)
  with True show ?thesis
    by (simp add: strto_value_def dec_int_def is_cspace_def byte_def drop_sign_def
        digits_value_dec_nat)
next
  case False
  then have "c_str (dec_int n) = dec_int n"
    by (simp add: dec_int_def dec_nat_digits)
  moreover have "dropWhile is_cspace (dec_nat (nat n)) = dec_nat (nat n)"
    using digit_not_special [OF dec_nat_hd [of "nat n"]] by (intro dropWhile_stop) auto
  ultimately show ?thesis using False
    by (simp add: strto_value_def dec_int_def drop_sign_dec_nat digits_value_dec_nat)
qed

corollary strtoll_dec_int: "llong_min \<le> n \<Longrightarrow> n \<le> llong_max \<Longrightarrow> strtoll 10 (dec_int n) = n"
  by (simp add: strtoll_def strto_value_dec_int clamp_id)

corollary atoi_dec_int:
  "32 \<le> lb \<Longrightarrow> int_min \<le> n \<Longrightarrow> n \<le> int_max \<Longrightarrow> atoi lb (dec_int n) = n"
proof -
  assume lb: "32 \<le> lb" and n: "int_min \<le> n" "n \<le> int_max"
  have "(2::int) ^ 31 \<le> 2 ^ (lb - 1)" using lb by (intro power_increasing) auto
  then have "strtol lb 10 (dec_int n) = n"
    using n unfolding strtol_def strto_value_dec_int by (intro clamp_id) simp_all
  then show ?thesis using n by (simp add: atoi_def to_int32_id)
qed

text \<open>A number that text follows, as the status code of a response or a port.\<close>

lemma strto_value_dec_nat_stop:
  assumes "t = [] \<or> \<not> is_digit (hd t)"
  shows "strto_value 10 (dec_nat n @ t) = int n"
proof -
  obtain c cs where d: "dec_nat n = c # cs" by (cases "dec_nat n") auto
  then have c: "is_digit c" using dec_nat_hd [of n] by simp
  have "c_str (dec_nat n @ t) = dec_nat n @ c_str t"
    unfolding c_str_def using dec_nat_digits digit_not_special by (intro takeWhile_append2) blast
  moreover have "dropWhile is_cspace (dec_nat n @ c_str t) = dec_nat n @ c_str t"
    using d digit_not_special [OF c] by simp
  moreover have "drop_sign (dec_nat n @ c_str t) = (1, dec_nat n @ c_str t)"
    using d digit_not_special [OF c] by (simp add: drop_sign_def)
  moreover have "c_str t = [] \<or> \<not> is_digit (hd (c_str t))"
    using assms by (cases t) (auto simp: c_str_def)
  ultimately show ?thesis by (simp add: strto_value_def digits_value_dec_nat_stop)
qed

lemma atoi_dec_nat_stop:
  assumes "t = [] \<or> \<not> is_digit (hd t)" "int n \<le> int_max" "32 \<le> lb"
  shows "atoi lb (dec_nat n @ t) = int n"
proof -
  have "(2::int) ^ 31 \<le> 2 ^ (lb - 1)" using assms(3) by (intro power_increasing) auto
  then have "(2147483648::int) \<le> 2 ^ (lb - 1)" by (simp only: power_numeral Num.pow.simps Num.sqr.simps) simp
  then have "int n \<le> 2 ^ (lb - 1) - 1" using assms(2) by linarith
  moreover have "- (2 ^ (lb - 1)) \<le> int n" by (rule order_trans [of _ 0]) simp_all
  ultimately have "clamp (- (2 ^ (lb - 1))) (2 ^ (lb - 1) - 1) (int n) = int n" by (intro clamp_id)
  then have "strtol lb 10 (dec_nat n @ t) = int n"
    using strto_value_dec_nat_stop [OF assms(1), of n] by (simp only: strtol_def)
  then show ?thesis using assms(2) by (simp add: atoi_def to_int32_id)
qed

end
