(* ===== verification/Json.thy ===== *)
theory Json
  imports Cstdlib
begin

text \<open>
  \<^verbatim>\<open>JsonValue\<close> of src/json.h and its readers in src/json.cpp. The class keeps a tag and one
  member per kind of value, of which only those of the tag are ever set (the parser fills a
  fresh value), so it is a datatype. A number keeps the text it was read from: \<^verbatim>\<open>num_\<close> is
  \<^verbatim>\<open>strtod\<close> of that text, and of \<^verbatim>\<open>num_\<close> the plugin only uses whether it is zero.
\<close>

datatype json =
  JNull
| JBool bool
| JNumber string
| JString string
| JArray "json list"
| JObject "(string \<times> json) list"

fun is_null :: "json \<Rightarrow> bool" where
  "is_null JNull = True"
| "is_null _ = False"

fun is_object :: "json \<Rightarrow> bool" where
  "is_object (JObject _) = True"
| "is_object _ = False"

fun is_array :: "json \<Rightarrow> bool" where
  "is_array (JArray _) = True"
| "is_array _ = False"

text \<open>The vectors \<^verbatim>\<open>members_\<close> and \<^verbatim>\<open>elems_\<close>: empty for every other kind of value.\<close>

fun members :: "json \<Rightarrow> (string \<times> json) list" where
  "members (JObject ms) = ms"
| "members _ = []"

fun elems :: "json \<Rightarrow> json list" where
  "elems (JArray es) = es"
| "elems _ = []"

section \<open>Scalars\<close>

fun as_string :: "json \<Rightarrow> string" where
  "as_string (JString s) = s"
| "as_string (JNumber s) = s"
| "as_string (JBool b) = (if b then ''true'' else ''false'')"
| "as_string _ = []"

fun as_int :: "json \<Rightarrow> int" where
  "as_int (JString s) = strtoll 10 s"
| "as_int (JNumber s) = strtoll 10 s"
| "as_int (JBool b) = (if b then 1 else 0)"
| "as_int _ = 0"

text \<open>
  \<^verbatim>\<open>num_ != 0.0\<close>. The parser hands \<^verbatim>\<open>strtod\<close> a text over digits, signs, \<^verbatim>\<open>.\<close> and \<^verbatim>\<open>e\<close>.
  \<^verbatim>\<open>strtod\<close> converts the longest prefix of the form sign, digits, fraction, exponent; its
  result rounds to zero when the exact decimal value is at most half of the smallest positive
  double, 2 to the power -1075.
\<close>

definition mantissa_digits :: "string \<Rightarrow> string \<times> string \<times> string" where
  "mantissa_digits s =
     (let whole = takeWhile is_digit s; r = dropWhile is_digit s in
      case r of
        c # r' \<Rightarrow> if c = CHR ''.'' then (whole, takeWhile is_digit r', dropWhile is_digit r')
                  else (whole, [], r)
      | [] \<Rightarrow> (whole, [], []))"

definition exponent_value :: "string \<Rightarrow> int" where
  "exponent_value r =
     (case r of
        c # r' \<Rightarrow> if c = CHR ''e'' \<or> c = CHR ''E''
                  then (case drop_sign r' of (sg, d) \<Rightarrow> sg * digits_value 10 0 d) else 0
      | [] \<Rightarrow> 0)"

definition strtod_nonzero :: "string \<Rightarrow> bool" where
  "strtod_nonzero s =
     (case mantissa_digits (snd (drop_sign s)) of
        (whole, frac, r) \<Rightarrow>
          let m = nat (digits_value 10 0 (whole @ frac));
              e = exponent_value r - int (length frac)
          in m \<noteq> 0 \<and> (0 \<le> e \<or> 10 ^ nat (- e) < m * 2 ^ 1075))"

fun as_bool :: "json \<Rightarrow> bool" where
  "as_bool (JBool b) = b"
| "as_bool (JNumber s) = strtod_nonzero s"
| "as_bool (JString s) = (s = ''true'')"
| "as_bool _ = False"

section \<open>Members and elements\<close>

fun find_member :: "string \<Rightarrow> (string \<times> json) list \<Rightarrow> json" where
  "find_member k [] = JNull"
| "find_member k ((k', v) # ms) = (if k' = k then v else find_member k ms)"

definition get :: "json \<Rightarrow> string \<Rightarrow> json" where
  "get v k = find_member k (members v)"

definition has :: "json \<Rightarrow> string \<Rightarrow> bool" where
  "has v k \<longleftrightarrow> (\<exists>m \<in> set (members v). fst m = k)"

definition get_str :: "json \<Rightarrow> string \<Rightarrow> string \<Rightarrow> string" where
  "get_str v k d = (if is_null (get v k) then d else as_string (get v k))"

definition get_int :: "json \<Rightarrow> string \<Rightarrow> int \<Rightarrow> int" where
  "get_int v k d = (if is_null (get v k) then d else as_int (get v k))"

definition get_bool :: "json \<Rightarrow> string \<Rightarrow> bool \<Rightarrow> bool" where
  "get_bool v k d = (if is_null (get v k) then d else as_bool (get v k))"

definition json_size :: "json \<Rightarrow> nat" where
  "json_size v = length (elems v)"

definition json_at :: "json \<Rightarrow> nat \<Rightarrow> json" where
  "json_at v i = (if i \<ge> length (elems v) then JNull else elems v ! i)"

text \<open>The loop \<^verbatim>\<open>for (i = 0; i < arr.Size(); ++i) ... arr.At(i)\<close> reads every element in order.\<close>

definition at_all :: "json \<Rightarrow> json list" where
  "at_all v = map (json_at v) [0..<json_size v]"

lemma at_all_elems: "at_all v = elems v"
  unfolding at_all_def json_size_def json_at_def by (rule nth_equalityI) simp_all

lemma get_missing: "\<not> has v k \<Longrightarrow> get v k = JNull"
proof -
  have "\<forall>m \<in> set ms. fst m \<noteq> k \<Longrightarrow> find_member k ms = JNull" for ms
    by (induction ms rule: find_member.induct) auto
  then show "\<not> has v k \<Longrightarrow> get v k = JNull" by (auto simp: get_def has_def)
qed

lemma get_null [simp]: "get JNull k = JNull"
  by (simp add: get_def)

lemma find_member_Cons_eq [simp]: "find_member k ((k, v) # ms) = v"
  by simp

lemma as_int_range: "llong_min \<le> as_int v \<and> as_int v \<le> llong_max"
  by (cases v) (simp_all add: strtoll_range)

text \<open>
  A field that is absent, at any depth, reads as the default: walking through sub-messages
  the audio server left out never fails, whatever the path.
\<close>

lemma missing_path_reads_default:
  assumes "\<not> has v k"
  shows "get_str (foldl get v (k # ks)) f d = d \<and> get_int (foldl get v (k # ks)) f n = n
    \<and> get_bool (foldl get v (k # ks)) f b = b \<and> at_all (foldl get v (k # ks)) = []"
proof -
  have "foldl get JNull ks = JNull" by (induction ks) simp_all
  then have "foldl get v (k # ks) = JNull" using get_missing [OF assms] by simp
  then show ?thesis by (simp add: get_str_def get_int_def get_bool_def at_all_def json_size_def)
qed

lemma missing_path_reads_default_witness:
  "get_int (foldl get (JObject [(''slug'', JString ''fm'')]) [''source'', ''inner'']) ''n'' 7 = 7"
proof -
  have "\<not> has (JObject [(''slug'', JString ''fm'')]) ''source''" by (simp add: has_def)
  from missing_path_reads_default [OF this, where ks = "[''inner'']" and f = "''n''" and n = 7] show ?thesis by simp
qed

end
