(* ===== verification/Json_Parser.thy ===== *)
theory Json_Parser
  imports Json
begin

unbundle bit_operations_syntax

text \<open>
  \<^verbatim>\<open>JsonParser\<close> of src/json.cpp. The parser walks one string with a position \<^verbatim>\<open>pos_\<close>; here
  the state is the text from \<^verbatim>\<open>pos_\<close> on, so \<^verbatim>\<open>pos_ >= s_.size()\<close> is the empty list and the
  offset in an error message is the length of the document less what is left. A result is
  either the first \<^verbatim>\<open>Fail\<close> (its message and the text left at that moment) or the value
  with the text after it. Code points are 32-bit words, as \<^verbatim>\<open>unsigned int\<close>.
\<close>

type_synonym json_fail = "string \<times> string"
type_synonym 'a parsed = "json_fail + ('a \<times> string)"

abbreviation (input) k_max_depth :: nat where "k_max_depth \<equiv> 64"

definition byte_of_word :: "32 word \<Rightarrow> char" where
  "byte_of_word w = char_of (unat w mod 256)"

definition append_utf8 :: "string \<Rightarrow> 32 word \<Rightarrow> string" where
  "append_utf8 out cp =
     (if cp < 0x80 then out @ [byte_of_word cp]
      else if cp < 0x800 then
        out @ [byte_of_word (0xC0 OR drop_bit 6 cp), byte_of_word (0x80 OR (cp AND 0x3F))]
      else if cp < 0x10000 then
        out @ [byte_of_word (0xE0 OR drop_bit 12 cp),
               byte_of_word (0x80 OR (drop_bit 6 cp AND 0x3F)),
               byte_of_word (0x80 OR (cp AND 0x3F))]
      else
        out @ [byte_of_word (0xF0 OR drop_bit 18 cp),
               byte_of_word (0x80 OR (drop_bit 12 cp AND 0x3F)),
               byte_of_word (0x80 OR (drop_bit 6 cp AND 0x3F)),
               byte_of_word (0x80 OR (cp AND 0x3F))])"

definition is_json_space :: "char \<Rightarrow> bool" where
  "is_json_space c \<longleftrightarrow> byte c = 32 \<or> byte c = 9 \<or> byte c = 10 \<or> byte c = 13"

definition skip_ws :: "string \<Rightarrow> string" where
  "skip_ws s = dropWhile is_json_space s"

definition json_literal :: "string \<Rightarrow> string \<Rightarrow> string option" where
  "json_literal lit s = (if starts_with lit s then Some (drop (length lit) s) else None)"

definition hex_val :: "char \<Rightarrow> 32 word option" where
  "hex_val c =
     (let n = byte c in
      if 48 \<le> n \<and> n \<le> 57 then Some (of_nat (n - 48))
      else if 97 \<le> n \<and> n \<le> 102 then Some (of_nat (n - 97 + 10))
      else if 65 \<le> n \<and> n \<le> 70 then Some (of_nat (n - 65 + 10))
      else None)"

fun hex_digits :: "32 word \<Rightarrow> string \<Rightarrow> 32 word option" where
  "hex_digits v [] = Some v"
| "hex_digits v (c # cs) =
     (case hex_val c of Some d \<Rightarrow> hex_digits (push_bit 4 v OR d) cs | None \<Rightarrow> None)"

definition parse_hex4 :: "string \<Rightarrow> (32 word \<times> string) option" where
  "parse_hex4 s =
     (if length s < 4 then None
      else case hex_digits 0 (take 4 s) of
             Some v \<Rightarrow> Some (v, drop 4 s)
           | None \<Rightarrow> None)"

text \<open>Joining a surrogate pair: a high half followed by \<^verbatim>\<open>\u\<close> and a low half.\<close>

definition join_surrogates :: "32 word \<Rightarrow> string \<Rightarrow> 32 word \<times> string" where
  "join_surrogates cp s =
     (if 0xD800 \<le> cp \<and> cp \<le> 0xDBFF \<and> 2 \<le> length s \<and> starts_with [CHR 0x5C, CHR ''u''] s
      then (case parse_hex4 (drop 2 s) of
              Some (low, r) \<Rightarrow>
                if 0xDC00 \<le> low \<and> low \<le> 0xDFFF
                then (0x10000 + push_bit 10 (cp - 0xD800) + (low - 0xDC00), r)
                else (cp, s)
            | None \<Rightarrow> (cp, s))
      else (cp, s))"

definition simple_escape :: "char \<Rightarrow> char option" where
  "simple_escape c =
     (if c = CHR 0x22 then Some (CHR 0x22)
      else if c = CHR 0x5C then Some (CHR 0x5C)
      else if c = CHR ''/'' then Some (CHR ''/'')
      else if c = CHR ''b'' then Some (CHR 0x08)
      else if c = CHR ''f'' then Some (CHR 0x0C)
      else if c = CHR ''n'' then Some (CHR 0x0A)
      else if c = CHR ''r'' then Some (CHR 0x0D)
      else if c = CHR ''t'' then Some (CHR 0x09)
      else None)"

section \<open>Strings\<close>

lemma parse_hex4_consumes [shortens]: "parse_hex4 s = Some (v, r) \<Longrightarrow> length r \<le> length s"
  by (auto simp: parse_hex4_def split: if_splits option.splits)

lemma join_surrogates_consumes [shortens]: "length (snd (join_surrogates cp s)) \<le> length s"
  by (auto simp: join_surrogates_def split: option.splits dest: parse_hex4_consumes)

text \<open>The loop of \<^verbatim>\<open>ParseString\<close> after the opening quote.\<close>

function string_loop :: "string \<Rightarrow> string \<Rightarrow> string parsed" where
  "string_loop out [] = Inl (''unterminated string'', [])"
| "string_loop out (c # s) =
     (if c = CHR 0x22 then Inr (out, s)
      else if c \<noteq> CHR 0x5C then string_loop (out @ [c]) s
      else case s of
             [] \<Rightarrow> Inl (''unterminated string'', [])
           | esc # r \<Rightarrow>
               (case simple_escape esc of
                  Some ch \<Rightarrow> string_loop (out @ [ch]) r
                | None \<Rightarrow>
                    if esc = CHR ''u'' then
                      (case parse_hex4 r of
                         None \<Rightarrow> Inl (''bad '' @ [CHR 0x5C] @ ''u escape'', r)
                       | Some (cp, r1) \<Rightarrow>
                           (case join_surrogates cp r1 of
                              (cp', r2) \<Rightarrow> string_loop (append_utf8 out cp') r2))
                    else Inl (''unknown escape'', r)))"
  by pat_completeness auto

termination
proof (relation "measure (\<lambda>(out, s). length s)", goal_cases)
  case (3 out c s esc r p cp r1 cp' r2)
  then show ?case using join_surrogates_consumes [of cp r1] parse_hex4_consumes [of r]
    by (cases "join_surrogates cp r1") auto
qed auto

definition parse_string :: "string \<Rightarrow> string parsed" where
  "parse_string s = string_loop [] (tl s)"

lemma string_loop_consumes [shortens]:
  "string_loop out s = Inr (v, r) \<Longrightarrow> length r < length s"
proof (induction out s rule: string_loop.induct)
  case (2 out c s)
  show ?case
  proof (cases "c = CHR 0x22 \<or> c \<noteq> CHR 0x5C")
    case True
    then show ?thesis using 2 by (auto split: if_splits)
  next
    case False
    then obtain esc t where s: "s = esc # t" using "2.prems" by (cases s) auto
    show ?thesis
    proof (cases "simple_escape esc")
      case (Some ch)
      then show ?thesis using 2(3)[OF _ _ s Some] "2.prems" False s by auto
    next
      case None
      then obtain cp r1 where u: "esc = CHR ''u''" "parse_hex4 t = Some (cp, r1)"
        using "2.prems" False s by (auto split: if_splits option.splits)
      obtain cp' r2 where j: "join_surrogates cp r1 = (cp', r2)" by fastforce
      have "length r < length r2"
        using 2(2)[OF _ _ s None u refl j [symmetric]] "2.prems" False s None u j by auto
      moreover have "length r2 \<le> length t"
        using parse_hex4_consumes [OF u(2)] join_surrogates_consumes [of cp r1] j by simp
      ultimately show ?thesis using s by simp
    qed
  qed
qed simp

lemma parse_string_consumes [shortens]:
  "parse_string s = Inr (v, r) \<Longrightarrow> s \<noteq> [] \<Longrightarrow> length r < length s"
  by (cases s) (auto simp: parse_string_def dest: string_loop_consumes)

section \<open>Numbers\<close>

definition is_number_char :: "char \<Rightarrow> bool" where
  "is_number_char c \<longleftrightarrow> is_digit c \<or> c = CHR ''.'' \<or> c = CHR ''e'' \<or> c = CHR ''E''
     \<or> c = CHR ''+'' \<or> c = CHR ''-''"

definition split_sign :: "string \<Rightarrow> string \<times> string" where
  "split_sign s =
     (case s of c # r \<Rightarrow> if c = CHR ''-'' \<or> c = CHR ''+'' then ([c], r) else ([], s)
      | [] \<Rightarrow> ([], []))"

definition parse_number :: "string \<Rightarrow> json parsed" where
  "parse_number s =
     (case split_sign s of
        (sg, r) \<Rightarrow>
          if takeWhile is_number_char r = [] then Inl (''invalid number'', r)
          else Inr (JNumber (sg @ takeWhile is_number_char r), dropWhile is_number_char r))"

lemma parse_number_consumes [shortens]:
  "parse_number s = Inr (v, r) \<Longrightarrow> length r < length s"
proof -
  assume p: "parse_number s = Inr (v, r)"
  obtain sg t where st: "split_sign s = (sg, t)" by fastforce
  have "length r < length t"
    using p st by (cases t) (auto simp: parse_number_def le_imp_less_Suc split: if_splits)
  moreover have "length t \<le> length s"
    using st by (cases s) (auto simp: split_sign_def split: if_splits)
  ultimately show ?thesis by simp
qed

section \<open>Values\<close>

definition quoted :: "char \<Rightarrow> string" where
  "quoted c = [CHR 0x27, c, CHR 0x27]"

definition parse_literal :: "string \<Rightarrow> json \<Rightarrow> string \<Rightarrow> json parsed" where
  "parse_literal lit v s =
     (case json_literal lit s of Some r \<Rightarrow> Inr (v, r) | None \<Rightarrow> Inl (''invalid literal'', s))"

text \<open>The head of one round of the object loop: key, colon, and the blanks around them.\<close>

definition parse_member_key :: "string \<Rightarrow> string parsed" where
  "parse_member_key s =
     (case skip_ws s of
        [] \<Rightarrow> Inl (''expected object key'', [])
      | c # t \<Rightarrow>
          if c \<noteq> CHR 0x22 then Inl (''expected object key'', c # t)
          else (case parse_string (c # t) of
                  Inl e \<Rightarrow> Inl e
                | Inr (k, r) \<Rightarrow>
                    (case skip_ws r of
                       [] \<Rightarrow> Inl (''expected '' @ quoted CHR '':'', [])
                     | d # u \<Rightarrow> if d \<noteq> CHR '':'' then Inl (''expected '' @ quoted CHR '':'', d # u)
                                else Inr (k, skip_ws u))))"

text \<open>The cases of the \<^verbatim>\<open>switch\<close> in \<^verbatim>\<open>ParseValue\<close> that do not recurse.\<close>

definition parse_scalar :: "string \<Rightarrow> json parsed" where
  "parse_scalar s =
     (if starts_with [CHR 0x22] s then
        (case parse_string s of Inl e \<Rightarrow> Inl e | Inr (v, r) \<Rightarrow> Inr (JString v, r))
      else if starts_with ''t'' s then parse_literal ''true'' (JBool True) s
      else if starts_with ''f'' s then parse_literal ''false'' (JBool False) s
      else if starts_with ''n'' s then parse_literal ''null'' JNull s
      else parse_number s)"

lemma length_skip_ws [simp]: "length (skip_ws s) \<le> length s"
  by (simp add: skip_ws_def)

lemma skip_ws_consumes [shortens]: "skip_ws s = c # r \<Longrightarrow> length r < length s"
  using length_skip_ws [of s] by simp

lemma parse_member_key_consumes [shortens]:
  "parse_member_key s = Inr (k, r) \<Longrightarrow> length r < length s"
proof -
  assume p: "parse_member_key s = Inr (k, r)"
  then obtain t where t: "skip_ws s = CHR 0x22 # t"
    by (auto simp: parse_member_key_def split: list.splits if_splits)
  with p obtain r1 where r1: "parse_string (CHR 0x22 # t) = Inr (k, r1)"
    by (auto simp: parse_member_key_def split: sum.splits list.splits if_splits)
  with p t obtain u where u: "skip_ws r1 = CHR '':'' # u" "r = skip_ws u"
    by (auto simp: parse_member_key_def split: list.splits if_splits)
  have "length (skip_ws u) \<le> length u" by simp
  moreover have "length u < length r1" using u(1) by (rule skip_ws_consumes)
  moreover have "length r1 < length (CHR 0x22 # t)" using r1 by (rule parse_string_consumes) simp
  moreover have "length t < length s" using t by (rule skip_ws_consumes)
  ultimately show ?thesis unfolding u(2) by (simp only: length_Cons)
qed

text \<open>
  \<^verbatim>\<open>ParseValue\<close> with the loops of \<^verbatim>\<open>ParseObject\<close> and \<^verbatim>\<open>ParseArray\<close>; \<open>ms\<close> and \<open>es\<close> are
  the members and elements appended so far. The inner call of a loop returns the text the
  loop goes on with, so termination needs that a value shortens some of its input.
\<close>

function (sequential) parse_value :: "nat \<Rightarrow> string \<Rightarrow> json parsed"
  and object_loop :: "nat \<Rightarrow> (string \<times> json) list \<Rightarrow> string \<Rightarrow> json parsed"
  and array_loop :: "nat \<Rightarrow> json list \<Rightarrow> string \<Rightarrow> json parsed" where
  "parse_value d s =
     (if d > k_max_depth then Inl (''nesting too deep'', s)
      else case s of
        [] \<Rightarrow> Inl (''unexpected end of input'', [])
      | c # t \<Rightarrow>
          if c = CHR ''{'' then
            (if starts_with [CHR ''}''] (skip_ws t) then Inr (JObject [], tl (skip_ws t))
             else object_loop d [] (skip_ws t))
          else if c = CHR ''['' then
            (if starts_with [CHR '']''] (skip_ws t) then Inr (JArray [], tl (skip_ws t))
             else array_loop d [] (skip_ws t))
          else parse_scalar (c # t))"
| "object_loop d ms s =
     (case parse_member_key s of
        Inl e \<Rightarrow> Inl e
      | Inr (k, r) \<Rightarrow>
          (case parse_value (Suc d) r of
             Inl e \<Rightarrow> Inl e
           | Inr (v, r1) \<Rightarrow>
               (case skip_ws r1 of
                  [] \<Rightarrow> Inl (''unterminated object'', [])
                | c # u \<Rightarrow>
                    if c = CHR '','' then object_loop d (ms @ [(k, v)]) u
                    else if c = CHR ''}'' then Inr (JObject (ms @ [(k, v)]), u)
                    else Inl (''expected '' @ quoted CHR '','' @ '' or '' @ quoted CHR ''}'', c # u))))"
| "array_loop d es s =
     (case parse_value (Suc d) (skip_ws s) of
        Inl e \<Rightarrow> Inl e
      | Inr (v, r1) \<Rightarrow>
          (case skip_ws r1 of
             [] \<Rightarrow> Inl (''unterminated array'', [])
           | c # u \<Rightarrow>
               if c = CHR '','' then array_loop d (es @ [v]) u
               else if c = CHR '']'' then Inr (JArray (es @ [v]), u)
               else Inl (''expected '' @ quoted CHR '','' @ '' or '' @ quoted CHR '']'', c # u)))"
  by pat_completeness auto

lemma parse_literal_consumes [shortens]:
  "parse_literal lit v s = Inr (w, r) \<Longrightarrow> lit \<noteq> [] \<Longrightarrow> length r < length s"
  by (auto simp: parse_literal_def json_literal_def starts_with_split split: if_splits)

lemma parse_scalar_consumes [shortens]:
  "parse_scalar s = Inr (v, r) \<Longrightarrow> length r < length s"
proof -
  assume p: "parse_scalar s = Inr (v, r)"
  then consider x where "starts_with [CHR 0x22] s" "parse_string s = Inr (x, r)"
    | lit x where "lit \<noteq> []" "parse_literal lit x s = Inr (v, r)"
    | "parse_number s = Inr (v, r)"
    unfolding parse_scalar_def
    by (cases "starts_with [CHR 0x22] s"; cases "starts_with ''t'' s"; cases "starts_with ''f'' s";
        cases "starts_with ''n'' s") (auto split: sum.splits)
  then show ?thesis
    by cases (auto simp: starts_with_split intro: shortens)
qed

lemma value_consumes_dom:
  "parse_value_object_loop_array_loop_dom (Inl (d, s)) \<Longrightarrow>
     parse_value d s = Inr (v, r) \<Longrightarrow> length r < length s"
  "parse_value_object_loop_array_loop_dom (Inr (Inl (d, ms, s))) \<Longrightarrow>
     object_loop d ms s = Inr (v, r) \<Longrightarrow> length r < length s"
  "parse_value_object_loop_array_loop_dom (Inr (Inr (d, es, s))) \<Longrightarrow>
     array_loop d es s = Inr (v, r) \<Longrightarrow> length r < length s"
proof (induction d s and d ms s and d es s arbitrary: v r and v r and v r
    rule: parse_value_object_loop_array_loop.pinduct)
  case (1 d s)
  note eq = parse_value.psimps [OF 1(1)]
  from 1 obtain c t where s: "s = c # t" and d: "\<not> d > k_max_depth"
    by (auto simp: eq split: if_splits list.splits)
  have t: "length (skip_ws t) \<le> length t" by simp
  show ?case
  proof (cases "c = CHR ''{'' \<or> c = CHR ''[''")
    case True
    then consider "r = tl (skip_ws t)" "skip_ws t \<noteq> []"
      | "c = CHR ''{''" "\<not> starts_with ''}'' (skip_ws t)" "object_loop d [] (skip_ws t) = Inr (v, r)"
      | "c = CHR ''[''" "\<not> starts_with '']'' (skip_ws t)" "array_loop d [] (skip_ws t) = Inr (v, r)"
      using 1(4) d unfolding eq by (auto simp: s starts_with_split split: if_splits)
    then have "length r < length (skip_ws t)"
    proof cases
      case 2
      then show ?thesis using 1(2)[OF d s] by blast
    next
      case 3
      then show ?thesis using 1(3)[OF d s] by simp
    qed simp
    with t show ?thesis unfolding s length_Cons by linarith
  next
    case False
    then show ?thesis
      using 1(4) d parse_scalar_consumes [of s] unfolding eq by (auto simp: s)
  qed
next
  case (2 d ms s)
  then obtain k r1 where k: "parse_member_key s = Inr (k, r1)"
    by (auto simp: object_loop.psimps split: sum.splits)
  with 2 obtain w r2 where w: "parse_value (Suc d) r1 = Inr (w, r2)"
    by (auto simp: object_loop.psimps split: sum.splits)
  with 2 k obtain c u where u: "skip_ws r2 = c # u"
    by (auto simp: object_loop.psimps split: list.splits)
  have "length u < length s"
    using parse_member_key_consumes [OF k] "2.IH"(1) [OF k refl w] skip_ws_consumes [OF u] by simp
  moreover consider "c = CHR '',''" "object_loop d (ms @ [(k, w)]) u = Inr (v, r)" | "r = u"
    using 2 k w u by (auto simp: object_loop.psimps split: if_splits)
  ultimately show ?case using "2.IH"(2)[OF k refl w refl u] by cases (auto intro: less_trans)
next
  case (3 d es s)
  then obtain w r2 where w: "parse_value (Suc d) (skip_ws s) = Inr (w, r2)"
    by (auto simp: array_loop.psimps split: sum.splits)
  with 3 obtain c u where u: "skip_ws r2 = c # u"
    by (auto simp: array_loop.psimps split: list.splits)
  have "length u < length s"
    using "3.IH"(1) [OF w] skip_ws_consumes [OF u] length_skip_ws [of s] by linarith
  moreover consider "c = CHR '',''" "array_loop d (es @ [w]) u = Inr (v, r)" | "r = u"
    using 3 w u by (auto simp: array_loop.psimps split: if_splits)
  ultimately show ?case using "3.IH"(2)[OF w refl u] by cases (auto intro: less_trans)
qed

lemma parse_value_dom_all: "All parse_value_object_loop_array_loop_dom"
proof (relation "measure (\<lambda>x. case x of Inl (d, s) \<Rightarrow> 2 * length s
    | Inr (Inl (d, ms, s)) \<Rightarrow> 2 * length s + 1 | Inr (Inr (d, es, s)) \<Rightarrow> 2 * length s + 1)", goal_cases)
  case (5 d ms s p k r q v r1 c u)
  then have "length u < length s"
    using parse_member_key_consumes [of s k r] value_consumes_dom(1)[of "Suc d" r v r1]
      skip_ws_consumes [of r1 c u] by simp
  then show ?case by simp
next
  case (7 d es s p v r1 c u)
  then have "length u < length (skip_ws s)"
    using value_consumes_dom(1)[of "Suc d" "skip_ws s" v r1] skip_ws_consumes [of r1 c u] by simp
  then have "length u < length s" using length_skip_ws [of s] by linarith
  then show ?case by simp
next
  case (4 d ms s p k r)
  then show ?case using parse_member_key_consumes [of s k r] by simp
qed (auto simp: le_imp_less_Suc)

termination parse_value
  by (rule parse_value_dom_all)

declare parse_value.simps [simp del] object_loop.simps [simp del] array_loop.simps [simp del]

lemma value_consumes [shortens]:
  "parse_value d s = Inr (v, r) \<Longrightarrow> length r < length s"
  "object_loop d ms s = Inr (v, r) \<Longrightarrow> length r < length s"
  "array_loop d es s = Inr (v, r) \<Longrightarrow> length r < length s"
  using value_consumes_dom parse_value_dom_all by blast+

section \<open>Documents\<close>

definition parse_document :: "string \<Rightarrow> json_fail + json" where
  "parse_document s =
     (case parse_value 0 (skip_ws s) of
        Inl e \<Rightarrow> Inl e
      | Inr (v, r) \<Rightarrow>
          if skip_ws r \<noteq> [] then Inl (''trailing data after JSON value'', skip_ws r) else Inr v)"

text \<open>\<^verbatim>\<open>Fail\<close> appends the offset; \<^verbatim>\<open>JsonValue::Parse\<close> hands out the message or the value.\<close>

definition fail_text :: "string \<Rightarrow> json_fail \<Rightarrow> string" where
  "fail_text s e = fst e @ '' at offset '' @ dec_nat (length s - length (snd e))"

definition json_parse :: "string \<Rightarrow> string + json" where
  "json_parse s = (case parse_document s of Inl e \<Rightarrow> Inl (fail_text s e) | Inr v \<Rightarrow> Inr v)"

section \<open>How deep a result can be\<close>

text \<open>The number of containers around the innermost element or member.\<close>

fun json_depth :: "json \<Rightarrow> nat" where
  "json_depth (JArray es) = (if es = [] then 0 else Suc (Max (set (map json_depth es))))"
| "json_depth (JObject ms) =
     (if ms = [] then 0 else Suc (Max (set (map (\<lambda>m. json_depth (snd m)) ms))))"
| "json_depth _ = 0"

lemma json_depth_array_le:
  "json_depth (JArray es) \<le> n \<longleftrightarrow> (\<forall>v \<in> set es. json_depth v < n)"
  by (cases n) (auto simp: less_Suc_eq_le)

lemma json_depth_object_le:
  "json_depth (JObject ms) \<le> n \<longleftrightarrow> (\<forall>m \<in> set ms. json_depth (snd m) < n)"
  by (cases n; cases ms) (auto simp: less_Suc_eq_le)

lemma parse_scalar_depth: "parse_scalar s = Inr (v, r) \<Longrightarrow> json_depth v = 0"
  by (auto simp: parse_scalar_def parse_literal_def parse_number_def
      split: sum.splits if_splits option.splits prod.splits)

lemma parse_depth:
  "parse_value d s = Inr (v, r) \<Longrightarrow> d \<le> k_max_depth \<and> json_depth v \<le> k_max_depth - d"
  "object_loop d ms s = Inr (v, r) \<Longrightarrow> json_depth (JObject ms) \<le> k_max_depth - d \<Longrightarrow>
     json_depth v \<le> k_max_depth - d"
  "array_loop d es s = Inr (v, r) \<Longrightarrow> json_depth (JArray es) \<le> k_max_depth - d \<Longrightarrow>
     json_depth v \<le> k_max_depth - d"
proof (induction d s and d ms s and d es s arbitrary: v r and v r and v r
    rule: parse_value_object_loop_array_loop.induct)
  case (1 d s)
  then obtain c t where s: "s = c # t" and d: "\<not> d > k_max_depth"
    by (auto simp: parse_value.simps [of d s] split: if_splits list.splits)
  from 1(3) d consider "v = JObject []" | "v = JArray []"
    | "c = CHR ''{''" "\<not> starts_with ''}'' (skip_ws t)" "object_loop d [] (skip_ws t) = Inr (v, r)"
    | "c \<noteq> CHR ''{''" "c = CHR ''[''" "\<not> starts_with '']'' (skip_ws t)"
      "array_loop d [] (skip_ws t) = Inr (v, r)"
    | "parse_scalar s = Inr (v, r)"
    by (auto simp: s parse_value.simps [of d "c # t"] split: if_splits)
  then show ?case
  proof cases
    case 3
    then show ?thesis using 1(1)[OF d s 3] d by simp
  next
    case 4
    then show ?thesis using 1(2)[OF d s 4] d by simp
  next
    case 5
    then show ?thesis using parse_scalar_depth d by simp
  qed (use d in simp_all)
next
  case (2 d ms s)
  then obtain k r1 w r2 c u where k: "parse_member_key s = Inr (k, r1)"
    and w: "parse_value (Suc d) r1 = Inr (w, r2)" and u: "skip_ws r2 = c # u"
    by (auto simp: object_loop.simps [of d ms s] split: sum.splits list.splits)
  have "json_depth w < k_max_depth - d" using "2.IH"(1)[OF k refl w] by auto
  then have ms: "json_depth (JObject (ms @ [(k, w)])) \<le> k_max_depth - d"
    using "2.prems"(2) unfolding json_depth_object_le by auto
  show ?case
    using 2 ms k w u by (auto simp: object_loop.simps [of d ms s] split: if_splits)
next
  case (3 d es s)
  then obtain w r2 c u where w: "parse_value (Suc d) (skip_ws s) = Inr (w, r2)"
    and u: "skip_ws r2 = c # u"
    by (auto simp: array_loop.simps [of d es s] split: sum.splits list.splits)
  have "json_depth w < k_max_depth - d" using "3.IH"(1)[OF w] by auto
  then have es: "json_depth (JArray (es @ [w])) \<le> k_max_depth - d"
    using "3.prems"(2) unfolding json_depth_array_le by auto
  show ?case
    using 3 es w u by (auto simp: array_loop.simps [of d es s] split: if_splits)
qed

end
