(* ===== verification/Json_Builder.thy ===== *)
theory Json_Builder
  imports Json_Parser
begin

text \<open>
  \<^verbatim>\<open>JsonEscape\<close> and the \<^verbatim>\<open>JsonObject\<close> builder of src/json.cpp, and what they promise: the
  text is read back by the parser as the object that was built. The builder's state is its
  \<^verbatim>\<open>body_\<close>. \<open>render\<close> is the specification: the canonical text of a value.
\<close>

section \<open>Escaping\<close>

definition escape_char :: "char \<Rightarrow> string" where
  "escape_char c =
     (if c = CHR 0x22 then [CHR 0x5C, CHR 0x22]
      else if c = CHR 0x5C then [CHR 0x5C, CHR 0x5C]
      else if c = CHR 0x08 then [CHR 0x5C, CHR ''b'']
      else if c = CHR 0x0C then [CHR 0x5C, CHR ''f'']
      else if c = CHR 0x0A then [CHR 0x5C, CHR ''n'']
      else if c = CHR 0x0D then [CHR 0x5C, CHR ''r'']
      else if c = CHR 0x09 then [CHR 0x5C, CHR ''t'']
      else if byte c < 32 then [CHR 0x5C, CHR ''u''] @ hex4 (byte c)
      else [c])"

definition json_escape :: "string \<Rightarrow> string" where
  "json_escape s = concat (map escape_char s)"

section \<open>The builder\<close>

definition jo_sep :: "string \<Rightarrow> string" where
  "jo_sep body = (if body = [] then [] else body @ '','')"

definition jo_key :: "string \<Rightarrow> string \<Rightarrow> string" where
  "jo_key key body = jo_sep body @ [CHR 0x22] @ key @ [CHR 0x22, CHR '':'']"

definition jo_str :: "string \<Rightarrow> string \<Rightarrow> string \<Rightarrow> string" where
  "jo_str key v body = jo_key key body @ [CHR 0x22] @ json_escape v @ [CHR 0x22]"

definition jo_str_if_set :: "string \<Rightarrow> string \<Rightarrow> string \<Rightarrow> string" where
  "jo_str_if_set key v body = (if v = [] then body else jo_str key v body)"

definition jo_int :: "string \<Rightarrow> int \<Rightarrow> string \<Rightarrow> string" where
  "jo_int key n body = jo_key key body @ dec_int n"

definition jo_bool :: "string \<Rightarrow> bool \<Rightarrow> string \<Rightarrow> string" where
  "jo_bool key b body = jo_key key body @ (if b then ''true'' else ''false'')"

definition jo_raw :: "string \<Rightarrow> string \<Rightarrow> string \<Rightarrow> string" where
  "jo_raw key raw body = jo_key key body @ raw"

definition jo_build :: "string \<Rightarrow> string" where
  "jo_build body = ''{'' @ body @ ''}''"

section \<open>The canonical text of a value\<close>

fun join_comma :: "string list \<Rightarrow> string" where
  "join_comma [] = []"
| "join_comma [x] = x"
| "join_comma (x # y # zs) = x @ '','' @ join_comma (y # zs)"

definition quote_text :: "string \<Rightarrow> string" where
  "quote_text s = [CHR 0x22] @ json_escape s @ [CHR 0x22]"

fun render :: "json \<Rightarrow> string" where
  "render JNull = ''null''"
| "render (JBool b) = (if b then ''true'' else ''false'')"
| "render (JNumber t) = t"
| "render (JString s) = quote_text s"
| "render (JArray es) = ''['' @ join_comma (map render es) @ '']''"
| "render (JObject ms) =
     ''{'' @ join_comma (map (\<lambda>m. quote_text (fst m) @ '':'' @ render (snd m)) ms) @ ''}''"

abbreviation member_text :: "string \<times> json \<Rightarrow> string" where
  "member_text m \<equiv> quote_text (fst m) @ '':'' @ render (snd m)"

text \<open>Number texts the parser reads whole.\<close>

definition number_text :: "string \<Rightarrow> bool" where
  "number_text t \<longleftrightarrow> t \<noteq> [] \<and> (\<forall>c \<in> set t. is_number_char c) \<and> t \<noteq> ''-'' \<and> t \<noteq> ''+''"

fun wf_json :: "json \<Rightarrow> bool" where
  "wf_json (JNumber t) = number_text t"
| "wf_json (JArray es) = (\<forall>v \<in> set es. wf_json v)"
| "wf_json (JObject ms) = (\<forall>m \<in> set ms. wf_json (snd m))"
| "wf_json _ = True"

lemma json_escape_simps [simp]:
  "json_escape [] = []" "json_escape (c # s) = escape_char c @ json_escape s"
  "json_escape (s @ t) = json_escape s @ json_escape t"
  by (simp_all add: json_escape_def)

section \<open>Strings survive the trip\<close>

lemma hex_val_hex_digit: "d < 16 \<Longrightarrow> hex_val (hex_digit d) = Some (of_nat d)"
  by (simp add: hex_val_def hex_digit_def Let_def)

lemma split_nibble: "push_bit 4 (of_nat (n div 16)) OR of_nat (n mod 16) = (of_nat n :: 32 word)"
proof -
  have "push_bit 4 (drop_bit 4 n) OR take_bit 4 n = n"
    by (rule bit_eqI) (auto simp: bit_simps)
  then have "(of_nat (push_bit 4 (n div 16) OR n mod 16) :: 32 word) = of_nat n"
    by (simp add: drop_bit_eq_div take_bit_eq_mod)
  then show ?thesis by (simp only: of_nat_or_eq of_nat_push_bit)
qed

lemma parse_hex4_hex4: "n < 256 \<Longrightarrow> parse_hex4 (hex4 n @ r) = Some (of_nat n, r)"
proof -
  assume "n < 256"
  then have "n div 16 < 16" "n mod 16 < 16" by auto
  moreover have "hex_val (CHR ''0'') = Some 0" by (simp add: hex_val_def byte_def)
  ultimately have "hex_digits 0 (hex4 n) = Some (of_nat n)"
    by (simp add: hex4_def split_nibble hex_val_hex_digit)
  then show ?thesis by (simp add: parse_hex4_def hex4_def)
qed

lemma control_escape_reads_back:
  assumes "byte c < 32"
  shows "parse_hex4 (hex4 (byte c) @ r) = Some (of_nat (byte c), r)
    \<and> join_surrogates (of_nat (byte c)) r = (of_nat (byte c), r)
    \<and> append_utf8 out (of_nat (byte c)) = out @ [c]"
proof -
  have u: "unat (of_nat (byte c) :: 32 word) = byte c"
    using assms by (simp add: unat_of_nat)
  then have "(of_nat (byte c) :: 32 word) < 0x80" "\<not> 0xD800 \<le> (of_nat (byte c) :: 32 word)"
    using assms by (simp_all add: word_less_nat_alt word_le_nat_alt)
  then show ?thesis
    using assms u by (simp add: parse_hex4_hex4 join_surrogates_def append_utf8_def byte_of_word_def)
qed

lemma string_loop_escape_char: "string_loop out (escape_char c @ r) = string_loop (out @ [c]) r"
proof (cases "c = CHR 0x22 \<or> c = CHR 0x5C \<or> c = CHR 0x08 \<or> c = CHR 0x0C \<or> c = CHR 0x0A
    \<or> c = CHR 0x0D \<or> c = CHR 0x09")
  case True
  then show ?thesis by (auto simp: escape_char_def simple_escape_def)
next
  case False
  note not_simple = False
  show ?thesis
  proof (cases "byte c < 32")
    case True
    have "simple_escape (CHR ''u'') = None" by (simp add: simple_escape_def)
    with True not_simple show ?thesis
      using control_escape_reads_back [OF True, of r out] by (simp add: escape_char_def)
  next
    case False
    with not_simple show ?thesis by (simp add: escape_char_def)
  qed
qed

lemma string_loop_escape:
  "string_loop out (json_escape s @ CHR 0x22 # r) = Inr (out @ s, r)"
  by (induction s arbitrary: out) (simp_all add: string_loop_escape_char)

lemma parse_string_quote_text: "parse_string (quote_text s @ r) = Inr (s, r)"
  by (simp add: parse_string_def quote_text_def string_loop_escape)

section \<open>The parser reads the canonical text\<close>

lemma json_space_facts:
  "\<not> is_json_space CHR 0x22" "\<not> is_json_space CHR ''{''" "\<not> is_json_space CHR ''[''"
  "\<not> is_json_space CHR '',''" "\<not> is_json_space CHR '':''" "\<not> is_json_space CHR '']''"
  "\<not> is_json_space CHR ''}''" "\<not> is_json_space CHR ''t''" "\<not> is_json_space CHR ''f''"
  "\<not> is_json_space CHR ''n''"
  by (simp_all add: is_json_space_def byte_def)

lemma skip_ws_Cons [simp]: "\<not> is_json_space c \<Longrightarrow> skip_ws (c # s) = c # s"
  by (simp add: skip_ws_def)

lemma number_char_facts:
  assumes "is_number_char c"
  shows "\<not> is_json_space c" "c \<noteq> CHR ''{''" "c \<noteq> CHR ''[''" "c \<noteq> CHR 0x22" "c \<noteq> CHR ''t''"
    "c \<noteq> CHR ''f''" "c \<noteq> CHR ''n''" "c \<noteq> CHR ''}''" "c \<noteq> CHR '']''"
  using assms by (auto simp: is_number_char_def is_json_space_def is_digit_def byte_def)

lemma not_number_char:
  "\<not> is_number_char CHR '',''" "\<not> is_number_char CHR ''}''" "\<not> is_number_char CHR '']''"
  by (simp_all add: is_number_char_def is_digit_def byte_def)

text \<open>The first byte of a rendered value decides the branch the parser takes.\<close>

lemma render_starts:
  "wf_json v \<Longrightarrow> \<exists>c s. render v = c # s \<and> \<not> is_json_space c \<and> c \<noteq> CHR '']'' \<and> c \<noteq> CHR ''}''"
proof (cases v)
  case (JNumber t)
  assume "wf_json v"
  then show ?thesis using JNumber number_char_facts by (cases t) (auto simp: number_text_def)
qed (auto simp: quote_text_def json_space_facts)

lemma skip_ws_render: "wf_json v \<Longrightarrow> skip_ws (render v @ r) = render v @ r"
  using render_starts [of v] by auto

lemma parse_number_text:
  assumes t: "number_text t" and r: "r = [] \<or> \<not> is_number_char (hd r)"
  shows "parse_scalar (t @ r) = Inr (JNumber t, r)"
proof -
  obtain c u where cu: "t = c # u" using t by (cases t) (auto simp: number_text_def)
  have n: "\<And>x. x \<in> set u \<Longrightarrow> is_number_char x" and c: "is_number_char c"
    using t cu by (auto simp: number_text_def)
  have u: "takeWhile is_number_char (u @ r) = u" "dropWhile is_number_char (u @ r) = r"
    using takeWhile_append_stop [where P = is_number_char, OF n r]
      dropWhile_append_stop [where P = is_number_char, OF n r] by auto
  have "(c = CHR ''-'' \<or> c = CHR ''+'') \<Longrightarrow> u \<noteq> []" using t cu by (auto simp: number_text_def)
  then have "parse_number (t @ r) = Inr (JNumber t, r)"
    using u c cu by (simp add: parse_number_def split_sign_def)
  then show ?thesis
    using number_char_facts [OF c] cu by (simp add: parse_scalar_def starts_with_split)
qed

lemma parse_key_text:
  "parse_member_key (quote_text k @ '':'' @ r) = Inr (k, skip_ws r)"
proof -
  have "skip_ws (quote_text k @ '':'' @ r) = quote_text k @ '':'' @ r"
    by (simp add: quote_text_def json_space_facts)
  moreover have "parse_string (quote_text k @ '':'' @ r) = Inr (k, '':'' @ r)"
    by (rule parse_string_quote_text)
  ultimately show ?thesis
    by (simp add: parse_member_key_def quote_text_def json_space_facts)
qed

lemma array_loop_render:
  assumes "es \<noteq> []"
    and IH: "\<And>v r. v \<in> set es \<Longrightarrow> r = [] \<or> \<not> is_number_char (hd r) \<Longrightarrow>
      parse_value (Suc d) (render v @ r) = Inr (v, r)"
    and wf: "\<And>v. v \<in> set es \<Longrightarrow> wf_json v"
  shows "array_loop d acc (join_comma (map render es) @ '']'' @ r) = Inr (JArray (acc @ es), r)"
  using assms
proof (induction es arbitrary: acc)
  case (Cons v es)
  note parse = "Cons.prems"(2) [of v] and step = array_loop.simps [of d acc]
  show ?case
  proof (cases es)
    case Nil
    then show ?thesis
      using parse [of "'']'' @ r"] skip_ws_render [OF "Cons.prems"(3)]
      by (simp add: step not_number_char json_space_facts)
  next
    case (Cons w ws)
    then show ?thesis
      using parse [of "'','' @ join_comma (map render es) @ '']'' @ r"]
        skip_ws_render [OF "Cons.prems"(3)] "Cons.IH" [of "acc @ [v]"] "Cons.prems"
      by (simp add: step not_number_char json_space_facts)
  qed
qed simp

lemma object_loop_render:
  assumes "ms \<noteq> []"
    and IH: "\<And>m r. m \<in> set ms \<Longrightarrow> r = [] \<or> \<not> is_number_char (hd r) \<Longrightarrow>
      parse_value (Suc d) (render (snd m) @ r) = Inr (snd m, r)"
    and wf: "\<And>m. m \<in> set ms \<Longrightarrow> wf_json (snd m)"
  shows "object_loop d acc (join_comma (map member_text ms) @ ''}'' @ r) = Inr (JObject (acc @ ms), r)"
  using assms
proof (induction ms arbitrary: acc)
  case (Cons m ms)
  obtain k v where m: "m = (k, v)" by fastforce
  note parse = "Cons.prems"(2) [of m] and step = object_loop.simps [of d acc]
  have v: "wf_json v" using "Cons.prems"(3) [of m] m by simp
  show ?case
  proof (cases ms)
    case Nil
    then show ?thesis
      using parse [of "''}'' @ r"] skip_ws_render [OF v] parse_key_text [of k "render v @ ''}'' @ r"] m
      by (simp add: step not_number_char json_space_facts)
  next
    case (Cons n ns)
    then show ?thesis
      using parse [of "'','' @ join_comma (map member_text ms) @ ''}'' @ r"]
        parse_key_text [of k "render v @ '','' @ join_comma (map member_text ms) @ ''}'' @ r"]
        skip_ws_render [OF v] "Cons.IH" [of "acc @ [m]"] "Cons.prems" m
      by (simp add: step not_number_char json_space_facts)
  qed
qed simp

lemma join_comma_Cons: "\<exists>u. join_comma (x # xs) = x @ u"
  by (cases xs) auto

lemma join_render_starts:
  assumes "es \<noteq> []" "\<And>v. v \<in> set es \<Longrightarrow> wf_json v"
  shows "skip_ws (join_comma (map render es) @ r) = join_comma (map render es) @ r
    \<and> \<not> starts_with '']'' (join_comma (map render es) @ r)"
proof -
  obtain v vs where es: "es = v # vs" using assms(1) by (cases es) auto
  obtain u where "join_comma (map render es) = render v @ u"
    using join_comma_Cons [of "render v" "map render vs"] es by auto
  then show ?thesis using render_starts [of v] assms(2)[of v] es by (auto simp: starts_with_split)
qed

lemma join_members_starts:
  assumes "ms \<noteq> []"
  shows "skip_ws (join_comma (map member_text ms) @ r) = join_comma (map member_text ms) @ r
    \<and> \<not> starts_with ''}'' (join_comma (map member_text ms) @ r)"
proof -
  obtain m ns where ms: "ms = m # ns" using assms by (cases ms) auto
  obtain u where "join_comma (map member_text ms) = member_text m @ u"
    using join_comma_Cons [of "member_text m" "map member_text ns"] ms by auto
  then show ?thesis by (auto simp: quote_text_def starts_with_split json_space_facts)
qed

lemma parse_render:
  assumes "wf_json v" "d \<le> k_max_depth" "json_depth v \<le> k_max_depth - d"
    "r = [] \<or> \<not> is_number_char (hd r)"
  shows "parse_value d (render v @ r) = Inr (v, r)"
  using assms
proof (induction v arbitrary: d r)
  case JNull
  then show ?case
    by (simp add: parse_value.simps parse_scalar_def parse_literal_def json_literal_def starts_with_def)
next
  case (JBool b)
  then show ?case
    by (simp add: parse_value.simps parse_scalar_def parse_literal_def json_literal_def starts_with_def)
next
  case (JNumber t)
  then obtain c u where "t = c # u" "is_number_char c" by (cases t) (auto simp: number_text_def)
  then show ?case
    using JNumber number_char_facts [of c] parse_number_text [of t r]
    by (simp add: parse_value.simps [of d])
next
  case (JString s)
  then show ?case
    using parse_string_quote_text [of s r]
    by (simp add: parse_value.simps [of d] parse_scalar_def quote_text_def starts_with_def)
next
  case (JArray es)
  show ?case
  proof (cases "es = []")
    case True
    then show ?thesis
      using JArray.prems by (simp add: parse_value.simps [of d] json_space_facts starts_with_def)
  next
    case False
    then have d: "d < k_max_depth" using JArray.prems by (cases es) auto
    have "parse_value (Suc d) (render v @ r) = Inr (v, r)"
      if "v \<in> set es" "r = [] \<or> \<not> is_number_char (hd r)" for v r
      using JArray.IH [OF that(1) _ _ _ that(2)] JArray.prems that d
      unfolding json_depth_array_le by force
    then have "array_loop d [] (join_comma (map render es) @ '']'' @ r) = Inr (JArray es, r)"
      using array_loop_render [OF False, of d "[]" r] JArray.prems(1) by simp
    then show ?thesis
      using join_render_starts [OF False, of "'']'' @ r"] JArray.prems
      by (simp add: parse_value.simps [of d])
  qed
next
  case (JObject ms)
  show ?case
  proof (cases "ms = []")
    case True
    then show ?thesis
      using JObject.prems by (simp add: parse_value.simps [of d] json_space_facts starts_with_def)
  next
    case False
    then have d: "d < k_max_depth" using JObject.prems by (cases ms) auto
    have "parse_value (Suc d) (render (snd m) @ r) = Inr (snd m, r)"
      if "m \<in> set ms" "r = [] \<or> \<not> is_number_char (hd r)" for m r
      using JObject.IH [OF that(1) _ _ _ _ that(2), of "snd m"] JObject.prems that d
      unfolding json_depth_object_le by (force simp: snds.simps)
    then have "object_loop d [] (join_comma (map member_text ms) @ ''}'' @ r) = Inr (JObject ms, r)"
      using object_loop_render [OF False, of d "[]" r] JObject.prems(1) by simp
    then show ?thesis
      using join_members_starts [OF False, of "''}'' @ r"] JObject.prems
      by (simp add: parse_value.simps [of d])
  qed
qed

text \<open>
  C10
  Reading back the canonical text of any well-formed value that is nested at most 64 deep
  gives exactly that value, with any JSON blanks around it.
\<close>

theorem json_parse_render:
  assumes "wf_json v" "json_depth v \<le> k_max_depth"
    "list_all is_json_space before" "list_all is_json_space after"
  shows "json_parse (before @ render v @ after) = Inr v"
proof -
  have "skip_ws (before @ render v @ after) = render v @ after"
    using assms(3) skip_ws_render [OF assms(1)]
    by (simp add: skip_ws_def list_all_iff)
  moreover have "after = [] \<or> \<not> is_number_char (hd after)"
    using assms(4) number_char_facts(1) by (cases after) auto
  moreover have "skip_ws after = []" using assms(4) by (simp add: skip_ws_def list_all_iff)
  ultimately show ?thesis
    using parse_render [of v 0 after] assms by (simp add: json_parse_def parse_document_def)
qed

lemma json_parse_render_witness:
  "json_parse (''  '' @ render (JObject [(''queue'', JArray [JNumber ''412'', JString ''a\<newline>b''])]) @ []) =
     Inr (JObject [(''queue'', JArray [JNumber ''412'', JString ''a\<newline>b''])])"
  by (rule json_parse_render)
    (simp_all add: number_text_def is_number_char_def is_digit_def is_json_space_def byte_def)

section \<open>What the builder builds\<close>

text \<open>A chain of builder calls, as the request code writes them.\<close>

datatype jo_op =
  CallStr string string
| CallStrIfSet string string
| CallInt string int
| CallBool string bool
| CallRaw string string

fun jo_call_key :: "jo_op \<Rightarrow> string" where
  "jo_call_key (CallStr k v) = k"
| "jo_call_key (CallStrIfSet k v) = k"
| "jo_call_key (CallInt k n) = k"
| "jo_call_key (CallBool k b) = k"
| "jo_call_key (CallRaw k raw) = k"

fun jo_call :: "jo_op \<Rightarrow> string \<Rightarrow> string" where
  "jo_call (CallStr k v) = jo_str k v"
| "jo_call (CallStrIfSet k v) = jo_str_if_set k v"
| "jo_call (CallInt k n) = jo_int k n"
| "jo_call (CallBool k b) = jo_bool k b"
| "jo_call (CallRaw k raw) = jo_raw k raw"

definition jo_calls :: "jo_op list \<Rightarrow> string" where
  "jo_calls cs = jo_build (fold jo_call cs [])"

text \<open>The members each call adds; \<open>inner\<close> says what value a raw text stands for.\<close>

fun jo_members :: "(string \<Rightarrow> json) \<Rightarrow> jo_op \<Rightarrow> (string \<times> json) list" where
  "jo_members inner (CallStr k v) = [(k, JString v)]"
| "jo_members inner (CallStrIfSet k v) = (if v = [] then [] else [(k, JString v)])"
| "jo_members inner (CallInt k n) = [(k, JNumber (dec_int n))]"
| "jo_members inner (CallBool k b) = [(k, JBool b)]"
| "jo_members inner (CallRaw k raw) = [(k, inner raw)]"

text \<open>Keys are C literals and are not escaped, so they must not need it; a raw text must be one value.\<close>

fun jo_call_ok :: "(string \<Rightarrow> json) \<Rightarrow> jo_op \<Rightarrow> bool" where
  "jo_call_ok inner (CallRaw k raw) \<longleftrightarrow>
     json_escape k = k \<and> render (inner raw) = raw \<and> wf_json (inner raw) \<and> json_depth (inner raw) < k_max_depth"
| "jo_call_ok inner c \<longleftrightarrow> json_escape (jo_call_key c) = jo_call_key c"

definition body_of :: "(string \<times> json) list \<Rightarrow> string" where
  "body_of ms = join_comma (map member_text ms)"

lemma join_comma_snoc:
  "join_comma (xs @ [x]) = (if xs = [] then x else join_comma xs @ '','' @ x)"
proof (induction xs rule: join_comma.induct)
  case (3 x y zs)
  then show ?case by (cases zs) auto
qed auto

lemma body_of_snoc:
  "body_of (ms @ [m]) = (if ms = [] then member_text m else body_of ms @ '','' @ member_text m)"
  by (simp add: body_of_def join_comma_snoc)

lemma body_of_Nil_iff [simp]: "body_of ms = [] \<longleftrightarrow> ms = []"
  by (cases ms rule: rev_cases) (auto simp: body_of_snoc quote_text_def body_of_def [of "[]"])

lemma jo_key_body:
  "json_escape k = k \<Longrightarrow> jo_key k (body_of ms) @ render v = body_of (ms @ [(k, v)])"
  by (simp add: jo_key_def jo_sep_def quote_text_def body_of_snoc)

lemma jo_call_body:
  assumes "jo_call_ok inner c"
  shows "jo_call c (body_of ms) = body_of (ms @ jo_members inner c)"
proof (cases c)
  case (CallStr k v)
  then show ?thesis using assms jo_key_body [of k ms "JString v"] by (simp add: jo_str_def quote_text_def)
next
  case (CallStrIfSet k v)
  then show ?thesis using assms jo_key_body [of k ms "JString v"]
    by (simp add: jo_str_def jo_str_if_set_def quote_text_def)
next
  case (CallInt k n)
  then show ?thesis using assms jo_key_body [of k ms "JNumber (dec_int n)"] by (simp add: jo_int_def)
next
  case (CallBool k b)
  then show ?thesis using assms jo_key_body [of k ms "JBool b"] by (simp add: jo_bool_def)
next
  case (CallRaw k raw)
  then show ?thesis using assms jo_key_body [of k ms "inner raw"] by (simp add: jo_raw_def)
qed

lemma jo_calls_body:
  "\<forall>c \<in> set cs. jo_call_ok inner c \<Longrightarrow>
     fold jo_call cs (body_of ms) = body_of (ms @ concat (map (jo_members inner) cs))"
proof (induction cs arbitrary: ms)
  case (Cons c cs)
  then show ?case using jo_call_body [of inner c ms] by simp
qed simp

lemma number_text_dec_int: "number_text (dec_int n)"
proof -
  have d: "c \<in> set (dec_nat m) \<Longrightarrow> is_number_char c" for c m
    using dec_nat_digits by (simp add: is_number_char_def)
  have s: "dec_nat m \<noteq> [x]" if "\<not> is_digit x" for m x
    using dec_nat_digits [of x m] that by auto
  show ?thesis
    using s [of "CHR ''-''"] s [of "CHR ''+''"]
    by (auto simp: number_text_def dec_int_def d is_digit_def byte_def is_number_char_def [of "CHR ''-''"])
qed

lemma jo_members_wf:
  "jo_call_ok inner c \<Longrightarrow> m \<in> set (jo_members inner c) \<Longrightarrow>
     wf_json (snd m) \<and> json_depth (snd m) < k_max_depth"
  by (cases c) (auto simp: number_text_dec_int split: if_splits)

lemma builder_round_trip:
  assumes "\<forall>c \<in> set cs. jo_call_ok inner c"
  shows "json_parse (jo_calls cs) = Inr (JObject (concat (map (jo_members inner) cs)))"
proof -
  let ?ms = "concat (map (jo_members inner) cs)"
  have "jo_calls cs = [] @ render (JObject ?ms) @ []"
    using jo_calls_body [OF assms, of "[]"]
    by (simp add: jo_calls_def jo_build_def body_of_def)
  moreover have "wf_json (JObject ?ms)" using assms jo_members_wf by fastforce
  moreover have "json_depth (JObject ?ms) \<le> k_max_depth"
    unfolding json_depth_object_le using assms jo_members_wf by fastforce
  ultimately show ?thesis
    using parse_render [of "JObject ?ms" 0 "[]"]
      skip_ws_render [of "JObject ?ms" "[]"] by (simp add: json_parse_def parse_document_def skip_ws_def)
qed

text \<open>
  C31
  Every request body the plugin builds is read back as an object with exactly the fields
  that were put in, in call order, whatever bytes the values hold: nothing a caller passes
  can break out of its string.
\<close>

theorem builder_reads_back:
  assumes "\<forall>c \<in> set cs. jo_call_ok inner c"
  shows "json_parse (jo_calls cs) = Inr (JObject (concat (map (jo_members inner) cs)))"
  using assms by (rule builder_round_trip)

lemma builder_reads_back_witness:
  "json_parse (jo_calls [CallStr ''slug'' ''my\<newline>fm'', CallInt ''lowQueueThreshold'' 3,
      CallBool ''stopCurrent'' True, CallStrIfSet ''skipped'' []]) =
   Inr (JObject [(''slug'', JString ''my\<newline>fm''), (''lowQueueThreshold'', JNumber (dec_int 3)),
      (''stopCurrent'', JBool True)])"
proof -
  let ?cs = "[CallStr ''slug'' ''my\<newline>fm'', CallInt ''lowQueueThreshold'' 3,
      CallBool ''stopCurrent'' True, CallStrIfSet ''skipped'' []]"
  have "\<forall>c \<in> set ?cs. jo_call_ok (\<lambda>_. JNull) c" by (simp add: escape_char_def byte_def)
  from builder_reads_back [OF this] show ?thesis by simp
qed

text \<open>An integer field reads back as the integer, quoted or not.\<close>

lemma as_int_dec_int:
  "llong_min \<le> n \<Longrightarrow> n \<le> llong_max \<Longrightarrow>
     as_int (JNumber (dec_int n)) = n \<and> as_int (JString (dec_int n)) = n"
  by (simp add: strtoll_dec_int)

end
