(* ===== verification/Json_Unicode.thy ===== *)
theory Json_Unicode
  imports Json_Builder
begin

text \<open>
  \<^verbatim>\<open>AppendUtf8\<close> and the \<^verbatim>\<open>\u\<close> escapes of src/json.cpp against Unicode: the bytes written for a
  code point are its UTF-8 form, and a surrogate pair becomes the one code point it encodes.
\<close>

text \<open>The number a UTF-8 sequence of one to four bytes stands for.\<close>

fun utf8_value :: "string \<Rightarrow> nat option" where
  "utf8_value [a] = (if byte a < 128 then Some (byte a) else None)"
| "utf8_value [a, b] =
     (if 192 \<le> byte a \<and> byte a < 224 \<and> 128 \<le> byte b \<and> byte b < 192
      then Some ((byte a - 192) * 64 + (byte b - 128)) else None)"
| "utf8_value [a, b, c] =
     (if 224 \<le> byte a \<and> byte a < 240 \<and> 128 \<le> byte b \<and> byte b < 192 \<and> 128 \<le> byte c \<and> byte c < 192
      then Some ((byte a - 224) * 4096 + (byte b - 128) * 64 + (byte c - 128)) else None)"
| "utf8_value [a, b, c, d] =
     (if 240 \<le> byte a \<and> byte a < 248 \<and> 128 \<le> byte b \<and> byte b < 192 \<and> 128 \<le> byte c \<and> byte c < 192
         \<and> 128 \<le> byte d \<and> byte d < 192
      then Some ((byte a - 240) * 262144 + (byte b - 128) * 4096 + (byte c - 128) * 64 + (byte d - 128))
      else None)"
| "utf8_value _ = None"

text \<open>The high bits of a byte and its low bits do not overlap, so \<open>OR\<close> is a sum.\<close>

lemma or_high_low:
  fixes x y :: "32 word"
  assumes "x AND y = 0"
  shows "x OR y = x + y"
  using word_plus_and_or [of x y] assms by simp

lemma and_mask_6: "w AND 0x3F = take_bit 6 (w :: 32 word)"
  by (simp add: take_bit_eq_mask mask_eq_exp_minus_1)

lemma unat_low_6: "unat (w AND 0x3F) = unat (w :: 32 word) mod 64"
  unfolding and_mask_6 unsigned_take_bit_eq by (simp add: take_bit_eq_mod)

lemma continuation_byte: "byte (byte_of_word (0x80 OR (w AND 0x3F))) = 128 + unat w mod 64"
proof -
  have "0x80 AND (w AND 0x3F) = w AND (0x80 AND 0x3F)" by (simp only: and.left_commute)
  then have "0x80 AND (w AND 0x3F) = 0" by simp
  then have "unat (0x80 OR (w AND 0x3F)) = 128 + unat w mod 64"
    by (simp add: or_high_low unat_word_ariths unat_low_6)
  then show ?thesis by (simp add: byte_of_word_def)
qed

lemma lead_byte:
  fixes w x :: "32 word"
  assumes "unat w < 2 ^ k" "unat x + 2 ^ k \<le> 256" "2 ^ k dvd unat x"
  shows "byte (byte_of_word (x OR w)) = unat x + unat w"
proof -
  have w: "take_bit k (unat w) = unat w" using assms(1) by (simp add: take_bit_nat_eq_self)
  obtain q where q: "unat x = push_bit k q"
    using assms(3) by (auto simp: push_bit_eq_mult mult.commute elim: dvdE)
  have "push_bit k q AND take_bit k (unat w) = 0"
    by (rule bit_eqI) (auto simp: bit_simps)
  then have "unat x OR unat w = unat x + unat w"
    using disjunctive_add_eq_or [of "unat x" "unat w"] q w by simp
  moreover have "unat (x OR w) = unat x OR unat w" by (rule unsigned_or_eq)
  ultimately show ?thesis using assms by (simp add: byte_of_word_def)
qed

lemma unat_drop_bit_word: "unat (drop_bit n w) = unat w div 2 ^ n" for w :: "32 word"
  using unsigned_less [of w, where ?'a = nat]
  unfolding unsigned_drop_bit_eq by (simp add: drop_bit_eq_div take_bit_nat_eq_self)

lemma base_64_digits:
  fixes n :: nat
  shows "n div 64 * 64 + n mod 64 = n"
    and "n div 4096 * 4096 + n div 64 mod 64 * 64 + n mod 64 = n"
    and "n div 262144 * 262144 + n div 4096 mod 64 * 4096 + n div 64 mod 64 * 64 + n mod 64 = n"
proof -
  have "n div 4096 = n div 64 div 64" "n div 262144 = n div 4096 div 64"
    by (simp_all add: div_mult2_eq [symmetric])
  then show "n div 64 * 64 + n mod 64 = n"
    "n div 4096 * 4096 + n div 64 mod 64 * 64 + n mod 64 = n"
    "n div 262144 * 262144 + n div 4096 mod 64 * 4096 + n div 64 mod 64 * 64 + n mod 64 = n"
    using div_mult_mod_eq [of n 64] div_mult_mod_eq [of "n div 64" 64]
      div_mult_mod_eq [of "n div 4096" 64] by linarith+
qed

text \<open>The shortest number of bytes that holds a code point.\<close>

definition utf8_length :: "nat \<Rightarrow> nat" where
  "utf8_length n = (if n < 128 then 1 else if n < 2048 then 2 else if n < 65536 then 3 else 4)"

text \<open>
  C37
  The bytes appended for a code point are its shortest UTF-8 form and stand for that code
  point; what was already there stays in front.
\<close>

theorem append_utf8_correct:
  assumes "unat cp < 2 ^ 21"
  shows "\<exists>bs. append_utf8 out cp = out @ bs \<and> utf8_value bs = Some (unat cp)
    \<and> length bs = utf8_length (unat cp)"
proof -
  have limits: "cp < 0x80 \<longleftrightarrow> unat cp < 128" "cp < 0x800 \<longleftrightarrow> unat cp < 2048"
    "cp < 0x10000 \<longleftrightarrow> unat cp < 65536"
    by (simp_all add: word_less_nat_alt)
  consider "unat cp < 128" | "128 \<le> unat cp" "unat cp < 2048"
    | "2048 \<le> unat cp" "unat cp < 65536" | "65536 \<le> unat cp" by linarith
  then show ?thesis
  proof cases
    case 1
    then show ?thesis by (simp add: append_utf8_def limits byte_of_word_def utf8_length_def)
  next
    case 2
    have "byte (byte_of_word (0xC0 OR drop_bit 6 cp)) = 192 + unat cp div 64"
      using lead_byte [of "drop_bit 6 cp" 6 "0xC0"] 2 by (simp add: unat_drop_bit_word)
    moreover have "unat cp div 64 < 32" using 2 by auto
    ultimately show ?thesis
      using 2 base_64_digits [of "unat cp"] by (simp add: append_utf8_def limits continuation_byte utf8_length_def)
  next
    case 3
    have "byte (byte_of_word (0xE0 OR drop_bit 12 cp)) = 224 + unat cp div 4096"
      using lead_byte [of "drop_bit 12 cp" 5 "0xE0"] 3 by (simp add: unat_drop_bit_word)
    moreover have "unat cp div 4096 < 16" using 3 by auto
    ultimately show ?thesis
      using 3 base_64_digits [of "unat cp"] by (simp add: append_utf8_def limits continuation_byte unat_drop_bit_word utf8_length_def)
  next
    case 4
    have "byte (byte_of_word (0xF0 OR drop_bit 18 cp)) = 240 + unat cp div 262144"
      using lead_byte [of "drop_bit 18 cp" 4 "0xF0"] assms by (simp add: unat_drop_bit_word)
    moreover have "unat cp div 262144 < 8" using assms by auto
    ultimately show ?thesis
      using 4 base_64_digits [of "unat cp"] by (simp add: append_utf8_def limits continuation_byte unat_drop_bit_word utf8_length_def)
  qed
qed

lemma append_utf8_correct_witness:
  "\<exists>bs. append_utf8 ''a'' 0x20AC = ''a'' @ bs \<and> utf8_value bs = Some 8364 \<and> length bs = 3"
  using append_utf8_correct [of "0x20AC" "''a''"] by (simp add: utf8_length_def)

section \<open>Surrogate pairs\<close>

text \<open>A 16-bit unit as four hexadecimal digits, as the audio server escapes it.\<close>

definition hex16 :: "nat \<Rightarrow> string" where
  "hex16 n = [hex_digit (n div 4096), hex_digit (n div 256 mod 16),
     hex_digit (n div 16 mod 16), hex_digit (n mod 16)]"

definition u_escape :: "nat \<Rightarrow> string" where
  "u_escape n = [CHR 0x5C, CHR ''u''] @ hex16 n"

text \<open>The two halves of a code point above the basic plane.\<close>

definition high_half :: "nat \<Rightarrow> nat" where
  "high_half n = 0xD800 + (n - 0x10000) div 1024"

definition low_half :: "nat \<Rightarrow> nat" where
  "low_half n = 0xDC00 + (n - 0x10000) mod 1024"

lemma parse_hex4_hex16:
  assumes "n < 65536"
  shows "parse_hex4 (hex16 n @ r) = Some (of_nat n, r)"
proof -
  have n: "n div 4096 < 16" "n div 4096 = n div 256 div 16" "n div 256 = n div 16 div 16"
    using assms by (auto simp: div_mult2_eq [symmetric])
  have "hex_digits 0 (hex16 n) = Some (of_nat n)"
    using n(1) split_nibble [of "n div 256"] split_nibble [of "n div 16"] split_nibble [of n]
    by (simp add: hex16_def hex_val_hex_digit n(2) n(3)) 
  then show ?thesis by (simp add: parse_hex4_def hex16_def)
qed

lemma join_value:
  "0x10000 + push_bit 10 (of_nat (0xD800 + q) - 0xD800) + (of_nat (0xDC00 + m) - 0xDC00)
     = (of_nat (0x10000 + q * 1024 + m) :: 32 word)"
  by (simp add: push_bit_eq_mult)

lemma join_surrogates_pair:
  assumes "0x10000 \<le> n" "n \<le> 0x10FFFF"
  shows "join_surrogates (of_nat (high_half n)) (u_escape (low_half n) @ r) = (of_nat n, r)"
proof -
  let ?q = "(n - 0x10000) div 1024" and ?m = "(n - 0x10000) mod 1024"
  have q: "?q < 1024" and m: "?m < 1024" and qm: "0x10000 + ?q * 1024 + ?m = n"
    using assms by auto
  have hi: "unat (of_nat (high_half n) :: 32 word) = high_half n"
    and lo: "unat (of_nat (low_half n) :: 32 word) = low_half n"
  proof -
    have "high_half n < 2 ^ 32" "low_half n < 2 ^ 32"
      using q m by (simp_all add: high_half_def low_half_def)
    then show "unat (of_nat (high_half n) :: 32 word) = high_half n"
      "unat (of_nat (low_half n) :: 32 word) = low_half n" by (simp_all add: unat_of_nat)
  qed
  have "parse_hex4 (hex16 (low_half n) @ r) = Some (of_nat (low_half n), r)"
    by (rule parse_hex4_hex16) (use m in \<open>simp add: low_half_def\<close>)
  moreover have "0xD800 \<le> (of_nat (high_half n) :: 32 word) \<and> of_nat (high_half n) \<le> (0xDBFF :: 32 word)"
    using q by (simp add: word_le_nat_alt hi) (simp add: high_half_def)
  moreover have "0xDC00 \<le> (of_nat (low_half n) :: 32 word) \<and> of_nat (low_half n) \<le> (0xDFFF :: 32 word)"
    using m by (simp add: word_le_nat_alt lo) (simp add: low_half_def)
  moreover have "0x10000 + push_bit 10 (of_nat (high_half n) - 0xD800) + (of_nat (low_half n) - 0xDC00)
      = (of_nat (0x10000 + ?q * 1024 + ?m) :: 32 word)"
    unfolding high_half_def low_half_def by (rule join_value)
  ultimately show ?thesis
    by (simp add: join_surrogates_def u_escape_def starts_with_def qm)
qed

text \<open>
  A code point above the basic plane, sent as an escaped surrogate pair, is decoded to the
  four UTF-8 bytes of that one code point, wherever it stands in a string.
\<close>

lemma surrogate_pair_decodes:
  assumes "0x10000 \<le> n" "n \<le> 0x10FFFF"
  shows "\<exists>bs. string_loop out (u_escape (high_half n) @ u_escape (low_half n) @ r) = string_loop (out @ bs) r
    \<and> utf8_value bs = Some n \<and> length bs = 4"
proof -
  have h: "high_half n < 65536" using assms by (simp add: high_half_def)
  have n: "unat (of_nat n :: 32 word) = n" using assms by (simp add: unat_of_nat)
  then obtain bs where bs: "append_utf8 out (of_nat n) = out @ bs" "utf8_value bs = Some n" "length bs = 4"
    using append_utf8_correct [of "of_nat n" out] assms by (auto simp: utf8_length_def)
  have "simple_escape (CHR ''u'') = None" by (simp add: simple_escape_def)
  then have "string_loop out (u_escape (high_half n) @ u_escape (low_half n) @ r)
      = string_loop (append_utf8 out (of_nat n)) r"
    using parse_hex4_hex16 [OF h, of "u_escape (low_half n) @ r"] join_surrogates_pair [OF assms, of r]
    by (simp add: u_escape_def [of "high_half n"])
  with bs show ?thesis by metis
qed

lemma surrogate_pair_decodes_witness:
  "\<exists>bs. string_loop [] (u_escape 0xD83C @ u_escape 0xDFB5 @ [CHR 0x22]) = string_loop ([] @ bs) [CHR 0x22]
    \<and> utf8_value bs = Some 0x1F3B5 \<and> length bs = 4"
  using surrogate_pair_decodes [of "0x1F3B5" "[]" "[CHR 0x22]"]
  by (simp add: high_half_def low_half_def)

end
