(* ===== verification/Url.thy ===== *)
theory Url
  imports Cstdlib
begin

text \<open>
  \<^verbatim>\<open>Url\<close> and \<^verbatim>\<open>ParseUrl\<close> of src/http.h and src/http.cpp, and the transport \<^verbatim>\<open>NewTransport\<close>
  chooses for a URL. On success every field of the result is written, so the
  out-parameter's old value does not matter.
\<close>

record url =
  scheme :: string
  host :: string
  port :: int
  base_path :: string

definition secure :: "url \<Rightarrow> bool" where
  "secure u \<longleftrightarrow> scheme u = ''https''"

section \<open>Parsing\<close>

definition strip_url_tail :: "string \<Rightarrow> string" where
  "strip_url_tail s = rev (dropWhile (\<lambda>c. c = CHR '' '' \<or> c = CHR ''/'') (rev s))"

definition split_scheme :: "string \<Rightarrow> string + (string \<times> string)" where
  "split_scheme s =
     (case find_sub ''://'' s of
        None \<Rightarrow> Inr (''http'', s)
      | Some i \<Rightarrow>
          if take i s \<noteq> ''http'' \<and> take i s \<noteq> ''https''
          then Inl (''unsupported URL scheme '' @ [CHR 0x22] @ take i s @ [CHR 0x22]
                    @ '' (expected http or https)'')
          else Inr (take i s, drop (i + 3) s))"

definition split_path :: "string \<Rightarrow> string \<times> string" where
  "split_path s =
     (case find_char (CHR ''/'') s of
        Some i \<Rightarrow> (take i s, drop i s)
      | None \<Rightarrow> (s, []))"

text \<open>The port behind the last colon, or the default.\<close>

definition split_port :: "nat \<Rightarrow> int \<Rightarrow> string \<Rightarrow> int \<times> string" where
  "split_port lb dflt hp =
     (case rfind_char (CHR '':'') hp of
        None \<Rightarrow> (dflt, hp)
      | Some i \<Rightarrow>
          if find_char (CHR '']'') hp \<noteq> None then (dflt, hp)
          else let p = drop (Suc i) hp in
               if p \<noteq> [] \<and> list_all is_digit p then (atoi lb p, take i hp) else (dflt, hp))"

definition unbracket :: "string \<Rightarrow> string" where
  "unbracket hp =
     (if 2 \<le> length hp \<and> hd hp = CHR ''['' \<and> last hp = CHR '']'' then butlast (tl hp) else hp)"

definition parse_url :: "nat \<Rightarrow> string \<Rightarrow> string + url" where
  "parse_url lb input =
     (let s = strip_url_tail input in
      if s = [] then Inl ''empty URL''
      else case split_scheme s of
             Inl e \<Rightarrow> Inl e
           | Inr (sch, rest) \<Rightarrow>
               let (hp, base) = split_path rest;
                   (p, hp') = split_port lb (if sch = ''https'' then 443 else 80) hp;
                   h = unbracket hp'
               in if h = [] then Inl ''URL has no host''
                  else if p \<le> 0 \<or> p > 65535 then Inl ''URL has an invalid port''
                  else Inr \<lparr>scheme = sch, host = h, port = p, base_path = base\<rparr>)"

text \<open>\<open>tls\<close> says whether the build has \<^verbatim>\<open>GORADIO_TLS\<close>.\<close>

datatype transport_kind = PlainTransport | TlsTransport

definition new_transport :: "bool \<Rightarrow> url \<Rightarrow> string + transport_kind" where
  "new_transport tls u =
     (if secure u then
        if tls then Inr TlsTransport
        else Inl (''this build has no TLS support, so it cannot use an https:// audio server URL ''
          @ ''(rebuild with -DGORADIO_TLS=ON, or point goradio_url at a plain http:// address)'')
      else Inr PlainTransport)"

section \<open>What a parsed URL satisfies\<close>

lemma strip_url_tail_last:
  "strip_url_tail s \<noteq> [] \<Longrightarrow> last (strip_url_tail s) \<noteq> CHR '' '' \<and> last (strip_url_tail s) \<noteq> CHR ''/''"
  using hd_dropWhile [of "\<lambda>c. c = CHR '' '' \<or> c = CHR ''/''" "rev s"]
  by (simp add: strip_url_tail_def last_rev)

lemma strip_url_tail_id:
  "s \<noteq> [] \<Longrightarrow> last s \<noteq> CHR '' '' \<Longrightarrow> last s \<noteq> CHR ''/'' \<Longrightarrow> strip_url_tail s = s"
  by (cases s rule: rev_cases) (auto simp: strip_url_tail_def)

lemma split_scheme_suffix:
  "split_scheme s = Inr (sch, r) \<Longrightarrow> (sch = ''http'' \<or> sch = ''https'') \<and> (\<exists>p. s = p @ r)"
proof (cases "find_sub ''://'' s")
  case (Some i)
  assume "split_scheme s = Inr (sch, r)"
  with Some have "r = drop (i + 3) s" "sch = ''http'' \<or> sch = ''https''"
    by (auto simp: split_scheme_def split: if_splits)
  then show ?thesis using append_take_drop_id [of "i + 3" s] by metis
qed (auto simp: split_scheme_def)

lemma split_path_base:
  "split_path s = (hp, b) \<Longrightarrow> s = hp @ b \<and> (b = [] \<or> hd b = CHR ''/'') \<and> CHR ''/'' \<notin> set hp"
proof (cases "find_char (CHR ''/'') s")
  case (Some i)
  assume "split_path s = (hp, b)"
  with Some have "hp = take i s" "b = drop i s" by (auto simp: split_path_def)
  then show ?thesis using find_char_Some_split [OF Some] find_char_drop [OF Some] by simp
qed (auto simp: split_path_def)

definition url_ok :: "url \<Rightarrow> bool" where
  "url_ok u \<longleftrightarrow> (scheme u = ''http'' \<or> scheme u = ''https'') \<and> host u \<noteq> []
     \<and> 1 \<le> port u \<and> port u \<le> 65535
     \<and> (base_path u = [] \<or> hd (base_path u) = CHR ''/'' \<and> last (base_path u) \<noteq> CHR ''/''
         \<and> last (base_path u) \<noteq> CHR '' '')"

text \<open>
  Whatever text is configured, an accepted URL has a supported scheme, a host, a port a
  socket can use, and a base path that is empty or starts with a slash and does not end in
  one, so that appending an RPC path to it gives a well-formed request target.
\<close>

lemma parse_url_ok:
  assumes "parse_url lb input = Inr u"
  shows "url_ok u"
proof -
  let ?s = "strip_url_tail input"
  have s: "?s \<noteq> []" using assms by (auto simp: parse_url_def Let_def)
  with assms obtain sch r where sch: "split_scheme ?s = Inr (sch, r)"
    by (auto simp: parse_url_def Let_def split: sum.splits)
  obtain hp b where hp: "split_path r = (hp, b)" by fastforce
  obtain p hp' where p: "split_port lb (if sch = ''https'' then 443 else 80) hp = (p, hp')"
    by fastforce
  have u: "u = \<lparr>scheme = sch, host = unbracket hp', port = p, base_path = b\<rparr>"
    "unbracket hp' \<noteq> []" "0 < p" "p \<le> 65535"
    using assms s sch hp p by (auto simp: parse_url_def Let_def split: if_splits)
  from split_scheme_suffix [OF sch] split_path_base [OF hp]
  have "b \<noteq> [] \<Longrightarrow> last b = last ?s" by auto
  then show ?thesis
    using u split_scheme_suffix [OF sch] split_path_base [OF hp] strip_url_tail_last [OF s]
    by (auto simp: url_ok_def)
qed

section \<open>A URL is read back from its text\<close>

definition url_text :: "url \<Rightarrow> string" where
  "url_text u = scheme u @ ''://'' @ host u @ '':'' @ dec_int (port u) @ base_path u"

text \<open>A host name or an IPv4 address: no path, port or bracket in it.\<close>

definition plain_host :: "string \<Rightarrow> bool" where
  "plain_host h \<longleftrightarrow> h \<noteq> [] \<and> CHR ''/'' \<notin> set h \<and> CHR '':'' \<notin> set h \<and> CHR '']'' \<notin> set h"

lemma split_scheme_text:
  "sch = ''http'' \<or> sch = ''https'' \<Longrightarrow> split_scheme (sch @ ''://'' @ r) = Inr (sch, r)"
  by (auto simp: split_scheme_def starts_with_def)

lemma split_port_text:
  assumes "plain_host h" "0 \<le> p" "p \<le> 65535" "32 \<le> lb"
  shows "split_port lb d (h @ '':'' @ dec_int p) = (p, h)"
proof -
  have n: "dec_int p = dec_nat (nat p)" using assms by (simp add: dec_int_def)
  have "CHR '':'' \<notin> set (dec_int p)" "CHR '']'' \<notin> set (dec_int p)"
    by (simp_all add: n dec_nat_no_char is_digit_def byte_def)
  then show ?thesis
    using assms atoi_dec_int [of lb p]
    by (auto simp: split_port_def plain_host_def n list_all_iff dec_nat_digits)
qed

lemma split_path_text:
  assumes "CHR ''/'' \<notin> set hp" "b = [] \<or> hd b = CHR ''/''"
  shows "split_path (hp @ b) = (hp, b)"
proof (cases b)
  case Nil
  then show ?thesis using assms find_char_None [of "CHR ''/''" hp] by (simp add: split_path_def del: find_char_None)
next
  case (Cons c bs)
  then show ?thesis using assms by (simp add: split_path_def)
qed

text \<open>
  C38
  Writing an accepted URL out and parsing it again gives the same URL, for every host that
  is a name or an IPv4 address.
\<close>

theorem parse_url_text:
  assumes "url_ok u" "plain_host (host u)" "32 \<le> lb"
  shows "parse_url lb (url_text u) = Inr u"
proof -
  let ?hp = "host u @ '':'' @ dec_int (port u)"
  have n: "dec_int (port u) = dec_nat (nat (port u))" using assms by (simp add: dec_int_def url_ok_def)
  have slash: "CHR ''/'' \<notin> set ?hp"
    using assms by (simp add: n plain_host_def dec_nat_no_char is_digit_def byte_def)
  have "is_digit (last (dec_int (port u)))" by (simp add: n dec_nat_last)
  moreover have "last (url_text u) = (if base_path u = [] then last (dec_int (port u)) else last (base_path u))"
    by (simp add: url_text_def last_append)
  ultimately have "last (url_text u) \<noteq> CHR '' '' \<and> last (url_text u) \<noteq> CHR ''/''"
    using assms by (auto simp: url_ok_def is_digit_def byte_def)
  then have "strip_url_tail (url_text u) = url_text u"
    by (intro strip_url_tail_id) (simp_all add: url_text_def)
  moreover have "split_scheme (url_text u) = Inr (scheme u, ?hp @ base_path u)"
    using assms split_scheme_text [of "scheme u" "?hp @ base_path u"] by (simp add: url_text_def url_ok_def)
  moreover have "split_path (?hp @ base_path u) = (?hp, base_path u)"
    using assms slash by (intro split_path_text) (auto simp: url_ok_def)
  moreover have "split_port lb d ?hp = (port u, host u)" for d
    using assms by (intro split_port_text) (auto simp: url_ok_def)
  moreover have "host u \<noteq> [] \<Longrightarrow> last (host u) \<noteq> CHR '']''"
    using assms(2) last_in_set [of "host u"] unfolding plain_host_def by metis
  then have "unbracket (host u) = host u" using assms(2) by (auto simp: unbracket_def plain_host_def)
  ultimately show ?thesis
    using assms by (simp add: parse_url_def Let_def url_ok_def plain_host_def url_text_def)
qed

lemma parse_url_ok_witness: "url_ok \<lparr>scheme = ''http'', host = ''localhost'', port = 9090, base_path = []\<rparr>"
  by (rule parse_url_ok [of 32 "''localhost:9090''"]) 
    (simp add: parse_url_def strip_url_tail_def split_scheme_def starts_with_def split_path_def split_port_def
      rfind_char_def Let_def is_digit_def byte_def atoi_def strtol_def strto_value_def c_str_def
      is_cspace_def drop_sign_def digit_val_def clamp_def to_int32_def unbracket_def)

lemma parse_url_text_witness:
  "parse_url 32 (url_text \<lparr>scheme = ''https'', host = ''radio.example.com'', port = 8443, base_path = ''/base''\<rparr>) =
     Inr \<lparr>scheme = ''https'', host = ''radio.example.com'', port = 8443, base_path = ''/base''\<rparr>"
  by (rule parse_url_text) (simp_all add: url_ok_def plain_host_def)

text \<open>
  A port too large for \<^verbatim>\<open>int\<close> is rejected where \<^verbatim>\<open>long\<close> has 32 bits, because \<^verbatim>\<open>atoi\<close> saturates
  there; where it has 64 bits the low half is taken, so the text of port 4294976386 is
  accepted as port 9090.
\<close>

lemma oversized_port_depends_on_long:
  "parse_url 32 ''http://h:4294976386'' = Inl ''URL has an invalid port''
   \<and> parse_url 64 ''http://h:4294976386'' =
       Inr \<lparr>scheme = ''http'', host = ''h'', port = 9090, base_path = []\<rparr>"
  by (simp add: parse_url_def strip_url_tail_def split_scheme_def starts_with_def split_path_def split_port_def
      rfind_char_def Let_def is_digit_def byte_def atoi_def strtol_def strto_value_def c_str_def
      is_cspace_def drop_sign_def digit_val_def clamp_def to_int32_def unbracket_def)

text \<open>
  A bracketed IPv6 address with a port keeps brackets and port in the host name and gets the
  scheme's default port; a bare one loses its last group to the port.
\<close>

lemma ipv6_ports_are_misread:
  "parse_url lb ''http://[::1]:9090'' =
     Inr \<lparr>scheme = ''http'', host = ''[::1]:9090'', port = 80, base_path = []\<rparr>
   \<and> parse_url 32 ''http://fe80::1'' = Inr \<lparr>scheme = ''http'', host = ''fe80:'', port = 1, base_path = []\<rparr>"
  by (simp_all add: parse_url_def strip_url_tail_def split_scheme_def starts_with_def split_path_def split_port_def
      rfind_char_def Let_def is_digit_def byte_def atoi_def strtol_def strto_value_def c_str_def
      is_cspace_def drop_sign_def digit_val_def clamp_def to_int32_def unbracket_def)

end
