(* ===== verification/Byte_Source.thy ===== *)
theory Byte_Source
  imports Prelude
begin

text \<open>
  The interface between the layers that read: a socket, an HTTP connection and the body of a
  response all hand out bytes in pieces whose sizes the reader cannot choose. \<open>coming\<close> is
  what a live source will deliver; the reader's lemmas are proved once, by induction on it.
\<close>

text \<open>What a read reports: data, nothing before the timeout, or a failure with its text.\<close>

datatype 'a rd = Got 'a | Pending | Stopped string

locale byte_source =
  fixes pull :: "'c \<Rightarrow> string rd \<times> 'c"
    and coming :: "'c \<Rightarrow> string"
    and live :: "'c \<Rightarrow> bool"
  assumes pull_next: "live c \<Longrightarrow> coming c \<noteq> [] \<Longrightarrow>
      \<exists>d c'. pull c = (Got d, c') \<and> d \<noteq> [] \<and> coming c = d @ coming c' \<and> live c'"
    and pull_quiet: "live c \<Longrightarrow> coming c = [] \<Longrightarrow>
      \<exists>c'. pull c = (Pending, c') \<and> coming c' = [] \<and> live c'"
begin

lemma pull_cases:
  assumes "live c"
  obtains (more) d c' where "pull c = (Got d, c')" "d \<noteq> []" "coming c = d @ coming c'" "live c'"
        | (quiet) c' where "pull c = (Pending, c')" "coming c = []" "coming c' = []" "live c'"
  using assms pull_next pull_quiet by metis

text \<open>Pulling until enough has come ends, and nothing is lost or reordered on the way.\<close>

lemma pull_induct [consumes 1, case_names pull]:
  assumes "live c"
    and step: "\<And>c. live c \<Longrightarrow>
      (\<And>d c'. pull c = (Got d, c') \<Longrightarrow> d \<noteq> [] \<Longrightarrow> coming c = d @ coming c' \<Longrightarrow> live c' \<Longrightarrow> P c') \<Longrightarrow> P c"
  shows "P c"
  using assms(1)
proof (induction "length (coming c)" arbitrary: c rule: less_induct)
  case less
  show ?case
  proof (rule step [OF less.prems])
    fix d c'
    assume "pull c = (Got d, c')" "d \<noteq> []" "coming c = d @ coming c'" "live c'"
    then show "P c'" by (intro less.hyps) simp_all
  qed
qed

end

end
