(* ===== verification/Transport.thy ===== *)
theory Transport
  imports Url Byte_Source "HOL-Library.Signed_Division"
begin

text \<open>
  The byte pipe under HTTP: \<^verbatim>\<open>DialTcp\<close> and \<^verbatim>\<open>PlainTransport\<close> of src/http.cpp. The operating
  system is outside the sources, so what its calls answer is an input of the model: for each
  connection attempt what \<^verbatim>\<open>getaddrinfo\<close>, \<^verbatim>\<open>connect\<close> and \<^verbatim>\<open>select\<close> report, and for a connected
  socket the answers of the \<^verbatim>\<open>recv\<close> and \<^verbatim>\<open>send\<close> calls to come. A peer with no more answers is
  silent: \<^verbatim>\<open>recv\<close> times out, and \<^verbatim>\<open>send\<close> takes everything. \<open>wire\<close> is a ghost: the bytes
  each peer dialled so far was sent. A transport over TLS has the same state and its session
  besides; what OpenSSL answers is an input as well, and theory \<^verbatim>\<open>Tls\<close> has its operations.
\<close>

text \<open>
  The answer of one \<^verbatim>\<open>recv\<close>: bytes (none at all for the end of the stream), a timeout or
  interruption (\<^verbatim>\<open>WouldBlock\<close>), or an error with its text. \<open>SendTake k\<close> accepts up to
  \<open>k + 1\<close> bytes.
\<close>

datatype recv_event = RecvData string | RecvBlock | RecvFail string
datatype send_event = SendTake nat | SendBlock | SendFail string

text \<open>One resolved address: what \<^verbatim>\<open>socket\<close>, \<^verbatim>\<open>connect\<close>, \<^verbatim>\<open>select\<close> and \<^verbatim>\<open>SO_ERROR\<close> say.\<close>

datatype attempt =
  SocketFail string
| ConnectedNow
| SelectReady bool
| SelectTimeout
| SelectFail string

text \<open>
  The answer of \<^verbatim>\<open>getaddrinfo\<close>: an error, or no address at all, with the text for its result code; or
  a first address and those that follow it.
\<close>

datatype resolution = ResolveFail string | Addresses attempt "attempt list"

text \<open>
  What OpenSSL answers: to a read, data, that it needs the socket again, the end of the session,
  a failed system call (after a timeout or not), or another failure; to a write likewise.
\<close>

datatype ssl_read = SslData string | SslWant | SslClosed | SslSyscall bool | SslReadFail
datatype ssl_write = SslTake nat | SslWriteWant | SslWriteFail

text \<open>What a session is set up with before its handshake.\<close>

record ssl_config =
  verify_peer :: bool
  old_protocols :: bool
  server_name :: "string option"
  checked_host :: "string option"
  partial_wildcards :: bool

text \<open>
  Setting a session up: whether there is a context and a session at all, whether the session takes the name
  for SNI and the host to check (the calls can fail, and the code does not look at their results), and the
  error of the handshake, which depends on what was asked for.
\<close>

record ssl_setup =
  gives_context :: bool
  gives_session :: bool
  takes_name :: bool
  takes_host :: bool
  handshake :: "ssl_config \<Rightarrow> string option"
  handshake_reads :: "ssl_read list"
  handshake_writes :: "ssl_write list"

text \<open>
  One attempt at a connection, and the answers of the peer it reaches. \<open>dial_cut\<close> is how many of them can
  still be read after another thread has shut the socket down.
\<close>

record dial =
  dial_resolution :: resolution
  dial_incoming :: "recv_event list"
  dial_sending :: "send_event list"
  dial_cut :: nat
  dial_ssl :: ssl_setup

text \<open>
  A transport. \<open>over_tls\<close> tells the two classes apart, \<open>ssl_context\<close> and \<open>ssl_session\<close> are \<^verbatim>\<open>ctx_\<close> and \<^verbatim>\<open>ssl_\<close>, and
  \<open>checks_hosts\<close> is a fact of the build: an OpenSSL of 1.0.2 or newer. \<open>shut_down\<close> is set by \<^verbatim>\<open>Interrupt\<close>.
\<close>

record sock =
  fd :: bool
  recv_timeout :: int
  incoming :: "recv_event list"
  sending :: "send_event list"
  cut_after :: nat
  shut_down :: bool
  dials :: "dial list"
  wire :: "string list"
  over_tls :: bool
  checks_hosts :: bool
  ssl_context :: bool
  ssl_session :: "ssl_config option"
  ssl_reads :: "ssl_read list"
  ssl_writes :: "ssl_write list"

section \<open>Timeouts\<close>

text \<open>
  \<^verbatim>\<open>SetRecvTimeout\<close>, \<^verbatim>\<open>SetSendTimeout\<close> and the \<^verbatim>\<open>select\<close> of \<^verbatim>\<open>DialTcp\<close> split milliseconds into a
  \<^verbatim>\<open>timeval\<close>; C's division truncates. A socket option of zero lets a call block for ever.
\<close>

record timeval =
  tv_sec :: int
  tv_usec :: int

definition timeval_of :: "int \<Rightarrow> timeval" where
  "timeval_of ms = \<lparr>tv_sec = ms sdiv 1000, tv_usec = ms smod 1000 * 1000\<rparr>"

definition blocks_for :: "timeval \<Rightarrow> int option" where
  "blocks_for tv = (if tv_sec tv = 0 \<and> tv_usec tv = 0 then None else Some (tv_sec tv * 1000000 + tv_usec tv))"

lemma timeval_exact:
  "0 < ms \<Longrightarrow> blocks_for (timeval_of ms) = Some (ms * 1000) \<and> 0 \<le> tv_usec (timeval_of ms) \<and> tv_usec (timeval_of ms) < 1000000"
  "blocks_for (timeval_of 0) = None"
  "ms < 0 \<Longrightarrow> tv_sec (timeval_of ms) < 0 \<or> tv_usec (timeval_of ms) < 0"
proof -
  have split: "(ms sdiv 1000) * 1000 + ms smod 1000 = ms" by (simp add: sdiv_mult_smod_eq)
  show "blocks_for (timeval_of ms) = Some (ms * 1000) \<and> 0 \<le> tv_usec (timeval_of ms) \<and> tv_usec (timeval_of ms) < 1000000"
    if "0 < ms"
  proof -
    have r: "ms sdiv 1000 = ms div 1000" "ms smod 1000 = ms mod 1000"
      using that by (simp_all add: signed_divide_int_def signed_modulo_int_def)
    have "\<not> (ms div 1000 = 0 \<and> ms mod 1000 = 0)" using that by (metis div_mult_mod_eq mult_zero_left add_0 less_irrefl)
    then have "blocks_for (timeval_of ms) = Some (ms div 1000 * 1000000 + ms mod 1000 * 1000)"
      by (auto simp: timeval_of_def blocks_for_def r)
    moreover have "ms div 1000 * 1000000 + ms mod 1000 * 1000 = ms * 1000" using split unfolding r by linarith
    ultimately show ?thesis by (simp add: timeval_of_def r)
  qed
  show "blocks_for (timeval_of 0) = None" by (simp add: timeval_of_def blocks_for_def)
  show "tv_sec (timeval_of ms) < 0 \<or> tv_usec (timeval_of ms) < 0" if "ms < 0"
    using that split by (simp add: timeval_of_def) linarith
qed

section \<open>Dialling\<close>

fun dial_addresses :: "string \<Rightarrow> attempt list \<Rightarrow> string + unit" where
  "dial_addresses last_err [] = Inl last_err"
| "dial_addresses last_err (a # as) =
     (case a of
        SocketFail e \<Rightarrow> dial_addresses e as
      | ConnectedNow \<Rightarrow> Inr ()
      | SelectReady ok \<Rightarrow> if ok then Inr () else dial_addresses ''connection refused'' as
      | SelectTimeout \<Rightarrow> dial_addresses ''connect timed out'' as
      | SelectFail e \<Rightarrow> dial_addresses e as)"

definition dial_tcp :: "string \<Rightarrow> int \<Rightarrow> resolution \<Rightarrow> string + unit" where
  "dial_tcp h p r =
     (case r of
        ResolveFail e \<Rightarrow> Inl (''resolve '' @ h @ '' failed: '' @ e)
      | Addresses a as \<Rightarrow>
          (case dial_addresses ''no addresses returned'' (a # as) of
             Inl e \<Rightarrow> Inl (''connect '' @ h @ '':'' @ dec_int p @ '' failed: '' @ e)
           | Inr u \<Rightarrow> Inr u))"

section \<open>The socket\<close>

text \<open>\<^verbatim>\<open>Close\<close> of the two classes, and the one that is called.\<close>

definition plain_close :: "sock \<Rightarrow> sock" where
  "plain_close s = s\<lparr>fd := False\<rparr>"

definition tls_close :: "sock \<Rightarrow> sock" where
  "tls_close s = plain_close (s\<lparr>ssl_session := None, ssl_context := False\<rparr>)"

definition sock_close :: "sock \<Rightarrow> sock" where
  "sock_close s = (if over_tls s then tls_close s else plain_close s)"

text \<open>\<^verbatim>\<open>Connect\<close> of the plain transport; with no dial outcome left the attempt times out.\<close>

definition plain_connect :: "string \<Rightarrow> int \<Rightarrow> sock \<Rightarrow> string option \<times> sock" where
  "plain_connect h p s =
     (let s0 = sock_close s in
      case dials s0 of
        [] \<Rightarrow> (Some (''connect '' @ h @ '':'' @ dec_int p @ '' failed: connect timed out''), s0)
      | d # ds \<Rightarrow>
          (case dial_tcp h p (dial_resolution d) of
             Inl e \<Rightarrow> (Some e, s0\<lparr>dials := ds\<rparr>)
           | Inr _ \<Rightarrow> (None, s0\<lparr>fd := True, recv_timeout := -1, incoming := dial_incoming d,
                            sending := dial_sending d, cut_after := dial_cut d, shut_down := False, dials := ds,
                            wire := wire s @ [[]]\<rparr>)))"

text \<open>
  \<^verbatim>\<open>Interrupt\<close>: \<^verbatim>\<open>shutdown\<close> in both directions. What had arrived can still be read; after it comes the
  end of the stream, and nothing can be sent.
\<close>

definition sock_interrupt :: "sock \<Rightarrow> sock" where
  "sock_interrupt s =
     (if \<not> fd s then s
      else if over_tls s then s\<lparr>shut_down := True, ssl_reads := take (cut_after s) (ssl_reads s)\<rparr>
      else s\<lparr>shut_down := True, incoming := take (cut_after s) (incoming s)\<rparr>)"

text \<open>The loop of \<^verbatim>\<open>SendAll\<close>: what is left to send, what has been accepted.\<close>

fun send_loop :: "string \<Rightarrow> send_event list \<Rightarrow> string \<Rightarrow> string option \<times> send_event list \<times> string" where
  "send_loop data es sent =
     (if data = [] then (None, es, sent)
      else case es of
        [] \<Rightarrow> (None, [], sent @ data)
      | SendTake k # es' \<Rightarrow> send_loop (drop (Suc k) data) es' (sent @ take (Suc k) data)
      | SendBlock # es' \<Rightarrow> send_loop data es' sent
      | SendFail e # es' \<Rightarrow> (Some (''send failed: '' @ e), es', sent))"

declare send_loop.simps [simp del]

definition append_last :: "string \<Rightarrow> string list \<Rightarrow> string list" where
  "append_last t ws = (if ws = [] then [t] else butlast ws @ [last ws @ t])"

definition plain_send_all :: "string \<Rightarrow> sock \<Rightarrow> string option \<times> sock" where
  "plain_send_all data s =
     (if data = [] then (None, s)
      else if \<not> fd s then (Some ''not connected'', s)
      else if shut_down s then (Some ''send failed: Broken pipe'', s)
      else case send_loop data (sending s) [] of
             (r, es, sent) \<Rightarrow> (r, s\<lparr>sending := es, wire := append_last sent (wire s)\<rparr>))"

definition plain_recv :: "nat \<Rightarrow> int \<Rightarrow> sock \<Rightarrow> string rd \<times> sock" where
  "plain_recv len tmo s =
     (if \<not> fd s then (Stopped ''not connected'', s)
      else let s1 = s\<lparr>recv_timeout := tmo\<rparr> in
        case incoming s of
          [] \<Rightarrow> (if shut_down s then Stopped ''connection closed by peer'' else Pending, s1)
        | RecvData d # es \<Rightarrow>
            if take len d = [] then (Stopped ''connection closed by peer'', s1\<lparr>incoming := es\<rparr>)
            else (Got (take len d),
                  s1\<lparr>incoming := (if drop len d = [] then es else RecvData (drop len d) # es)\<rparr>)
        | RecvBlock # es \<Rightarrow> (Pending, s1\<lparr>incoming := es\<rparr>)
        | RecvFail e # es \<Rightarrow> (Stopped (''recv failed: '' @ e), s1\<lparr>incoming := es\<rparr>))"

section \<open>Sending\<close>

lemma send_loop_steps [simp]:
  "send_loop [] es sent = (None, es, sent)"
  "data \<noteq> [] \<Longrightarrow> send_loop data [] sent = (None, [], sent @ data)"
  "data \<noteq> [] \<Longrightarrow> send_loop data (SendTake k # es) sent
     = send_loop (drop (Suc k) data) es (sent @ take (Suc k) data)"
  "data \<noteq> [] \<Longrightarrow> send_loop data (SendBlock # es) sent = send_loop data es sent"
  "data \<noteq> [] \<Longrightarrow> send_loop data (SendFail e # es) sent = (Some (''send failed: '' @ e), es, sent)"
  by (subst send_loop.simps, simp)+

lemma send_loop_sent:
  "send_loop data es sent = (r, es', out) \<Longrightarrow>
     \<exists>p q. out = sent @ p \<and> data = p @ q \<and> (r = None \<longrightarrow> q = [])"
proof (induction es arbitrary: data sent)
  case Nil
  then show ?case by (cases "data = []") auto
next
  case (Cons e es)
  show ?case
  proof (cases "data = []")
    case False
    show ?thesis
    proof (cases e)
      case (SendTake k)
      with Cons.prems False have "send_loop (drop (Suc k) data) es (sent @ take (Suc k) data) = (r, es', out)"
        by simp
      from Cons.IH [OF this] obtain p q where
        "out = (sent @ take (Suc k) data) @ p" "drop (Suc k) data = p @ q" "r = None \<longrightarrow> q = []" by blast
      moreover from this(2) have "data = take (Suc k) data @ p @ q" by (metis append_take_drop_id)
      ultimately show ?thesis
        by (intro exI [of _ "take (Suc k) data @ p"] exI [of _ q]) (simp only: append.assoc simp_thms)
    next
      case SendBlock
      with Cons.prems False have "send_loop data es sent = (r, es', out)" by simp
      then show ?thesis by (rule Cons.IH)
    next
      case (SendFail m)
      with Cons.prems False show ?thesis by auto
    qed
  qed (use Cons.prems in auto)
qed

text \<open>
  The send timeout never ends a write: \<^verbatim>\<open>SendAll\<close> takes the \<^verbatim>\<open>EAGAIN\<close> that \<^verbatim>\<open>SO_SNDTIMEO\<close>
  reports as a reason to try again, any number of times, so a peer that stops reading holds
  the calling thread.
\<close>

lemma send_timeouts_are_retried:
  "send_loop data (replicate n SendBlock @ es) sent =
     (if data = [] then (None, replicate n SendBlock @ es, sent) else send_loop data es sent)"
  by (induction n) (cases "data = []"; simp)+

section \<open>Dialling tries every address\<close>

fun attempt_works :: "attempt \<Rightarrow> bool" where
  "attempt_works ConnectedNow = True"
| "attempt_works (SelectReady ok) = ok"
| "attempt_works _ = False"

lemma dial_addresses_ok: "dial_addresses e as = Inr () \<longleftrightarrow> (\<exists>a \<in> set as. attempt_works a)"
  by (induction as arbitrary: e) (auto split: attempt.splits)

text \<open>
  A host is reached exactly when one of its addresses accepts the connection within the
  timeout, whatever happened to the addresses before it.
\<close>

lemma dial_tcp_reaches_any_address:
  "dial_tcp h p (Addresses a as) = Inr () \<longleftrightarrow> (\<exists>b \<in> set (a # as). attempt_works b)"
  using dial_addresses_ok [of "''no addresses returned''" "a # as"]
  by (auto simp: dial_tcp_def simp del: dial_addresses.simps split: sum.splits)

end
