(* ===== verification/Tls.thy ===== *)
theory Tls
  imports Transport
begin

text \<open>
  \<^verbatim>\<open>TlsTransport\<close> of src/http.cpp, and the four operations that \<^verbatim>\<open>HttpConnection\<close> calls on either class.
  The answers of OpenSSL are inputs; they name the errors that the code tells apart. A read or write over a
  session does to its caller what the plain ones do for a socket with the same answers, so what is
  proved of connections holds with and without TLS.
\<close>

section \<open>The session\<close>

text \<open>
  What \<^verbatim>\<open>Connect\<close> asks of OpenSSL before the handshake; an OpenSSL older than 1.0.2 has no check of the
  host's name.
\<close>

definition ssl_config_for :: "bool \<Rightarrow> ssl_setup \<Rightarrow> string \<Rightarrow> ssl_config" where
  "ssl_config_for checks p h =
     \<lparr>verify_peer = True, old_protocols = False, server_name = (if takes_name p then Some (c_str h) else None),
      checked_host = (if checks \<and> takes_host p then Some (c_str h) else None), partial_wildcards = \<not> checks\<rparr>"

definition tls_handshake :: "string \<Rightarrow> int \<Rightarrow> ssl_setup \<Rightarrow> sock \<Rightarrow> string option \<times> sock" where
  "tls_handshake h tmo p s =
     (if \<not> gives_context p then (Some ''SSL_CTX_new failed'', sock_close s)
      else let s1 = s\<lparr>ssl_context := True\<rparr> in
        if \<not> gives_session p then (Some ''SSL_new failed'', sock_close s1)
        else let cfg = ssl_config_for (checks_hosts s) p h;
                 s2 = s1\<lparr>ssl_session := Some cfg, recv_timeout := tmo, ssl_reads := handshake_reads p,
                         ssl_writes := handshake_writes p\<rparr> in
          case handshake p cfg of
            Some e \<Rightarrow> (Some (''TLS handshake failed: '' @ e), sock_close s2)
          | None \<Rightarrow> (None, s2))"

definition tls_connect :: "string \<Rightarrow> int \<Rightarrow> int \<Rightarrow> sock \<Rightarrow> string option \<times> sock" where
  "tls_connect h p tmo s =
     (case plain_connect h p s of
        (Some e, s1) \<Rightarrow> (Some e, s1)
      | (None, s1) \<Rightarrow> tls_handshake h tmo (dial_ssl (hd (dials s))) s1)"

fun tls_send_loop :: "string \<Rightarrow> ssl_write list \<Rightarrow> string \<Rightarrow> string option \<times> ssl_write list \<times> string" where
  "tls_send_loop data es sent =
     (if data = [] then (None, es, sent)
      else case es of
        [] \<Rightarrow> (None, [], sent @ data)
      | SslTake k # es' \<Rightarrow> tls_send_loop (drop (Suc k) data) es' (sent @ take (Suc k) data)
      | SslWriteWant # es' \<Rightarrow> tls_send_loop data es' sent
      | SslWriteFail # es' \<Rightarrow> (Some ''TLS write failed'', es', sent))"

declare tls_send_loop.simps [simp del]

definition tls_send_all :: "string \<Rightarrow> sock \<Rightarrow> string option \<times> sock" where
  "tls_send_all data s =
     (if data = [] then (None, s)
      else if ssl_session s = None then (Some ''not connected'', s)
      else if shut_down s then (Some ''TLS write failed'', s)
      else case tls_send_loop data (ssl_writes s) [] of
             (r, es, sent) \<Rightarrow> (r, s\<lparr>ssl_writes := es, wire := append_last sent (wire s)\<rparr>))"

definition tls_recv :: "nat \<Rightarrow> int \<Rightarrow> sock \<Rightarrow> string rd \<times> sock" where
  "tls_recv len tmo s =
     (if ssl_session s = None then (Stopped ''not connected'', s)
      else let s1 = s\<lparr>recv_timeout := tmo\<rparr> in
        case ssl_reads s of
          [] \<Rightarrow> (if shut_down s then Stopped ''TLS read failed'' else Pending, s1)
        | SslData d # es \<Rightarrow>
            if take len d = [] then (Stopped ''TLS read failed'', s1\<lparr>ssl_reads := es\<rparr>)
            else (Got (take len d),
                  s1\<lparr>ssl_reads := (if drop len d = [] then es else SslData (drop len d) # es)\<rparr>)
        | SslWant # es \<Rightarrow> (Pending, s1\<lparr>ssl_reads := es\<rparr>)
        | SslClosed # es \<Rightarrow> (Stopped ''connection closed by peer'', s1\<lparr>ssl_reads := es\<rparr>)
        | SslSyscall would_block # es \<Rightarrow>
            (if would_block then Pending else Stopped ''TLS read failed'', s1\<lparr>ssl_reads := es\<rparr>)
        | SslReadFail # es \<Rightarrow> (Stopped ''TLS read failed'', s1\<lparr>ssl_reads := es\<rparr>))"

section \<open>Either transport\<close>

definition sock_connect :: "string \<Rightarrow> int \<Rightarrow> int \<Rightarrow> sock \<Rightarrow> string option \<times> sock" where
  "sock_connect h p tmo s = (if over_tls s then tls_connect h p tmo s else plain_connect h p s)"

definition sock_send_all :: "string \<Rightarrow> sock \<Rightarrow> string option \<times> sock" where
  "sock_send_all data s = (if over_tls s then tls_send_all data s else plain_send_all data s)"

definition sock_recv :: "nat \<Rightarrow> int \<Rightarrow> sock \<Rightarrow> string rd \<times> sock" where
  "sock_recv len tmo s = (if over_tls s then tls_recv len tmo s else plain_recv len tmo s)"

lemmas transport_defs = sock_recv_def tls_recv_def plain_recv_def Let_def

section \<open>A session as a socket\<close>

text \<open>The answers a plain socket would give.\<close>

fun read_view :: "ssl_read \<Rightarrow> recv_event" where
  "read_view (SslData d) = RecvData d"
| "read_view SslWant = RecvBlock"
| "read_view SslClosed = RecvData []"
| "read_view (SslSyscall would_block) = (if would_block then RecvBlock else RecvFail [])"
| "read_view SslReadFail = RecvFail []"

fun write_view :: "ssl_write \<Rightarrow> send_event" where
  "write_view (SslTake k) = SendTake k"
| "write_view SslWriteWant = SendBlock"
| "write_view SslWriteFail = SendFail []"

definition plain_view :: "sock \<Rightarrow> sock" where
  "plain_view s = s\<lparr>over_tls := False, incoming := map read_view (ssl_reads s), sending := map write_view (ssl_writes s),
     ssl_reads := [], ssl_writes := []\<rparr>"

text \<open>The results agree but for the text of an error.\<close>

fun same_result :: "string rd \<Rightarrow> string rd \<Rightarrow> bool" where
  "same_result (Got d) (Got d') \<longleftrightarrow> d = d'"
| "same_result Pending Pending \<longleftrightarrow> True"
| "same_result (Stopped e) (Stopped e') \<longleftrightarrow> True"
| "same_result _ _ \<longleftrightarrow> False"

lemma tls_recv_view:
  assumes "over_tls s" "fd s" "ssl_session s \<noteq> None"
  shows "same_result (fst (sock_recv len tmo s)) (fst (sock_recv len tmo (plain_view s)))
    \<and> plain_view (snd (sock_recv len tmo s)) = snd (sock_recv len tmo (plain_view s))"
proof -
  have "sock_recv len tmo s = tls_recv len tmo s" "sock_recv len tmo (plain_view s) = plain_recv len tmo (plain_view s)"
    using assms(1) by (simp_all add: sock_recv_def plain_view_def)
  moreover have "fd (plain_view s)" "incoming (plain_view s) = map read_view (ssl_reads s)"
      "shut_down (plain_view s) = shut_down s"
    using assms(2) by (simp_all add: plain_view_def)
  moreover obtain cfg where "ssl_session s = Some cfg" using assms(3) by blast
  ultimately show ?thesis
  proof (cases "ssl_reads s")
    case Nil
    then show ?thesis
      using \<open>ssl_session s = Some cfg\<close> by (simp add: transport_defs plain_view_def assms)
  next
    case (Cons e es)
    then show ?thesis
      using \<open>ssl_session s = Some cfg\<close> by (cases e) (simp_all add: transport_defs plain_view_def assms)
  qed
qed

lemma tls_send_loop_steps [simp]:
  "tls_send_loop [] es sent = (None, es, sent)"
  "data \<noteq> [] \<Longrightarrow> tls_send_loop data [] sent = (None, [], sent @ data)"
  "data \<noteq> [] \<Longrightarrow> tls_send_loop data (SslTake k # es) sent
     = tls_send_loop (drop (Suc k) data) es (sent @ take (Suc k) data)"
  "data \<noteq> [] \<Longrightarrow> tls_send_loop data (SslWriteWant # es) sent = tls_send_loop data es sent"
  "data \<noteq> [] \<Longrightarrow> tls_send_loop data (SslWriteFail # es) sent = (Some ''TLS write failed'', es, sent)"
  by (subst tls_send_loop.simps, simp)+

lemma tls_send_loop_view:
  "send_loop data (map write_view es) sent = (r', es'', out) \<Longrightarrow>
   \<exists>r es'. tls_send_loop data es sent = (r, es', out) \<and> (r = None \<longleftrightarrow> r' = None) \<and> es'' = map write_view es'"
proof (induction es arbitrary: data sent)
  case Nil
  then show ?case by (cases "data = []") auto
next
  case (Cons e es)
  show ?case
  proof (cases "data = []")
    case False
    with Cons show ?thesis by (cases e) auto
  qed (use Cons.prems in auto)
qed

lemma tls_send_view:
  assumes "over_tls s" "fd s" "ssl_session s \<noteq> None"
  shows "(fst (sock_send_all data s) = None \<longleftrightarrow> fst (sock_send_all data (plain_view s)) = None)
    \<and> plain_view (snd (sock_send_all data s)) = snd (sock_send_all data (plain_view s))"
proof -
  obtain r' es'' out where l: "send_loop data (map write_view (ssl_writes s)) [] = (r', es'', out)"
    by (metis prod_cases3)
  from tls_send_loop_view [OF this] obtain r es' where
    "tls_send_loop data (ssl_writes s) [] = (r, es', out)" "r = None \<longleftrightarrow> r' = None" "es'' = map write_view es'" by blast
  with l assms show ?thesis
    by (auto simp: sock_send_all_def tls_send_all_def plain_send_all_def plain_view_def)
qed

section \<open>What a transport goes through\<close>

text \<open>The operations on a transport to the host \<open>h\<close>, which starts unconnected.\<close>

inductive used_transport :: "string \<Rightarrow> sock \<Rightarrow> bool" for h where
  used_new: "\<not> fd s \<Longrightarrow> ssl_session s = None \<Longrightarrow> \<not> ssl_context s \<Longrightarrow> used_transport h s"
| used_connect: "used_transport h s \<Longrightarrow> used_transport h (snd (sock_connect h p tmo s))"
| used_close: "used_transport h s \<Longrightarrow> used_transport h (sock_close s)"
| used_send: "used_transport h s \<Longrightarrow> used_transport h (snd (sock_send_all data s))"
| used_recv: "used_transport h s \<Longrightarrow> used_transport h (snd (sock_recv len tmo s))"
| used_interrupt: "used_transport h s \<Longrightarrow> used_transport h (sock_interrupt s)"

text \<open>Context and session are there exactly while a transport over TLS is connected.\<close>

definition session_ok :: "string \<Rightarrow> sock \<Rightarrow> bool" where
  "session_ok h s \<longleftrightarrow>
     (if over_tls s \<and> fd s then (\<exists>d. ssl_session s = Some (ssl_config_for (checks_hosts s) d h)) \<and> ssl_context s
      else ssl_session s = None \<and> \<not> ssl_context s)"

lemma session_ok_close: "session_ok h s \<Longrightarrow> session_ok h (sock_close s)"
  by (auto simp: session_ok_def sock_close_def tls_close_def plain_close_def)

lemma sock_close_fields [simp]:
  "dials (sock_close s) = dials s" "wire (sock_close s) = wire s" "\<not> fd (sock_close s)"
  "over_tls (sock_close s) = over_tls s"
  by (simp_all add: sock_close_def tls_close_def plain_close_def)

lemma plain_connect_cases:
  assumes "plain_connect h p s = (r, s')"
  obtains (failed) e ds where "r = Some e" "s' = (sock_close s)\<lparr>dials := ds\<rparr>"
    | (reached) d ds where "r = None" "dials s = d # ds" "s' = (sock_close s)\<lparr>fd := True, recv_timeout := -1,
        incoming := dial_incoming d, sending := dial_sending d, cut_after := dial_cut d, shut_down := False, dials := ds,
        wire := wire s @ [[]]\<rparr>"
proof (cases "dials s")
  case Nil
  then have "\<exists>e. plain_connect h p s = (Some e, sock_close s)" by (simp add: plain_connect_def Let_def)
  moreover have "sock_close s = (sock_close s)\<lparr>dials := dials (sock_close s)\<rparr>" by simp
  ultimately show ?thesis using assms failed by (metis prod.inject)
next
  case (Cons d ds)
  then show ?thesis
    using assms failed reached
    by (cases "dial_tcp h p (dial_resolution d)")
      (auto simp: plain_connect_def Let_def)
qed

lemma session_ok_connect:
  assumes "session_ok h s"
  shows "session_ok h (snd (sock_connect h p tmo s))"
proof -
  obtain r s' where r: "plain_connect h p s = (r, s')" by fastforce
  note c = session_ok_close [OF assms]
  show ?thesis
  proof (cases rule: plain_connect_cases [OF r])
    case 1
    then show ?thesis using r c by (auto simp: sock_connect_def tls_connect_def session_ok_def)
  next
    case 2
    then show ?thesis
      using r c by (auto simp: sock_connect_def tls_connect_def tls_handshake_def session_ok_def Let_def
          sock_close_def tls_close_def plain_close_def split: option.split)
  qed
qed

lemma session_ok_send: "session_ok h s \<Longrightarrow> session_ok h (snd (sock_send_all data s))"
  by (auto simp: sock_send_all_def tls_send_all_def plain_send_all_def session_ok_def split: prod.split)

lemma session_ok_recv: "session_ok h s \<Longrightarrow> session_ok h (snd (sock_recv len tmo s))"
  by (auto simp: transport_defs session_ok_def split: list.split recv_event.split ssl_read.split)

lemma used_session_ok: "used_transport h s \<Longrightarrow> session_ok h s"
proof (induction rule: used_transport.induct)
  case (used_new s)
  then show ?case by (simp add: session_ok_def)
next
  case (used_interrupt s)
  then show ?case by (simp add: session_ok_def sock_interrupt_def)
qed (simp_all add: session_ok_close session_ok_connect session_ok_send session_ok_recv)

text \<open>
  C17
  Connecting over TLS: either the handshake succeeded with a session that verifies the peer's certificate chain,
  allows no protocol before TLS, asks for the host by name where OpenSSL took the name, and checks the
  certificate for that host exactly where OpenSSL is 1.0.2 or newer and took the host to check; or the attempt
  failed and left neither a connection nor a context or session behind. In both cases nothing has been sent yet.
  Otherwise, on an older OpenSSL in particular, any certificate that chains to a trusted root is accepted, and
  the code takes no notice.
\<close>

theorem tls_connect_is_verified:
  assumes "used_transport h s" "over_tls s" "sock_connect h p tmo s = (r, s')"
  shows "(if r = None
      then fd s' \<and> ssl_context s' \<and> (\<exists>d ds cfg. dials s = d # ds \<and> ssl_session s' = Some cfg \<and> handshake (dial_ssl d) cfg = None
        \<and> verify_peer cfg \<and> \<not> old_protocols cfg \<and> (takes_name (dial_ssl d) \<longrightarrow> server_name cfg = Some (c_str h))
        \<and> (checks_hosts s \<longrightarrow> \<not> partial_wildcards cfg)
        \<and> checked_host cfg = (if checks_hosts s \<and> takes_host (dial_ssl d) then Some (c_str h) else None))
      else \<not> fd s' \<and> \<not> ssl_context s' \<and> ssl_session s' = None)
    \<and> (wire s' = wire s \<or> wire s' = wire s @ [[]])"
proof -
  obtain r1 s1 where r: "plain_connect h p s = (r1, s1)" by fastforce
  note close = sock_close_def tls_close_def plain_close_def
  show ?thesis
  proof (cases rule: plain_connect_cases [OF r])
    case (1 e ds)
    then have "r = Some e" "s' = s1" using r assms(2,3) by (simp_all add: sock_connect_def tls_connect_def)
    with 1(2) assms(2) show ?thesis by (simp add: close)
  next
    case (2 d ds)
    have f: "(r, s') = tls_handshake h tmo (dial_ssl d) s1"
      using r 2 assms(2,3) by (simp add: sock_connect_def tls_connect_def)
    have "over_tls s1" "wire s1 = wire s @ [[]]" "fd s1" "checks_hosts s1 = checks_hosts s"
      using 2(3) assms(2) by (simp_all add: close)
    with f 2(2) show ?thesis
      by (auto simp: tls_handshake_def Let_def close ssl_config_for_def split: if_splits option.splits)
  qed
qed

text \<open>
  C21
  Over a session that is up, reading and writing do to the caller what they do over a plain
  socket with the same answers: the same data, the same timeouts, an error where that has one.
\<close>

theorem tls_behaves_as_plain:
  assumes "used_transport h s" "over_tls s" "fd s"
  shows "same_result (fst (sock_recv len tmo s)) (fst (sock_recv len tmo (plain_view s)))
    \<and> plain_view (snd (sock_recv len tmo s)) = snd (sock_recv len tmo (plain_view s))
    \<and> (fst (sock_send_all data s) = None \<longleftrightarrow> fst (sock_send_all data (plain_view s)) = None)
    \<and> plain_view (snd (sock_send_all data s)) = snd (sock_send_all data (plain_view s))"
proof -
  have "ssl_session s \<noteq> None" using used_session_ok [OF assms(1)] assms(2,3) by (auto simp: session_ok_def)
  with tls_recv_view [OF assms(2,3)] tls_send_view [OF assms(2,3)] show ?thesis by blast
qed

section \<open>How much a peer still has to say\<close>

fun event_bytes :: "recv_event \<Rightarrow> string" where
  "event_bytes (RecvData d) = d"
| "event_bytes _ = []"

definition read_answers :: "sock \<Rightarrow> recv_event list" where
  "read_answers s = (if over_tls s then map read_view (ssl_reads s) else incoming s)"

definition budget :: "sock \<Rightarrow> nat" where
  "budget s = sum_list (map (\<lambda>e. length (event_bytes e) + 1) (read_answers s))"

text \<open>The peer only sends data; how it is cut into pieces does not matter.\<close>

definition flowing :: "sock \<Rightarrow> bool" where
  "flowing s \<longleftrightarrow> fd s \<and> \<not> shut_down s \<and> (over_tls s \<longrightarrow> ssl_session s \<noteq> None)
     \<and> (\<forall>e \<in> set (read_answers s). \<exists>d. e = RecvData d \<and> d \<noteq> [])"

definition arriving :: "sock \<Rightarrow> string" where
  "arriving s = concat (map event_bytes (read_answers s))"

text \<open>The peer takes at once what is written.\<close>

definition unhindered :: "sock \<Rightarrow> bool" where
  "unhindered s \<longleftrightarrow> \<not> shut_down s \<and> (if over_tls s then ssl_session s \<noteq> None \<and> ssl_writes s = [] else sending s = [])"

text \<open>What a read leaves alone.\<close>

definition sock_link :: "sock \<Rightarrow> bool \<times> bool \<times> bool \<times> ssl_config option \<times> send_event list \<times> ssl_write list" where
  "sock_link s = (over_tls s, shut_down s, ssl_context s, ssl_session s, sending s, ssl_writes s)"

lemma unhindered_sock_link: "sock_link s' = sock_link s \<Longrightarrow> unhindered s' = unhindered s"
  by (simp add: sock_link_def unhindered_def)

lemma sock_recv_Got:
  "sock_recv len tmo s = (Got d, s') \<Longrightarrow>
     d \<noteq> [] \<and> length d + budget s' \<le> budget s \<and> budget s' < budget s"
  by (auto simp: transport_defs budget_def read_answers_def split: if_splits list.splits recv_event.splits ssl_read.splits)

lemma sock_recv_fd [conn_frame]: "fd (snd (sock_recv len tmo s)) = fd s"
  by (simp add: transport_defs split: list.split recv_event.split ssl_read.split)

lemma sock_recv_frame [conn_frame]:
  "dials (snd (sock_recv len tmo s)) = dials s \<and> wire (snd (sock_recv len tmo s)) = wire s
   \<and> sock_link (snd (sock_recv len tmo s)) = sock_link s"
  by (simp add: transport_defs sock_link_def split: list.split recv_event.split ssl_read.split)

lemma sock_recv_budget: "budget (snd (sock_recv len tmo s)) \<le> budget s"
  by (auto simp: transport_defs budget_def read_answers_def split: list.split recv_event.split ssl_read.split)

text \<open>While the peer only sends data, a read passes on the next of its bytes.\<close>

lemma sock_recv_flowing:
  assumes "flowing s" "arriving s \<noteq> []" "0 < len"
  shows "\<exists>d s'. sock_recv len tmo s = (Got d, s') \<and> d \<noteq> [] \<and> arriving s = d @ arriving s' \<and> flowing s'"
proof (cases "read_answers s")
  case (Cons e es)
  then obtain d where d: "e = RecvData d" "d \<noteq> []" using assms(1) by (auto simp: flowing_def)
  show ?thesis
  proof (cases "over_tls s")
    case True
    with Cons d obtain rs where "ssl_reads s = SslData d # rs" "es = map read_view rs"
      by (auto simp: read_answers_def elim: read_view.elims split: if_splits)
    with True d assms show ?thesis by (auto simp: transport_defs arriving_def flowing_def read_answers_def)
  next
    case False
    with Cons d assms show ?thesis by (auto simp: transport_defs arriving_def flowing_def read_answers_def)
  qed
qed (use assms in \<open>simp add: arriving_def\<close>)

text \<open>The socket is a source of bytes; a silent peer only lets the timeout elapse.\<close>

interpretation socket: byte_source "sock_recv 4096 tmo" arriving flowing for tmo
proof unfold_locales
  show "\<exists>d s'. sock_recv 4096 tmo s = (Got d, s') \<and> d \<noteq> [] \<and> arriving s = d @ arriving s' \<and> flowing s'"
    if "flowing s" "arriving s \<noteq> []" for s using sock_recv_flowing [OF that] by simp
  show "\<exists>s'. sock_recv 4096 tmo s = (Pending, s') \<and> arriving s' = [] \<and> flowing s'"
    if "flowing s" "arriving s = []" for s
  proof -
    from that have "read_answers s = []" by (cases "read_answers s") (auto simp: flowing_def arriving_def)
    show ?thesis
    proof (cases "over_tls s")
      case True
      then show ?thesis
        using that \<open>read_answers s = []\<close> by (auto simp: transport_defs flowing_def arriving_def read_answers_def)
    next
      case False
      then show ?thesis
        using that \<open>read_answers s = []\<close> by (simp add: transport_defs flowing_def arriving_def read_answers_def)
    qed
  qed
qed

section \<open>Sending\<close>

lemma sock_send_cases:
  assumes "sock_send_all data s = (r, s')"
  obtains (nothing) "s' = s" "r = None \<longrightarrow> data = []"
    | (wrote) p q where "wire s' = append_last p (wire s)" "data = p @ q" "r = None \<longrightarrow> q = []"
proof -
  consider (idle) "s' = s" "r = None \<longrightarrow> data = []"
    | (plain) es out where "send_loop data (sending s) [] = (r, es, out)" "wire s' = append_last out (wire s)"
    | (ssl) es out where "tls_send_loop data (ssl_writes s) [] = (r, es, out)" "wire s' = append_last out (wire s)"
    using assms
    by (auto simp: sock_send_all_def tls_send_all_def plain_send_all_def split: if_splits prod.splits)
  then show ?thesis
  proof cases
    case plain
    with send_loop_sent [OF plain(1)] wrote show ?thesis by auto
  next
    case ssl
    obtain r' es'' out' where l: "send_loop data (map write_view (ssl_writes s)) [] = (r', es'', out')"
      by (metis prod_cases3)
    with tls_send_loop_view [OF l] ssl(1) have "out' = out" "r = None \<longleftrightarrow> r' = None" by auto
    with send_loop_sent [OF l] ssl(2) wrote show ?thesis by auto
  qed (rule nothing)
qed

text \<open>
  A successful \<^verbatim>\<open>SendAll\<close> has put every byte on the wire exactly once and in order, however
  the kernel cut the writes up; a failed one has put out a prefix.
\<close>

lemma send_all_writes_in_order:
  assumes "sock_send_all data s = (r, s')" "wire s = ws @ [w]"
  shows "\<exists>p q. wire s' = ws @ [w @ p] \<and> data = p @ q \<and> (r = None \<longrightarrow> q = [])"
proof (cases rule: sock_send_cases [OF assms(1)])
  case 2
  then show ?thesis using assms(2) by (auto simp: append_last_def)
qed (use assms(2) in auto)

definition no_ssl :: ssl_setup where
  "no_ssl = \<lparr>gives_context = False, gives_session = False, takes_name = False, takes_host = False, handshake = (\<lambda>_. None), handshake_reads = [],
     handshake_writes = []\<rparr>"

definition quiet_sock :: sock where
  "quiet_sock = \<lparr>fd = True, recv_timeout = -1, incoming = [], sending = [], cut_after = 0, shut_down = False, dials = [],
     wire = [[]], over_tls = False, checks_hosts = True, ssl_context = False, ssl_session = None, ssl_reads = [], ssl_writes = []\<rparr>"

text \<open>A server whose handshake succeeds when the certificate is checked for its name.\<close>

definition good_dial :: dial where
  "good_dial = \<lparr>dial_resolution = Addresses ConnectedNow [], dial_incoming = [], dial_sending = [], dial_cut = 0,
     dial_ssl = \<lparr>gives_context = True, gives_session = True, takes_name = True, takes_host = True,
       handshake = (\<lambda>cfg. if checked_host cfg = Some ''radio'' then None else Some ''certificate verify failed''),
       handshake_reads = [SslWant, SslData ''abc''], handshake_writes = [SslTake 1, SslWriteWant]\<rparr>\<rparr>"

definition secure_sock :: sock where
  "secure_sock = quiet_sock\<lparr>fd := False, over_tls := True, wire := [], dials := [good_dial]\<rparr>"

lemma secure_sock_used: "used_transport h secure_sock"
  by (rule used_new) (simp_all add: secure_sock_def quiet_sock_def)

lemma secure_connected:
  "sock_connect ''radio'' 443 5000 secure_sock = (None, secure_sock\<lparr>fd := True, recv_timeout := 5000, dials := [], wire := [[]],
     ssl_context := True, ssl_session := Some (ssl_config_for True (dial_ssl good_dial) ''radio''), ssl_reads := [SslWant, SslData ''abc''],
     ssl_writes := [SslTake 1, SslWriteWant]\<rparr>)"
proof -
  have "c_str ''radio'' = ''radio''" by code_simp
  then show ?thesis
    by (simp add: sock_connect_def tls_connect_def plain_connect_def dial_tcp_def tls_handshake_def sock_close_def
        tls_close_def plain_close_def secure_sock_def good_dial_def quiet_sock_def ssl_config_for_def)
qed

lemma tls_connect_is_verified_witness:
  "\<exists>cfg. ssl_session (snd (sock_connect ''radio'' 443 5000 secure_sock)) = Some cfg \<and> verify_peer cfg
    \<and> checked_host cfg = Some (c_str ''radio'')"
proof -
  have "over_tls secure_sock" "checks_hosts secure_sock" by (simp_all add: secure_sock_def quiet_sock_def)
  moreover have "dials secure_sock = [good_dial]" "takes_host (dial_ssl good_dial)"
    by (simp_all add: secure_sock_def good_dial_def)
  ultimately show ?thesis
    using tls_connect_is_verified [OF secure_sock_used _ secure_connected] by (auto simp: secure_connected)
qed

lemma tls_behaves_as_plain_witness:
  "let s = snd (sock_connect ''radio'' 443 5000 secure_sock) in
     same_result (fst (sock_recv 2 100 s)) (fst (sock_recv 2 100 (plain_view s)))
     \<and> (fst (sock_send_all ''POST'' s) = None \<longleftrightarrow> fst (sock_send_all ''POST'' (plain_view s)) = None)"
proof -
  let ?s = "snd (sock_connect ''radio'' 443 5000 secure_sock)"
  have "used_transport ''radio'' ?s" by (rule used_connect [OF secure_sock_used])
  moreover have "over_tls ?s" "fd ?s"
    unfolding secure_connected by (simp_all add: secure_sock_def quiet_sock_def)
  ultimately show ?thesis using tls_behaves_as_plain [of "''radio''" ?s 2 100 "''POST''"] by (simp add: Let_def)
qed

end
