(* ===== verification/Sockets.thy ===== *)
theory Sockets
  imports Tls
begin

text \<open>
  The descriptors under the transports: what \<^verbatim>\<open>DialTcp\<close>, the two transports and \<^verbatim>\<open>HttpGlobalInit\<close> of src/http.cpp
  ask of the operating system. The state is the process with its open descriptors, the action for SIGPIPE and the
  objects of OpenSSL; \<open>Transport\<close> and \<open>Tls\<close> leave these out, and the last section shows that both agree.
\<close>

section \<open>The process\<close>

text \<open>What differs between the systems the plugin is built for, by the macros the code looks at.\<close>

record platform =
  windows :: bool
  with_tls :: bool
  msg_nosignal :: bool
  so_nosigpipe :: bool
  openssl_1_0 :: bool
  keep_idle :: bool
  keep_interval :: bool
  keep_count :: bool
  nonblock_bit :: int
  fresh_flags :: int

datatype sock_opt = KeepAlive | KeepIdle | KeepInterval | KeepCount | NoDelay | NoSigpipe

text \<open>A timeout as the system is given it: \<^verbatim>\<open>DWORD\<close> milliseconds on Windows.\<close>

datatype sock_wait = Millis int | Timeval timeval

text \<open>An open descriptor; on Windows \<open>d_flags\<close> is the mode of \<^verbatim>\<open>FIONBIO\<close>.\<close>

record descriptor =
  d_flags :: int
  d_options :: "sock_opt \<Rightarrow> int option"
  d_send_timeout :: "sock_wait option"
  d_recv_timeout :: "sock_wait option"

datatype disposition = DefaultAction | Ignored | Handled

text \<open>\<open>p_connects\<close> is a ghost: for every \<^verbatim>\<open>connect\<close>, whether its descriptor was in non-blocking mode.\<close>

record process =
  p_open :: "nat \<Rightarrow> descriptor option"
  p_connects :: "bool list"
  p_sigpipe :: disposition
  p_winsock :: int
  p_ssl_loaded :: bool
  p_contexts :: nat
  p_sessions :: nat

type_synonym fd_choice = "(nat \<Rightarrow> descriptor option) \<Rightarrow> nat"

definition upd_fd :: "nat \<Rightarrow> (descriptor \<Rightarrow> descriptor) \<Rightarrow> process \<Rightarrow> process" where
  "upd_fd n f p = p\<lparr>p_open := (p_open p)(n := map_option f (p_open p n))\<rparr>"

definition close_fd :: "nat \<Rightarrow> process \<Rightarrow> process" where
  "close_fd n p = p\<lparr>p_open := (p_open p)(n := None)\<rparr>"

section \<open>Options\<close>

definition set_sock_opt :: "nat \<Rightarrow> sock_opt \<Rightarrow> int \<Rightarrow> process \<Rightarrow> process" where
  "set_sock_opt n opt v = upd_fd n (\<lambda>d. d\<lparr>d_options := (d_options d)(opt := Some v)\<rparr>)"

definition wait_for :: "platform \<Rightarrow> int \<Rightarrow> sock_wait" where
  "wait_for pl ms = (if windows pl then Millis (ms mod 2 ^ 32) else Timeval (timeval_of ms))"

definition set_send_timeout :: "platform \<Rightarrow> nat \<Rightarrow> int \<Rightarrow> process \<Rightarrow> process" where
  "set_send_timeout pl n ms = upd_fd n (\<lambda>d. d\<lparr>d_send_timeout := Some (wait_for pl ms)\<rparr>)"

definition set_recv_timeout :: "platform \<Rightarrow> nat \<Rightarrow> int \<Rightarrow> process \<Rightarrow> process" where
  "set_recv_timeout pl n ms = upd_fd n (\<lambda>d. d\<lparr>d_recv_timeout := Some (wait_for pl ms)\<rparr>)"

definition with_blocking :: "platform \<Rightarrow> bool \<Rightarrow> descriptor \<Rightarrow> descriptor" where
  "with_blocking pl blocking d =
     (if windows pl then d\<lparr>d_flags := (if blocking then 0 else 1)\<rparr>
      else if d_flags d < 0 then d
      else d\<lparr>d_flags := (if blocking then Bit_Operations.and (d_flags d) (Bit_Operations.not (nonblock_bit pl))
                         else Bit_Operations.or (d_flags d) (nonblock_bit pl))\<rparr>)"

definition set_blocking :: "platform \<Rightarrow> nat \<Rightarrow> bool \<Rightarrow> process \<Rightarrow> process" where
  "set_blocking pl n blocking = upd_fd n (with_blocking pl blocking)"

definition nonblocking :: "platform \<Rightarrow> descriptor \<Rightarrow> bool" where
  "nonblocking pl d \<longleftrightarrow>
     (if windows pl then d_flags d \<noteq> 0 else Bit_Operations.and (d_flags d) (nonblock_bit pl) \<noteq> 0)"

definition enable_keepalive :: "platform \<Rightarrow> nat \<Rightarrow> process \<Rightarrow> process" where
  "enable_keepalive pl n p =
     (let p1 = set_sock_opt n KeepAlive 1 p;
          p2 = if keep_idle pl then set_sock_opt n KeepIdle 20 p1 else p1;
          p3 = if keep_interval pl then set_sock_opt n KeepInterval 10 p2 else p2;
          p4 = if keep_count pl then set_sock_opt n KeepCount 3 p3 else p3 in
      set_sock_opt n NoDelay 1 p4)"

section \<open>Dialling\<close>

definition new_descriptor :: "platform \<Rightarrow> descriptor" where
  "new_descriptor pl = \<lparr>d_flags = fresh_flags pl, d_options = (\<lambda>_. None), d_send_timeout = None, d_recv_timeout = None\<rparr>"

text \<open>The number of the new descriptor is chosen by the system: \<open>new_fd\<close> of the open ones.\<close>

definition open_socket :: "platform \<Rightarrow> fd_choice \<Rightarrow> process \<Rightarrow> nat \<times> process" where
  "open_socket pl new_fd p =
     (let n = new_fd (p_open p) in (n, p\<lparr>p_open := (p_open p)(n := Some (new_descriptor pl))\<rparr>))"

definition call_connect :: "platform \<Rightarrow> nat \<Rightarrow> process \<Rightarrow> process" where
  "call_connect pl n p =
     p\<lparr>p_connects := p_connects p @ [case p_open p n of None \<Rightarrow> False | Some d \<Rightarrow> nonblocking pl d]\<rparr>"

text \<open>What the attempt to connect comes to, with the text of the error.\<close>

fun attempt_error :: "attempt \<Rightarrow> string option" where
  "attempt_error (SocketFail e) = Some e"
| "attempt_error ConnectedNow = None"
| "attempt_error (SelectReady ok) = (if ok then None else Some ''connection refused'')"
| "attempt_error SelectTimeout = Some ''connect timed out''"
| "attempt_error (SelectFail e) = Some e"

definition prepare_socket :: "platform \<Rightarrow> nat \<Rightarrow> int \<Rightarrow> process \<Rightarrow> process" where
  "prepare_socket pl n ms p =
     (let p1 = enable_keepalive pl n (set_blocking pl n True p);
          p2 = if so_nosigpipe pl then set_sock_opt n NoSigpipe 1 p1 else p1 in
      set_send_timeout pl n ms p2)"

fun dial_loop ::
  "platform \<Rightarrow> fd_choice \<Rightarrow> int \<Rightarrow> string \<Rightarrow> attempt list \<Rightarrow> process \<Rightarrow> (string + nat) \<times> process"
where
  "dial_loop pl new_fd ms last_err [] p = (Inl last_err, p)"
| "dial_loop pl new_fd ms last_err (SocketFail e # as) p = dial_loop pl new_fd ms e as p"
| "dial_loop pl new_fd ms last_err (a # as) p =
     (case open_socket pl new_fd p of
        (n, p1) \<Rightarrow>
          (let p2 = call_connect pl n (set_blocking pl n False p1) in
           case attempt_error a of
             None \<Rightarrow> (Inr n, prepare_socket pl n ms p2)
           | Some e \<Rightarrow> dial_loop pl new_fd ms e as (close_fd n p2)))"

definition dial_socket ::
  "platform \<Rightarrow> fd_choice \<Rightarrow> string \<Rightarrow> int \<Rightarrow> int \<Rightarrow> resolution \<Rightarrow> process \<Rightarrow> (string + nat) \<times> process"
where
  "dial_socket pl new_fd h pn ms r p =
     (case r of
        ResolveFail e \<Rightarrow> (Inl (''resolve '' @ h @ '' failed: '' @ e), p)
      | Addresses a as \<Rightarrow>
          (case dial_loop pl new_fd ms ''no addresses returned'' (a # as) p of
             (Inl e, p1) \<Rightarrow> (Inl (''connect '' @ h @ '':'' @ dec_int pn @ '' failed: '' @ e), p1)
           | (Inr n, p1) \<Rightarrow> (Inr n, p1)))"

section \<open>Transports\<close>

record transport =
  t_tls :: bool
  t_checks :: bool
  t_fd :: "nat option"
  t_ctx :: bool
  t_ssl :: bool

definition transport_close :: "transport \<Rightarrow> process \<Rightarrow> transport \<times> process" where
  "transport_close t p =
     (let p1 = if t_ssl t then p\<lparr>p_sessions := p_sessions p - 1\<rparr> else p;
          p2 = if t_ctx t then p1\<lparr>p_contexts := p_contexts p1 - 1\<rparr> else p1;
          p3 = (case t_fd t of None \<Rightarrow> p2 | Some n \<Rightarrow> close_fd n p2) in
      (t\<lparr>t_fd := None, t_ctx := False, t_ssl := False\<rparr>, p3))"

text \<open>\<^verbatim>\<open>TlsTransport::Connect\<close> from the descriptor on.\<close>

definition transport_handshake ::
  "platform \<Rightarrow> string \<Rightarrow> int \<Rightarrow> nat \<Rightarrow> ssl_setup \<Rightarrow> transport \<Rightarrow> process \<Rightarrow> string option \<times> transport \<times> process" where
  "transport_handshake pl h ms n setup t p =
     (if \<not> gives_context setup then (Some ''SSL_CTX_new failed'', transport_close t p)
      else let t1 = t\<lparr>t_ctx := True\<rparr>; p1 = p\<lparr>p_contexts := p_contexts p + 1\<rparr> in
        if \<not> gives_session setup then (Some ''SSL_new failed'', transport_close t1 p1)
        else let t2 = t1\<lparr>t_ssl := True\<rparr>; p2 = set_recv_timeout pl n ms (p1\<lparr>p_sessions := p_sessions p1 + 1\<rparr>) in
          case handshake setup (ssl_config_for (t_checks t) setup h) of
            Some e \<Rightarrow> (Some (''TLS handshake failed: '' @ e), transport_close t2 p2)
          | None \<Rightarrow> (None, t2, p2))"

definition transport_connect ::
  "platform \<Rightarrow> fd_choice \<Rightarrow> string \<Rightarrow> int \<Rightarrow> int \<Rightarrow> dial \<Rightarrow> transport \<Rightarrow> process
     \<Rightarrow> string option \<times> transport \<times> process" where
  "transport_connect pl new_fd h pn ms d t p =
     (case transport_close t p of
        (t0, p0) \<Rightarrow>
          (case dial_socket pl new_fd h pn ms (dial_resolution d) p0 of
             (Inl e, p1) \<Rightarrow> (Some e, t0, p1)
           | (Inr n, p1) \<Rightarrow>
               (let t1 = t0\<lparr>t_fd := Some n\<rparr> in
                if t_tls t then transport_handshake pl h ms n (dial_ssl d) t1 p1 else (None, t1, p1))))"

section \<open>Setting up the process\<close>

definition http_global_init :: "platform \<Rightarrow> process \<Rightarrow> process" where
  "http_global_init pl p =
     (let p1 = if windows pl then p\<lparr>p_winsock := p_winsock p + 1\<rparr> else p;
          p2 = if with_tls pl \<and> openssl_1_0 pl then p1\<lparr>p_ssl_loaded := True\<rparr> else p1 in
      if with_tls pl \<and> \<not> windows pl \<and> \<not> so_nosigpipe pl \<and> p_sigpipe p2 = DefaultAction
      then p2\<lparr>p_sigpipe := Ignored\<rparr> else p2)"

definition http_global_shutdown :: "platform \<Rightarrow> process \<Rightarrow> process" where
  "http_global_shutdown pl p = (if windows pl then p\<lparr>p_winsock := p_winsock p - 1\<rparr> else p)"

text \<open>\<^verbatim>\<open>GORADIO_SEND_FLAGS\<close>; OpenSSL writes without them.\<close>

definition send_is_silent :: "platform \<Rightarrow> transport \<Rightarrow> bool" where
  "send_is_silent pl t \<longleftrightarrow> \<not> t_tls t \<and> msg_nosignal pl"

text \<open>Whether a write to a peer that has closed the connection ends the process.\<close>

definition write_kills :: "platform \<Rightarrow> transport \<Rightarrow> process \<Rightarrow> bool" where
  "write_kills pl t p \<longleftrightarrow>
     (case t_fd t of
        None \<Rightarrow> False
      | Some n \<Rightarrow>
          \<not> windows pl \<and> p_sigpipe p = DefaultAction \<and> \<not> send_is_silent pl t
            \<and> (case p_open p n of None \<Rightarrow> False | Some d \<Rightarrow> d_options d NoSigpipe \<noteq> Some 1))"

section \<open>Many transports in one process\<close>

datatype use = Make bool bool | Connect nat string int int dial | Close nat

definition use_transport ::
  "platform \<Rightarrow> fd_choice \<Rightarrow> use \<Rightarrow> transport list \<times> process \<Rightarrow> transport list \<times> process" where
  "use_transport pl new_fd u st =
     (case st of (ts, p) \<Rightarrow>
        (case u of
           Make tls checks \<Rightarrow>
             if tls \<and> \<not> with_tls pl then st
             else (ts @ [\<lparr>t_tls = tls, t_checks = checks, t_fd = None, t_ctx = False, t_ssl = False\<rparr>], p)
         | Connect i h pn ms d \<Rightarrow>
             if i < length ts then
               (case transport_connect pl new_fd h pn ms d (ts ! i) p of (r, t', p') \<Rightarrow> (ts[i := t'], p'))
             else st
         | Close i \<Rightarrow>
             if i < length ts then (case transport_close (ts ! i) p of (t', p') \<Rightarrow> (ts[i := t'], p')) else st))"

end
