(* ===== verification/Socket_Safety.thy ===== *)
theory Socket_Safety
  imports Sockets
begin

text \<open>
  No descriptor and no object of OpenSSL is lost, whatever the attempts to connect come to; every descriptor a
  transport holds is set up; no call of \<^verbatim>\<open>connect\<close> can hang; and a peer that has closed its connection does
  not end the game server's process.
\<close>

section \<open>What is relied on\<close>

text \<open>The system hands out a descriptor that is not open, and the bit and the flags of fcntl are no negative numbers.\<close>

definition fresh_choice :: "fd_choice \<Rightarrow> bool" where
  "fresh_choice new_fd \<longleftrightarrow> (\<forall>opn. finite (dom opn) \<longrightarrow> opn (new_fd opn) = None)"

definition platform_ok :: "platform \<Rightarrow> bool" where
  "platform_ok pl \<longleftrightarrow> 0 < nonblock_bit pl \<and> 0 \<le> fresh_flags pl"

text \<open>A descriptor that is ready for a transport.\<close>

definition ready :: "platform \<Rightarrow> descriptor \<Rightarrow> bool" where
  "ready pl d \<longleftrightarrow> \<not> nonblocking pl d \<and> d_options d KeepAlive = Some 1 \<and> d_options d NoDelay = Some 1
     \<and> (so_nosigpipe pl \<longrightarrow> d_options d NoSigpipe = Some 1) \<and> d_send_timeout d \<noteq> None"

section \<open>One descriptor\<close>

lemma upd_fd_fields [simp]:
  "p_open (upd_fd n f p) = (p_open p)(n := map_option f (p_open p n))" "p_connects (upd_fd n f p) = p_connects p"
  "p_sigpipe (upd_fd n f p) = p_sigpipe p" "p_contexts (upd_fd n f p) = p_contexts p"
  "p_sessions (upd_fd n f p) = p_sessions p"
  by (simp_all add: upd_fd_def)

lemmas option_defs = set_sock_opt_def set_send_timeout_def set_recv_timeout_def set_blocking_def enable_keepalive_def
  prepare_socket_def call_connect_def close_fd_def open_socket_def

lemma and_flags: "Bit_Operations.and (Bit_Operations.and x (Bit_Operations.not b)) b = (0 :: int)"
  by (simp add: and.assoc)

lemma or_flags: "Bit_Operations.and (Bit_Operations.or x b) b = (b :: int)"
  by (rule bit_eqI) (simp add: bit_simps, blast)

lemma with_blocking_modes:
  assumes "platform_ok pl" "windows pl \<or> 0 \<le> d_flags d"
  shows "nonblocking pl (with_blocking pl False d)" "\<not> nonblocking pl (with_blocking pl True d)"
    "windows pl \<or> 0 \<le> d_flags (with_blocking pl blocking d)"
  using assms by (auto simp: with_blocking_def nonblocking_def platform_ok_def or_flags and_flags)

lemma with_blocking_options [simp]:
  "d_options (with_blocking pl blocking d) = d_options d" "d_send_timeout (with_blocking pl blocking d) = d_send_timeout d"
  by (simp_all add: with_blocking_def)

lemma mode_options [simp]:
  "nonblocking pl (d_options_update f d) = nonblocking pl d" "nonblocking pl (d_send_timeout_update g d) = nonblocking pl d"
  "nonblocking pl (d_recv_timeout_update g d) = nonblocking pl d"
  by (simp_all add: nonblocking_def)

text \<open>Every attempt works on one new descriptor, and calls \<^verbatim>\<open>connect\<close> in non-blocking mode.\<close>

definition attempted :: "platform \<Rightarrow> fd_choice \<Rightarrow> process \<Rightarrow> process" where
  "attempted pl new_fd p = (let n = new_fd (p_open p) in
     call_connect pl n (set_blocking pl n False (snd (open_socket pl new_fd p))))"

lemma attempted_fields:
  assumes "platform_ok pl"
  shows "p_open (attempted pl new_fd p) = (p_open p)(new_fd (p_open p) := Some (with_blocking pl False (new_descriptor pl)))"
    "windows pl \<or> 0 \<le> d_flags (with_blocking pl False (new_descriptor pl))"
    "p_connects (attempted pl new_fd p) = p_connects p @ [True]"
    "p_sigpipe (attempted pl new_fd p) = p_sigpipe p" "p_contexts (attempted pl new_fd p) = p_contexts p"
    "p_sessions (attempted pl new_fd p) = p_sessions p"
  using assms with_blocking_modes [OF assms, of "new_descriptor pl"]
  by (simp_all add: attempted_def option_defs Let_def platform_ok_def new_descriptor_def)

lemma prepare_fields [simp]:
  "m \<noteq> n \<Longrightarrow> p_open (prepare_socket pl n ms p) m = p_open p m"
  "p_connects (prepare_socket pl n ms p) = p_connects p" "p_sigpipe (prepare_socket pl n ms p) = p_sigpipe p"
  "p_contexts (prepare_socket pl n ms p) = p_contexts p" "p_sessions (prepare_socket pl n ms p) = p_sessions p"
  by (simp_all add: option_defs Let_def)

lemma prepared:
  assumes "platform_ok pl" "p_open p n = Some d" "windows pl \<or> 0 \<le> d_flags d"
  shows "\<exists>d'. p_open (prepare_socket pl n ms p) n = Some d' \<and> ready pl d'"
  using assms with_blocking_modes [OF assms(1,3)]
  by (simp add: option_defs Let_def ready_def)

lemma dial_loop_Cons:
  "dial_loop pl new_fd ms last_err (a # as) p =
     (case a of SocketFail e \<Rightarrow> dial_loop pl new_fd ms e as p
      | _ \<Rightarrow> (case attempt_error a of
           None \<Rightarrow> (Inr (new_fd (p_open p)), prepare_socket pl (new_fd (p_open p)) ms (attempted pl new_fd p))
         | Some e \<Rightarrow> dial_loop pl new_fd ms e as (close_fd (new_fd (p_open p)) (attempted pl new_fd p))))"
  by (cases a) (simp_all add: attempted_def open_socket_def Let_def)

section \<open>Dialling\<close>

text \<open>What dialling may change of the process, and what it gives.\<close>

definition dialled :: "platform \<Rightarrow> process \<Rightarrow> (string + nat) \<Rightarrow> process \<Rightarrow> bool" where
  "dialled pl p r p' \<longleftrightarrow>
     (case r of
        Inl e \<Rightarrow> p_open p' = p_open p
      | Inr n \<Rightarrow> p_open p n = None \<and> (\<exists>d. p_open p' = (p_open p)(n := Some d) \<and> ready pl d))
     \<and> (\<exists>k. p_connects p' = p_connects p @ replicate k True)
     \<and> p_sigpipe p' = p_sigpipe p \<and> p_contexts p' = p_contexts p \<and> p_sessions p' = p_sessions p"

lemma dial_loop_dialled:
  assumes "platform_ok pl" "fresh_choice new_fd" "finite (dom (p_open p))"
  shows "dialled pl p (fst (dial_loop pl new_fd ms last_err as p)) (snd (dial_loop pl new_fd ms last_err as p))"
  using assms(3)
proof (induction as arbitrary: last_err p)
  case Nil
  show ?case by (simp add: dialled_def)
next
  case (Cons a as)
  let ?n = "new_fd (p_open p)" and ?p = "attempted pl new_fd p"
  have free: "p_open p ?n = None" using assms(2) Cons.prems by (simp add: fresh_choice_def)
  note fields = attempted_fields [OF assms(1)]
  show ?case
  proof (cases "attempt_error a")
    case None
    then have eq: "dial_loop pl new_fd ms last_err (a # as) p = (Inr ?n, prepare_socket pl ?n ms ?p)"
      unfolding dial_loop_Cons by (cases a) simp_all
    note ready = prepared [OF assms(1) _ fields(2), where p = ?p and n = ?n and ms = ms]
    from ready obtain d where d: "p_open (prepare_socket pl ?n ms ?p) ?n = Some d" "ready pl d" by (auto simp: fields(1))
    have "p_open (prepare_socket pl ?n ms ?p) = (p_open p)(?n := Some d)"
    proof
      fix m show "p_open (prepare_socket pl ?n ms ?p) m = ((p_open p)(?n := Some d)) m"
        using d(1) by (simp add: fields(1))
    qed
    then show ?thesis unfolding eq dialled_def using d(2) free
      by (auto simp: fields intro: exI [of _ 1])
  next
    case (Some e)
    show ?thesis
    proof (cases "\<exists>e. a = SocketFail e")
      case True
      then show ?thesis using Cons.IH [OF Cons.prems] by auto
    next
      case False
      let ?q = "close_fd ?n ?p"
      have eq: "dial_loop pl new_fd ms last_err (a # as) p = dial_loop pl new_fd ms e as ?q"
        unfolding dial_loop_Cons using Some False by (cases a) simp_all
      have q: "p_open ?q = p_open p" "p_connects ?q = p_connects p @ [True]" "p_sigpipe ?q = p_sigpipe p"
          "p_contexts ?q = p_contexts p" "p_sessions ?q = p_sessions p"
        using free by (auto simp: close_fd_def fields)
      have "dialled pl ?q (fst (dial_loop pl new_fd ms e as ?q)) (snd (dial_loop pl new_fd ms e as ?q))"
        using Cons.IH [of ?q] Cons.prems by (simp add: q)
      then show ?thesis
        unfolding eq dialled_def q by (auto simp flip: replicate_Suc)
    qed
  qed
qed

lemma dial_socket_dialled:
  assumes "platform_ok pl" "fresh_choice new_fd" "finite (dom (p_open p))" "dial_socket pl new_fd h pn ms r p = (x, p')"
  shows "dialled pl p x p'"
proof (cases r)
  case (ResolveFail e)
  then show ?thesis using assms(4) by (auto simp: dial_socket_def dialled_def)
next
  case (Addresses a as)
  let ?l = "dial_loop pl new_fd ms ''no addresses returned'' (a # as) p"
  have "dialled pl p (fst ?l) (snd ?l)" using dial_loop_dialled [OF assms(1-3)] .
  then show ?thesis using assms(4) Addresses
    by (cases ?l) (auto simp: dial_socket_def dialled_def split: sum.splits)
qed

text \<open>The outcome is the one of \<open>dial_tcp\<close>.\<close>

lemma dial_loop_addresses:
  "(case fst (dial_loop pl new_fd ms last_err as p) of Inl e \<Rightarrow> Inl e | Inr n \<Rightarrow> Inr ()) = dial_addresses last_err as"
proof (induction as arbitrary: last_err p)
  case (Cons a as)
  then show ?case by (cases a) (simp_all add: dial_loop_Cons split: bool.split)
qed simp

lemma dial_socket_tcp:
  "(case fst (dial_socket pl new_fd h pn ms r p) of Inl e \<Rightarrow> Inl e | Inr n \<Rightarrow> Inr ()) = dial_tcp h pn r"
proof (cases r)
  case (Addresses a as)
  show ?thesis
    using dial_loop_addresses [of pl new_fd ms "''no addresses returned''" "a # as" p] Addresses
    by (cases "dial_loop pl new_fd ms ''no addresses returned'' (a # as) p")
      (auto simp: dial_socket_def dial_tcp_def split: sum.splits)
qed (simp add: dial_socket_def dial_tcp_def)

section \<open>Transports\<close>

text \<open>What an operation does with the descriptor and the objects of its transport.\<close>

definition freed :: "transport \<Rightarrow> process \<Rightarrow> nat \<Rightarrow> descriptor option" where
  "freed t p = (case t_fd t of None \<Rightarrow> p_open p | Some n \<Rightarrow> (p_open p)(n := None))"

definition moves :: "platform \<Rightarrow> transport \<Rightarrow> process \<Rightarrow> transport \<Rightarrow> process \<Rightarrow> bool" where
  "moves pl t p t' p' \<longleftrightarrow>
     (case t_fd t' of
        None \<Rightarrow> p_open p' = freed t p
      | Some n \<Rightarrow> freed t p n = None \<and> (\<exists>d. p_open p' = (freed t p)(n := Some d) \<and> ready pl d))
     \<and> p_contexts p' + of_bool (t_ctx t) = p_contexts p + of_bool (t_ctx t')
     \<and> p_sessions p' + of_bool (t_ssl t) = p_sessions p + of_bool (t_ssl t')
     \<and> (\<exists>k. p_connects p' = p_connects p @ replicate k True) \<and> p_sigpipe p' = p_sigpipe p \<and> t_tls t' = t_tls t"

definition counted :: "transport \<Rightarrow> process \<Rightarrow> bool" where
  "counted t p \<longleftrightarrow> of_bool (t_ctx t) \<le> p_contexts p \<and> of_bool (t_ssl t) \<le> p_sessions p"

lemma close_transport [simp]: "fst (transport_close t p) = t\<lparr>t_fd := None, t_ctx := False, t_ssl := False\<rparr>"
  by (simp add: transport_close_def Let_def)

lemma close_process [simp]:
  "p_open (snd (transport_close t p)) = freed t p" "p_contexts (snd (transport_close t p)) = p_contexts p - of_bool (t_ctx t)"
  "p_sessions (snd (transport_close t p)) = p_sessions p - of_bool (t_ssl t)"
  "p_connects (snd (transport_close t p)) = p_connects p" "p_sigpipe (snd (transport_close t p)) = p_sigpipe p"
  by (simp_all add: transport_close_def Let_def freed_def close_fd_def split: option.split)

lemma close_moves:
  assumes "counted t p" "transport_close t p = (t', p')"
  shows "moves pl t p t' p'" "t' = t\<lparr>t_fd := None, t_ctx := False, t_ssl := False\<rparr>" "p_open p' = freed t p"
proof -
  have t: "t' = fst (transport_close t p)" "p' = snd (transport_close t p)" using assms(2) by simp_all
  show "t' = t\<lparr>t_fd := None, t_ctx := False, t_ssl := False\<rparr>" "p_open p' = freed t p" unfolding t by simp_all
  show "moves pl t p t' p'" using assms(1) unfolding t by (simp add: moves_def counted_def)
qed

lemma handshake_moves:
  assumes "p_open p0 n = None" "p_open p = (p_open p0)(n := Some d)" "ready pl d" "t_fd t = None" "\<not> t_ctx t" "\<not> t_ssl t"
    and "p_contexts p = p_contexts p0" "p_sessions p = p_sessions p0" "p_connects p = p_connects p0 @ replicate k True"
    and "p_sigpipe p = p_sigpipe p0" "transport_handshake pl h ms n setup (t\<lparr>t_fd := Some n\<rparr>) p = (r, t', p')"
  shows "moves pl t p0 t' p'"
proof -
  have shut: "(p_open p0)(n := None) = p_open p0" using assms(1) by auto
  have closed: "moves pl t p0 (t\<lparr>t_fd := None, t_ctx := False, t_ssl := False\<rparr>) (snd (transport_close t1 p1))"
    if "t_fd t1 = Some n" "p_contexts p1 = p_contexts p + of_bool (t_ctx t1)"
      "p_sessions p1 = p_sessions p + of_bool (t_ssl t1)" "p_connects p1 = p_connects p" "p_sigpipe p1 = p_sigpipe p"
      "(p_open p1)(n := None) = p_open p0" for t1 p1
    using that assms(4-10) by (simp add: moves_def freed_def)
  have r: "ready pl (d\<lparr>d_recv_timeout := w\<rparr>)" for w using assms(3) by (simp add: ready_def)
  let ?h = "transport_handshake pl h ms n setup (t\<lparr>t_fd := Some n\<rparr>) p"
  have t: "t' = fst (snd ?h)" "p' = snd (snd ?h)" using assms(11) by simp_all
  consider "\<not> gives_context setup" | "gives_context setup" "\<not> gives_session setup"
    | e where "gives_context setup" "gives_session setup" "handshake setup (ssl_config_for (t_checks t) setup h) = Some e"
    | "gives_context setup" "gives_session setup" "handshake setup (ssl_config_for (t_checks t) setup h) = None" by fast
  then show ?thesis
  proof cases
    case 4
    then show ?thesis
      unfolding t using assms(1,2,4-10) r
      by (simp add: transport_handshake_def set_recv_timeout_def moves_def freed_def Let_def) blast
  qed (unfold t, use assms(2,5,6) shut in
      \<open>auto simp: transport_handshake_def set_recv_timeout_def Let_def intro!: closed\<close>)
qed

lemma connect_moves:
  assumes "platform_ok pl" "fresh_choice new_fd" "finite (dom (p_open p))" "counted t p"
    and "transport_connect pl new_fd h pn ms dl t p = (r, t', p')"
  shows "moves pl t p t' p'"
proof -
  obtain t0 p0 where c: "transport_close t p = (t0, p0)" by fastforce
  note close = close_moves [OF assms(4) c]
  have t0: "t_fd t0 = None" "\<not> t_ctx t0" "\<not> t_ssl t0" "t_tls t0 = t_tls t" using close(2) by simp_all
  obtain x p1 where x: "dial_socket pl new_fd h pn ms (dial_resolution dl) p0 = (x, p1)" by fastforce
  have "finite (dom (p_open p0))" using assms(3) by (auto simp: close(3) freed_def split: option.split)
  then have d: "dialled pl p0 x p1" using dial_socket_dialled [OF assms(1,2) _ x] by simp
  have step: "moves pl t p t2 p2" if "moves pl t0 p0 t2 p2" for t2 p2
  proof -
    have "freed t0 p0 = freed t p" using t0(1) close(3) by (simp add: freed_def)
    moreover obtain k where "p_connects p0 = p_connects p @ replicate k True" "p_sigpipe p0 = p_sigpipe p"
        "p_contexts p0 + of_bool (t_ctx t) = p_contexts p" "p_sessions p0 + of_bool (t_ssl t) = p_sessions p"
      using close(1) t0 by (auto simp: moves_def)
    ultimately show ?thesis
      using that t0 by (auto simp: moves_def simp flip: replicate_add split: option.splits)
  qed
  show ?thesis
  proof (cases x)
    case (Inl e)
    then have "moves pl t0 p0 t0 p1" using d t0 by (simp add: dialled_def moves_def freed_def)
    then show ?thesis using step assms(5) c x Inl by (auto simp: transport_connect_def)
  next
    case (Inr n)
    obtain e k where e: "p_open p0 n = None" "p_open p1 = (p_open p0)(n := Some e)" "ready pl e"
        "p_contexts p1 = p_contexts p0" "p_sessions p1 = p_sessions p0" "p_connects p1 = p_connects p0 @ replicate k True"
        "p_sigpipe p1 = p_sigpipe p0"
      using d Inr by (auto simp: dialled_def)
    show ?thesis
    proof (cases "t_tls t")
      case True
      then have "transport_handshake pl h ms n (dial_ssl dl) (t0\<lparr>t_fd := Some n\<rparr>) p1 = (r, t', p')"
        using assms(5) c x Inr by (simp add: transport_connect_def Let_def)
      then show ?thesis using handshake_moves [OF e(1-3) t0(1-3) e(4-7)] step by blast
    next
      case False
      then have "t' = t0\<lparr>t_fd := Some n\<rparr>" "p' = p1" using assms(5) c x Inr by (auto simp: transport_connect_def Let_def)
      moreover have "moves pl t0 p0 (t0\<lparr>t_fd := Some n\<rparr>) p1" using e t0 by (auto simp: moves_def freed_def)
      ultimately show ?thesis using step by blast
    qed
  qed
qed

section \<open>All transports of the process\<close>

definition holder :: "transport list \<Rightarrow> nat \<Rightarrow> nat \<Rightarrow> bool" where
  "holder ts i n \<longleftrightarrow> i < length ts \<and> t_fd (ts ! i) = Some n"

text \<open>
  The open descriptors are those of before and one for each connected transport, ready for use; the objects of
  OpenSSL are those the transports hold.
\<close>

definition accounted :: "platform \<Rightarrow> (nat \<Rightarrow> descriptor option) \<Rightarrow> transport list \<Rightarrow> process \<Rightarrow> bool" where
  "accounted pl base ts p \<longleftrightarrow>
     (\<forall>n. if \<exists>i. holder ts i n then base n = None \<and> (\<exists>d. p_open p n = Some d \<and> ready pl d) else p_open p n = base n)
     \<and> (\<forall>i j n. holder ts i n \<longrightarrow> holder ts j n \<longrightarrow> i = j)
     \<and> p_contexts p = (\<Sum>t\<leftarrow>ts. of_bool (t_ctx t)) \<and> p_sessions p = (\<Sum>t\<leftarrow>ts. of_bool (t_ssl t))
     \<and> False \<notin> set (p_connects p)"

lemma accounted_finite:
  assumes "accounted pl base ts p" "finite (dom base)"
  shows "finite (dom (p_open p))"
proof -
  have "dom (p_open p) \<subseteq> dom base \<union> (\<lambda>i. the (t_fd (ts ! i))) ` {..<length ts}"
  proof
    fix n assume n: "n \<in> dom (p_open p)"
    show "n \<in> dom base \<union> (\<lambda>i. the (t_fd (ts ! i))) ` {..<length ts}"
    proof (cases "\<exists>i. holder ts i n")
      case True
      then obtain i where "i < length ts" "t_fd (ts ! i) = Some n" by (auto simp: holder_def)
      then show ?thesis by (intro UnI2 image_eqI [of _ _ i]) simp_all
    next
      case False
      then have "p_open p n = base n" using assms(1) by (simp add: accounted_def)
      then show ?thesis using n by auto
    qed
  qed
  then show ?thesis by (rule finite_subset) (simp add: assms(2))
qed

lemma accounted_counted:
  assumes "accounted pl base ts p" "i < length ts"
  shows "counted (ts ! i) p"
proof -
  have "f (ts ! i) \<le> (\<Sum>t\<leftarrow>ts. f t)" for f :: "transport \<Rightarrow> nat"
    using assms(2) elem_le_sum_list [of i "map f ts"] by simp
  from this [of "\<lambda>t. of_bool (t_ctx t)"] this [of "\<lambda>t. of_bool (t_ssl t)"] show ?thesis
    using assms(1) unfolding counted_def accounted_def by metis
qed

lemma holder_update: "i < length ts \<Longrightarrow> holder (ts[i := t']) j n \<longleftrightarrow> (if j = i then t_fd t' = Some n else holder ts j n)"
  by (auto simp: holder_def)

lemma moves_accounted:
  assumes "accounted pl base ts p" "i < length ts" "moves pl (ts ! i) p t' p'"
  shows "accounted pl base (ts[i := t']) p'"
proof -
  let ?t = "ts ! i"
  have own: "t_fd ?t = Some n \<longleftrightarrow> holder ts i n" for n using assms(2) by (simp add: holder_def)
  have unique: "holder ts i n \<Longrightarrow> holder ts j n \<Longrightarrow> j = i" for j n using assms(1) by (auto simp: accounted_def)
  have others: "(\<exists>j. j \<noteq> i \<and> holder ts j n) \<longleftrightarrow> (\<exists>j. holder ts j n) \<and> \<not> holder ts i n" for n using unique by metis
  have freed: "if \<exists>j. j \<noteq> i \<and> holder ts j n then base n = None \<and> (\<exists>d. freed ?t p n = Some d \<and> ready pl d) else freed ?t p n = base n" for n
  proof -
    have "freed ?t p n = (if holder ts i n then None else p_open p n)"
      by (auto simp: freed_def own [symmetric] split: option.split)
    moreover have "if \<exists>j. holder ts j n then base n = None \<and> (\<exists>d. p_open p n = Some d \<and> ready pl d) else p_open p n = base n"
      using assms(1) by (simp add: accounted_def)
    ultimately show ?thesis unfolding others by (auto split: if_splits)
  qed
  have now: "(\<exists>j. holder (ts[i := t']) j n) \<longleftrightarrow> t_fd t' = Some n \<or> (\<exists>j. j \<noteq> i \<and> holder ts j n)" for n
    using holder_update [OF assms(2)] by auto
  have new: "t_fd t' = Some n \<Longrightarrow> freed ?t p n = None \<and> (\<exists>d. p_open p' = (freed ?t p)(n := Some d) \<and> ready pl d)"
    "t_fd t' = None \<Longrightarrow> p_open p' = freed ?t p" for n
    using assms(3) by (simp_all add: moves_def)
  have free: "t_fd t' = Some n \<Longrightarrow> \<not> (\<exists>j. j \<noteq> i \<and> holder ts j n)" for n
    using freed [of n] new(1) [of n] by (auto split: if_splits)
  have "if \<exists>j. holder (ts[i := t']) j n then base n = None \<and> (\<exists>d. p_open p' n = Some d \<and> ready pl d) else p_open p' n = base n" for n
  proof (cases "t_fd t'")
    case None
    then show ?thesis using freed [of n] new(2) by (simp add: now)
  next
    case (Some m)
    then obtain d where "freed ?t p m = None" "p_open p' = (freed ?t p)(m := Some d)" "ready pl d" using new(1) by blast
    then show ?thesis using freed [of n] free [of m] Some by (cases "n = m") (auto simp: now split: if_splits)
  qed
  moreover have "holder (ts[i := t']) j n \<Longrightarrow> holder (ts[i := t']) k n \<Longrightarrow> j = k" for j k n
    using free [of n] assms(1) by (auto simp: holder_update [OF assms(2)] accounted_def split: if_splits)
  moreover have "p_contexts p' = (\<Sum>t\<leftarrow>ts[i := t']. of_bool (t_ctx t))" "p_sessions p' = (\<Sum>t\<leftarrow>ts[i := t']. of_bool (t_ssl t))"
    using assms(1,3) sum_list_update [OF assms(2), of "\<lambda>t. of_bool (t_ctx t)" t']
      sum_list_update [OF assms(2), of "\<lambda>t. of_bool (t_ssl t)" t'] by (simp_all add: moves_def accounted_def)
  moreover have "False \<notin> set (p_connects p')" using assms(1,3) by (auto simp: moves_def accounted_def)
  ultimately show ?thesis unfolding accounted_def by blast
qed

lemma use_accounted:
  assumes "platform_ok pl" "fresh_choice new_fd" "finite (dom base)" "accounted pl base (fst st) (snd st)"
  shows "accounted pl base (fst (use_transport pl new_fd u st)) (snd (use_transport pl new_fd u st))
    \<and> p_sigpipe (snd (use_transport pl new_fd u st)) = p_sigpipe (snd st)"
proof -
  obtain ts p where st: "st = (ts, p)" by fastforce
  with assms(4) have acc: "accounted pl base ts p" by simp
  show ?thesis
  proof (cases u)
    case (Make tls checks)
    let ?t = "\<lparr>t_tls = tls, t_checks = checks, t_fd = None, t_ctx = False, t_ssl = False\<rparr>"
    have "holder (ts @ [?t]) i n = holder ts i n" for i n by (auto simp: holder_def nth_append)
    then have "accounted pl base (ts @ [?t]) p" using acc by (simp add: accounted_def)
    then show ?thesis using acc by (simp add: use_transport_def Make st)
  next
    case (Connect i h pn ms dl)
    obtain r t' p' where c: "transport_connect pl new_fd h pn ms dl (ts ! i) p = (r, t', p')" by (metis prod_cases3)
    show ?thesis
    proof (cases "i < length ts")
      case True
      have m: "moves pl (ts ! i) p t' p'"
        using connect_moves [OF assms(1,2) accounted_finite [OF acc assms(3)] accounted_counted [OF acc True] c] .
      show ?thesis
        using moves_accounted [OF acc True m] m True c by (simp add: use_transport_def Connect st moves_def)
    qed (use acc in \<open>simp add: use_transport_def Connect st\<close>)
  next
    case (Close i)
    obtain t' p' where c: "transport_close (ts ! i) p = (t', p')" by fastforce
    show ?thesis
    proof (cases "i < length ts")
      case True
      note m = close_moves(1) [OF accounted_counted [OF acc True] c, of pl]
      show ?thesis using moves_accounted [OF acc True m] m True c by (simp add: use_transport_def Close st moves_def)
    qed (use acc in \<open>simp add: use_transport_def Close st\<close>)
  qed
qed

definition use_all :: "platform \<Rightarrow> fd_choice \<Rightarrow> use list \<Rightarrow> process \<Rightarrow> transport list \<times> process" where
  "use_all pl new_fd us p = fold (use_transport pl new_fd) us ([], p)"

definition fresh_process :: "process \<Rightarrow> bool" where
  "fresh_process p \<longleftrightarrow> finite (dom (p_open p)) \<and> p_connects p = [] \<and> p_contexts p = 0 \<and> p_sessions p = 0"

lemma uses_accounted:
  assumes "platform_ok pl" "fresh_choice new_fd" "fresh_process p" "use_all pl new_fd us p = (ts, p')"
  shows "accounted pl (p_open p) ts p' \<and> p_sigpipe p' = p_sigpipe p"
proof -
  have "accounted pl (p_open p) (fst (fold (use_transport pl new_fd) us st)) (snd (fold (use_transport pl new_fd) us st))
      \<and> p_sigpipe (snd (fold (use_transport pl new_fd) us st)) = p_sigpipe p"
    if "accounted pl (p_open p) (fst st) (snd st)" "p_sigpipe (snd st) = p_sigpipe p" for st
    using that
  proof (induction us arbitrary: st)
    case (Cons u us)
    show ?case
      using Cons.IH [of "use_transport pl new_fd u st"] use_accounted [OF assms(1,2) _ Cons.prems(1), of u] Cons.prems(2) assms(3)
      by (simp add: fresh_process_def)
  qed simp
  moreover have "accounted pl (p_open p) [] p"
    using assms(3) by (simp add: fresh_process_def accounted_def holder_def)
  ultimately show ?thesis using assms(4) by (force simp: use_all_def)
qed

section \<open>The properties\<close>

text \<open>
  C18
  No descriptor leaks: whatever transports are made, connected, connected again and closed, in any order and
  whatever each attempt comes to, the open descriptors are those the process had before, untouched, and one for
  each connected transport, no two sharing one; no context or session of OpenSSL is left behind either. Every
  descriptor in use blocks again and has its options and its send timeout, and no \<^verbatim>\<open>connect\<close> was called on
  one that blocks.
\<close>

theorem no_descriptor_leaks:
  assumes "platform_ok pl" "fresh_choice new_fd" "fresh_process p" "use_all pl new_fd us p = (ts, p')"
  shows "(if \<exists>i < length ts. t_fd (ts ! i) = Some n
          then p_open p n = None \<and> (\<exists>d. p_open p' n = Some d \<and> ready pl d)
          else p_open p' n = p_open p n)
    \<and> (\<forall>i j. i < length ts \<and> j < length ts \<and> t_fd (ts ! i) = Some n \<and> t_fd (ts ! j) = Some n \<longrightarrow> i = j)
    \<and> p_contexts p' = (\<Sum>t\<leftarrow>ts. of_bool (t_ctx t)) \<and> p_sessions p' = (\<Sum>t\<leftarrow>ts. of_bool (t_ssl t))
    \<and> False \<notin> set (p_connects p')"
  using uses_accounted [OF assms] unfolding accounted_def holder_def by (simp only: conj_assoc) blast

text \<open>
  C19
  A peer that has gone away does not take the game server down: after \<^verbatim>\<open>HttpGlobalInit\<close>, a write on any
  transport to a closed connection fails without ending the process, where the system can suppress
  SIGPIPE for a call or a socket, or the plugin is built with TLS. A handler the server had installed is kept.
\<close>

theorem broken_pipes_do_not_kill:
  assumes "platform_ok pl" "fresh_choice new_fd" "fresh_process p" "msg_nosignal pl \<or> so_nosigpipe pl \<or> with_tls pl"
    and "use_all pl new_fd us (http_global_init pl p) = (ts, p')" "t \<in> set ts" "t_tls t \<longrightarrow> with_tls pl"
  shows "\<not> write_kills pl t p' \<and> (p_sigpipe p \<noteq> DefaultAction \<longrightarrow> p_sigpipe p' = p_sigpipe p)"
proof -
  let ?p = "http_global_init pl p"
  have "fresh_process ?p" using assms(3) by (simp add: fresh_process_def http_global_init_def Let_def)
  from uses_accounted [OF assms(1,2) this assms(5)]
  have acc: "accounted pl (p_open ?p) ts p'" and sig: "p_sigpipe p' = p_sigpipe ?p" by simp_all
  have kept: "p_sigpipe p \<noteq> DefaultAction \<longrightarrow> p_sigpipe ?p = p_sigpipe p" by (simp add: http_global_init_def Let_def)
  have default: "windows pl \<or> so_nosigpipe pl \<or> \<not> with_tls pl" if "p_sigpipe ?p = DefaultAction"
    using that by (auto simp: http_global_init_def Let_def split: if_splits)
  have "\<not> write_kills pl t p'"
  proof (cases "t_fd t")
    case (Some n)
    then obtain i where "holder ts i n" using assms(6) by (auto simp: holder_def in_set_conv_nth)
    then obtain d where "p_open p' n = Some d" "ready pl d" using acc unfolding accounted_def by metis
    then show ?thesis using default assms(4,7) Some sig by (auto simp: write_kills_def send_is_silent_def ready_def)
  qed (simp add: write_kills_def)
  then show ?thesis using kept sig by simp
qed

text \<open>The two models of a handshake, with what is left of the transport.\<close>

definition agree :: "string option \<times> transport \<Rightarrow> string option \<times> sock \<Rightarrow> bool" where
  "agree a b \<longleftrightarrow> fst a = fst b \<and> (t_fd (snd a) \<noteq> None \<longleftrightarrow> fd (snd b)) \<and> t_tls (snd a) = over_tls (snd b)
     \<and> (over_tls (snd b) \<longrightarrow> (t_ctx (snd a) \<longleftrightarrow> ssl_context (snd b)) \<and> (t_ssl (snd a) \<longleftrightarrow> ssl_session (snd b) \<noteq> None))"

lemma agree_closed: "t_tls t = over_tls s \<Longrightarrow> agree (r, t\<lparr>t_fd := None, t_ctx := False, t_ssl := False\<rparr>) (r, sock_close s)"
  by (simp add: agree_def sock_close_def tls_close_def plain_close_def Let_def)

lemma agree_handshake:
  assumes "t_checks t = checks_hosts s" "t_fd t \<noteq> None" "fd s" "t_tls t" "over_tls s"
  shows "agree (apsnd fst (transport_handshake pl h ms n setup t p)) (tls_handshake h ms setup s)"
proof -
  show ?thesis
  proof (cases "gives_context setup \<and> gives_session setup \<and> handshake setup (ssl_config_for (checks_hosts s) setup h) = None")
    case True
    then show ?thesis using assms by (simp add: transport_handshake_def tls_handshake_def agree_def Let_def)
  next
    case False
    then show ?thesis
      unfolding transport_handshake_def tls_handshake_def Let_def
      using assms by (auto intro!: agree_closed split: option.split)
  qed
qed

text \<open>
  The transports over descriptors do what the transports of the connection model do: the same error or
  success, and connected or not in the same way.
\<close>

lemma sockets_refine_transports:
  assumes "dials s = dl # ds" "t_tls t = over_tls s" "t_checks t = checks_hosts s"
    and "transport_connect pl new_fd h pn ms dl t p = (r, t', p')" "sock_connect h pn ms s = (r', s')"
  shows "r = r' \<and> (t_fd t' \<noteq> None \<longleftrightarrow> fd s') \<and> t_tls t' = over_tls s'
    \<and> (over_tls s' \<longrightarrow> (t_ctx t' \<longleftrightarrow> ssl_context s') \<and> (t_ssl t' \<longleftrightarrow> ssl_session s' \<noteq> None))"
proof -
  obtain t0 p0 where c: "transport_close t p = (t0, p0)" by fastforce
  have t0: "t0 = t\<lparr>t_fd := None, t_ctx := False, t_ssl := False\<rparr>" using c by (simp add: transport_close_def Let_def)
  obtain x p1 where x: "dial_socket pl new_fd h pn ms (dial_resolution dl) p0 = (x, p1)" by fastforce
  have same: "dial_tcp h pn (dial_resolution dl) = (case x of Inl e \<Rightarrow> Inl e | Inr n \<Rightarrow> Inr ())"
    using dial_socket_tcp [of pl new_fd h pn ms "dial_resolution dl" p0] x by simp
  note close = sock_close_def tls_close_def plain_close_def
  have "agree (r, t') (r', s')"
  proof (cases x)
    case (Inl e)
    then show ?thesis
      using assms c x same t0
      by (auto simp: agree_def transport_connect_def sock_connect_def tls_connect_def plain_connect_def Let_def close)
  next
    case (Inr n)
    let ?s = "(sock_close s)\<lparr>fd := True, recv_timeout := -1, incoming := dial_incoming dl, sending := dial_sending dl,
      cut_after := dial_cut dl, shut_down := False, dials := ds, wire := wire s @ [[]]\<rparr>"
    have plain: "plain_connect h pn s = (None, ?s)"
      using assms(1) same Inr by (simp add: plain_connect_def Let_def)
    have start: "transport_connect pl new_fd h pn ms dl t p =
        (if t_tls t then transport_handshake pl h ms n (dial_ssl dl) (t0\<lparr>t_fd := Some n\<rparr>) p1 else (None, t0\<lparr>t_fd := Some n\<rparr>, p1))"
      using c x Inr by (simp add: transport_connect_def Let_def)
    show ?thesis
    proof (cases "over_tls s")
      case True
      have "tls_handshake h ms (dial_ssl dl) ?s = (r', s')"
        using assms(1,5) plain True by (simp add: sock_connect_def tls_connect_def)
      moreover have "checks_hosts (sock_close s) = checks_hosts s" by (simp add: close)
      ultimately show ?thesis
        using agree_handshake [of "t0\<lparr>t_fd := Some n\<rparr>" ?s pl h ms n "dial_ssl dl" p1] assms(2-4) start True t0 by simp
    next
      case False
      then show ?thesis using assms(2,4,5) plain start t0 by (auto simp: agree_def sock_connect_def)
    qed
  qed
  then show ?thesis by (simp add: agree_def)
qed

section \<open>A run on Linux\<close>

definition linux :: platform where
  "linux = \<lparr>windows = False, with_tls = True, msg_nosignal = True, so_nosigpipe = False, openssl_1_0 = False, keep_idle = True,
     keep_interval = True, keep_count = True, nonblock_bit = 2048, fresh_flags = 2\<rparr>"

definition lowest_free :: fd_choice where
  "lowest_free opn = (LEAST n. opn n = None)"

lemma lowest_free_fresh: "fresh_choice lowest_free"
  unfolding fresh_choice_def lowest_free_def
proof (intro allI impI)
  fix opn :: "nat \<Rightarrow> descriptor option"
  assume "finite (dom opn)"
  then obtain n where "n \<notin> dom opn" using infinite_UNIV_nat ex_new_if_finite by blast
  then have "opn n = None" by auto
  then show "opn (LEAST n. opn n = None) = None" by (rule LeastI)
qed

lemma lowest_free_zero: "opn 0 = None \<Longrightarrow> lowest_free opn = 0"
  by (simp add: lowest_free_def Least_eq_0)

definition idle_process :: process where
  "idle_process = \<lparr>p_open = (\<lambda>_. None), p_connects = [], p_sigpipe = DefaultAction, p_winsock = 0, p_ssl_loaded = False,
     p_contexts = 0, p_sessions = 0\<rparr>"

lemma linux_ok: "platform_ok linux" "fresh_process idle_process" "fresh_process (http_global_init linux idle_process)"
  by (simp_all add: platform_ok_def linux_def fresh_process_def idle_process_def http_global_init_def)

text \<open>The first address refuses, the second one answers.\<close>

definition two_addresses :: dial where
  "two_addresses = good_dial\<lparr>dial_resolution := Addresses (SelectReady False) [ConnectedNow]\<rparr>"

definition example_run :: "transport list \<times> process" where
  "example_run = use_all linux lowest_free [Make True True, Connect 0 ''radio'' 443 5000 two_addresses]
     (http_global_init linux idle_process)"

lemma two_dials:
  fixes p defines "q \<equiv> attempted linux lowest_free (close_fd 0 (attempted linux lowest_free p))"
  assumes "p_open p = (\<lambda>_. None)"
  shows "dial_socket linux lowest_free h pn ms (dial_resolution two_addresses) p = (Inr 0, prepare_socket linux 0 ms q)"
    "p_connects q = p_connects p @ [True, True]" "p_sigpipe q = p_sigpipe p"
  using assms(2)
  by (simp_all add: q_def two_addresses_def dial_socket_def dial_loop_Cons lowest_free_zero close_fd_def attempted_fields linux_ok)

lemma example_run_fields:
  "length (fst example_run) = 1" "t_fd (fst example_run ! 0) = Some 0" "t_tls (fst example_run ! 0)"
  "p_connects (snd example_run) = [True, True]" "p_sigpipe (snd example_run) = Ignored"
proof -
  let ?p = "http_global_init linux idle_process" and ?t = "\<lparr>t_tls = True, t_checks = True, t_fd = None, t_ctx = False, t_ssl = False\<rparr>"
  have p: "p_open ?p = (\<lambda>_. None)" "p_connects ?p = []" "p_sigpipe ?p = Ignored"
    by (simp_all add: http_global_init_def linux_def idle_process_def)
  have closed: "transport_close ?t ?p = (?t, ?p)" by (simp add: transport_close_def)
  have "c_str ''radio'' = ''radio''" by code_simp
  then have "\<exists>p2. transport_connect linux lowest_free ''radio'' 443 5000 two_addresses ?t ?p
      = (None, ?t\<lparr>t_fd := Some 0, t_ctx := True, t_ssl := True\<rparr>, p2) \<and> p_connects p2 = [True, True] \<and> p_sigpipe p2 = Ignored"
    unfolding transport_connect_def closed
    using two_dials(2,3) [OF p(1)] p(2,3)
    by (simp add: two_dials(1) [OF p(1)] transport_handshake_def set_recv_timeout_def Let_def ssl_config_for_def)
      (simp add: two_addresses_def good_dial_def)
  moreover have "with_tls linux" by (simp add: linux_def)
  ultimately show "length (fst example_run) = 1" "t_fd (fst example_run ! 0) = Some 0" "t_tls (fst example_run ! 0)"
    "p_connects (snd example_run) = [True, True]" "p_sigpipe (snd example_run) = Ignored"
    by (auto simp: example_run_def use_all_def use_transport_def)
qed

lemma no_descriptor_leaks_witness:
  "(\<exists>d. p_open (snd example_run) 0 = Some d \<and> ready linux d) \<and> p_open (snd example_run) 1 = None"
proof -
  have run: "use_all linux lowest_free [Make True True, Connect 0 ''radio'' 443 5000 two_addresses]
      (http_global_init linux idle_process) = (fst example_run, snd example_run)"
    by (simp add: example_run_def)
  note leaks = no_descriptor_leaks [OF linux_ok(1) lowest_free_fresh linux_ok(3) run]
  from leaks [of 0] leaks [of 1] show ?thesis
    by (auto simp: example_run_fields http_global_init_def idle_process_def linux_def Let_def split: if_splits)
qed

lemma broken_pipes_do_not_kill_witness:
  "\<not> write_kills linux (fst example_run ! 0) (snd example_run)"
proof -
  have run: "use_all linux lowest_free [Make True True, Connect 0 ''radio'' 443 5000 two_addresses]
      (http_global_init linux idle_process) = (fst example_run, snd example_run)"
    by (simp add: example_run_def)
  have "fst example_run ! 0 \<in> set (fst example_run)" by (simp add: example_run_fields)
  with broken_pipes_do_not_kill [OF linux_ok(1) lowest_free_fresh linux_ok(2) _ run] show ?thesis by (simp add: linux_def)
qed

lemma sockets_refine_transports_witness:
  "fst (transport_connect linux lowest_free ''radio'' 443 5000 good_dial
      \<lparr>t_tls = True, t_checks = True, t_fd = None, t_ctx = False, t_ssl = False\<rparr> idle_process)
    = fst (sock_connect ''radio'' 443 5000 secure_sock)"
proof -
  let ?c = "transport_connect linux lowest_free ''radio'' 443 5000 good_dial
      \<lparr>t_tls = True, t_checks = True, t_fd = None, t_ctx = False, t_ssl = False\<rparr> idle_process"
  have "?c = (fst ?c, fst (snd ?c), snd (snd ?c))" by simp
  from sockets_refine_transports [OF _ _ _ this, of secure_sock "[]"] show ?thesis
    by (simp add: secure_sock_def quiet_sock_def prod_eq_iff)
qed

end
