(* ===== verification/Server_Config.thy ===== *)
theory Server_Config
  imports Cstdlib
begin

text \<open>
  \<^verbatim>\<open>ManagerConfig\<close> of src/manager.h and \<^verbatim>\<open>ReadServerCfg\<close> of src/serverconfig.cpp. The file is
  the string of its bytes, \<open>None\<close> when it cannot be opened.
\<close>

record manager_config =
  cfg_url :: string
  cfg_token :: string
  poll_interval_ms :: int
  timeout_ms :: int
  workers :: int

definition default_config :: manager_config where
  "default_config = \<lparr>cfg_url = ''http://127.0.0.1:9090'', cfg_token = [], poll_interval_ms = 5000,
     timeout_ms = 10000, workers = 2\<rparr>"

definition connection_differs :: "manager_config \<Rightarrow> manager_config \<Rightarrow> bool" where
  "connection_differs c d \<longleftrightarrow> cfg_url c \<noteq> cfg_url d \<or> cfg_token c \<noteq> cfg_token d
     \<or> timeout_ms c \<noteq> timeout_ms d \<or> workers c \<noteq> workers d"

section \<open>Lines\<close>

definition is_cfg_blank :: "char \<Rightarrow> bool" where
  "is_cfg_blank c \<longleftrightarrow> c = CHR '' '' \<or> c = CHR 0x09 \<or> c = CHR 0x0D"

definition trim :: "string \<Rightarrow> string" where
  "trim s = rev (dropWhile is_cfg_blank (rev (dropWhile is_cfg_blank s)))"

text \<open>\<^verbatim>\<open>std::getline\<close> until the end of the file: a last line without a newline counts.\<close>

function file_lines :: "string \<Rightarrow> string list" where
  "file_lines s =
     (if s = [] then []
      else takeWhile (\<lambda>c. c \<noteq> CHR ''\<newline>'') s #
           file_lines (tl (dropWhile (\<lambda>c. c \<noteq> CHR ''\<newline>'') s)))"
  by pat_completeness auto
termination
proof (relation "measure length", goal_cases)
  case (2 s)
  then show ?case
    using length_dropWhile_le [of "\<lambda>c. c \<noteq> CHR ''\<newline>''" s]
    by (cases s) (auto simp: le_imp_less_Suc)
qed simp

declare file_lines.simps [simp del]

text \<open>The key and value of a line the loop does not skip.\<close>

definition cfg_setting :: "string \<Rightarrow> (string \<times> string) option" where
  "cfg_setting raw =
     (let line = trim raw in
      if line = [] \<or> hd line = CHR ''#'' \<or> hd line = CHR '';'' then None
      else case find_first_of [CHR '' '', CHR 0x09] line of
             None \<Rightarrow> None
           | Some sp \<Rightarrow>
               if starts_with ''goradio_'' (take sp line)
               then Some (take sp line, trim (drop (Suc sp) line))
               else None)"

definition cfg_apply :: "nat \<Rightarrow> string \<times> string \<Rightarrow> manager_config \<times> bool \<Rightarrow> manager_config \<times> bool" where
  "cfg_apply lb kv st =
     (case kv of (key, val) \<Rightarrow> case st of (c, debug) \<Rightarrow>
        if key = ''goradio_url'' then (c\<lparr>cfg_url := val\<rparr>, debug)
        else if key = ''goradio_token'' then (c\<lparr>cfg_token := val\<rparr>, debug)
        else if key = ''goradio_poll_interval'' then
          (c\<lparr>poll_interval_ms := to_int32 (atoi lb val * 1000)\<rparr>, debug)
        else if key = ''goradio_workers'' then (c\<lparr>workers := atoi lb val\<rparr>, debug)
        else if key = ''goradio_timeout'' then (c\<lparr>timeout_ms := atoi lb val\<rparr>, debug)
        else if key = ''goradio_debug'' then (c, atoi lb val \<noteq> 0)
        else (c, debug))"

fun cfg_loop :: "nat \<Rightarrow> string list \<Rightarrow> bool \<Rightarrow> manager_config \<times> bool \<Rightarrow> bool \<times> manager_config \<times> bool" where
  "cfg_loop lb [] found st = (found, st)"
| "cfg_loop lb (l # ls) found st =
     (case cfg_setting l of
        None \<Rightarrow> cfg_loop lb ls found st
      | Some kv \<Rightarrow> cfg_loop lb ls True (cfg_apply lb kv st))"

definition read_server_cfg :: "nat \<Rightarrow> string option \<Rightarrow> manager_config \<times> bool \<Rightarrow> bool \<times> manager_config \<times> bool" where
  "read_server_cfg lb file st =
     (case file of
        None \<Rightarrow> (False, st)
      | Some s \<Rightarrow> cfg_loop lb (file_lines s) False st)"

section \<open>Trimming\<close>

lemma trim_Nil [simp]: "trim [] = []"
  by (simp add: trim_def)

lemma trim_ends: "trim s \<noteq> [] \<Longrightarrow> \<not> is_cfg_blank (hd (trim s)) \<and> \<not> is_cfg_blank (last (trim s))"
proof -
  let ?t = "dropWhile is_cfg_blank s"
  assume ne: "trim s \<noteq> []"
  then have t: "?t \<noteq> []" unfolding trim_def by (metis dropWhile.simps(1) rev.simps(1))
  have "\<not> is_cfg_blank (last (trim s))"
    using ne hd_dropWhile [of is_cfg_blank "rev ?t"] by (simp add: trim_def last_rev)
  moreover obtain p where "?t = trim s @ p"
    by (metis rev_append rev_rev_ident takeWhile_dropWhile_id trim_def)
  then have "hd (trim s) = hd ?t" using ne by simp
  then have "\<not> is_cfg_blank (hd (trim s))" using hd_dropWhile [OF t] by simp
  ultimately show ?thesis by simp
qed

lemma trim_snoc_blank: "is_cfg_blank c \<Longrightarrow> trim (s @ [c]) = trim s"
  by (cases "\<forall>x \<in> set s. is_cfg_blank x") (auto simp: trim_def dropWhile_append dest: set_dropWhileD)

lemma trim_idem: "trim (trim s) = trim s"
proof (cases "trim s = []")
  case False
  then have "dropWhile is_cfg_blank (trim s) = trim s" "dropWhile is_cfg_blank (rev (trim s)) = rev (trim s)"
    using trim_ends [OF False] by (auto intro!: dropWhile_stop simp: hd_rev)
  then show ?thesis by (simp add: trim_def [of "trim s"])
qed simp

section \<open>The last setting of a key wins\<close>

definition cfg_settings :: "string list \<Rightarrow> (string \<times> string) list" where
  "cfg_settings ls = concat (map (\<lambda>l. case cfg_setting l of None \<Rightarrow> [] | Some kv \<Rightarrow> [kv]) ls)"

definition last_setting :: "(string \<times> string) list \<Rightarrow> string \<Rightarrow> (string \<Rightarrow> 'a) \<Rightarrow> 'a \<Rightarrow> 'a" where
  "last_setting kvs k f d = (case map_of (rev kvs) k of None \<Rightarrow> d | Some v \<Rightarrow> f v)"

lemma cfg_loop_fold:
  "cfg_loop lb ls found st =
     (found \<or> cfg_settings ls \<noteq> [], fold (cfg_apply lb) (cfg_settings ls) st)"
  by (induction ls arbitrary: found st) (auto simp: cfg_settings_def split: option.splits)

lemma last_setting_snoc:
  "last_setting (kvs @ [(k', v)]) k f d = (if k' = k then f v else last_setting kvs k f d)"
  by (simp add: last_setting_def)

lemma cfg_fold_last:
  "fold (cfg_apply lb) kvs (c, debug) =
     (c\<lparr>cfg_url := last_setting kvs ''goradio_url'' id (cfg_url c),
        cfg_token := last_setting kvs ''goradio_token'' id (cfg_token c),
        poll_interval_ms := last_setting kvs ''goradio_poll_interval''
          (\<lambda>v. to_int32 (atoi lb v * 1000)) (poll_interval_ms c),
        timeout_ms := last_setting kvs ''goradio_timeout'' (atoi lb) (timeout_ms c),
        workers := last_setting kvs ''goradio_workers'' (atoi lb) (workers c)\<rparr>,
      last_setting kvs ''goradio_debug'' (\<lambda>v. atoi lb v \<noteq> 0) debug)"
proof (induction kvs rule: rev_induct)
  case (snoc kv kvs)
  then show ?case by (cases kv) (simp add: cfg_apply_def last_setting_snoc)
qed (simp add: last_setting_def)

text \<open>
  C39
  Reading \<^verbatim>\<open>server.cfg\<close> yields, for every setting, the value of the last line that sets it and
  the old value when no line does, and reports whether any \<^verbatim>\<open>goradio_\<close> line was there; blank
  lines, comments and other keys have no effect.
\<close>

theorem read_server_cfg_last_wins:
  "read_server_cfg lb (Some s) (c, debug) =
     (let kvs = cfg_settings (file_lines s) in
      (kvs \<noteq> [],
       c\<lparr>cfg_url := last_setting kvs ''goradio_url'' id (cfg_url c),
         cfg_token := last_setting kvs ''goradio_token'' id (cfg_token c),
         poll_interval_ms := last_setting kvs ''goradio_poll_interval''
           (\<lambda>v. to_int32 (atoi lb v * 1000)) (poll_interval_ms c),
         timeout_ms := last_setting kvs ''goradio_timeout'' (atoi lb) (timeout_ms c),
         workers := last_setting kvs ''goradio_workers'' (atoi lb) (workers c)\<rparr>,
       last_setting kvs ''goradio_debug'' (\<lambda>v. atoi lb v \<noteq> 0) debug))"
  by (simp add: read_server_cfg_def cfg_loop_fold cfg_fold_last Let_def)

section \<open>Line endings\<close>

definition unlines :: "string list \<Rightarrow> string" where
  "unlines ls = concat (map (\<lambda>l. l @ [CHR ''\<newline>'']) ls)"

lemma file_lines_unlines:
  "\<forall>l \<in> set ls. CHR ''\<newline>'' \<notin> set l \<Longrightarrow> file_lines (unlines ls) = ls"
proof (induction ls)
  case (Cons l ls)
  let ?nl = "\<lambda>c. c \<noteq> CHR ''\<newline>''"
  have "takeWhile ?nl (l @ CHR ''\<newline>'' # unlines ls) = l"
    "dropWhile ?nl (l @ CHR ''\<newline>'' # unlines ls) = CHR ''\<newline>'' # unlines ls"
    using Cons.prems by (auto intro!: takeWhile_append_stop dropWhile_append_stop)
  then show ?case
    using Cons by (subst file_lines.simps) (auto simp: unlines_def)
qed (simp add: unlines_def file_lines.simps)

lemma cfg_setting_cr: "cfg_setting (l @ [CHR 0x0D]) = cfg_setting l"
  by (simp add: cfg_setting_def trim_snoc_blank is_cfg_blank_def)

text \<open>
  A \<^verbatim>\<open>server.cfg\<close> saved with Windows line endings configures the plugin exactly as the same
  file with Unix ones.
\<close>

lemma read_server_cfg_crlf:
  assumes "\<forall>l \<in> set ls. CHR ''\<newline>'' \<notin> set l"
  shows "read_server_cfg lb (Some (unlines (map (\<lambda>l. l @ [CHR 0x0D]) ls))) st
    = read_server_cfg lb (Some (unlines ls)) st"
proof -
  have "file_lines (unlines (map (\<lambda>l. l @ [CHR 0x0D]) ls)) = map (\<lambda>l. l @ [CHR 0x0D]) ls"
    by (rule file_lines_unlines) (use assms in auto)
  moreover have "cfg_loop lb (map (\<lambda>l. l @ [CHR 0x0D]) ls) f st = cfg_loop lb ls f st" for f
    by (induction ls arbitrary: f st) (auto simp: cfg_setting_cr split: option.splits)
  ultimately show ?thesis by (simp add: read_server_cfg_def file_lines_unlines [OF assms])
qed

lemma read_server_cfg_crlf_witness:
  "read_server_cfg 32 (Some (unlines (map (\<lambda>l. l @ [CHR 0x0D]) [''plugins goradio.so'', ''goradio_workers 4'']))) (default_config, False)
    = read_server_cfg 32 (Some (unlines [''plugins goradio.so'', ''goradio_workers 4''])) (default_config, False)"
  by (rule read_server_cfg_crlf) simp

end
