(* ===== verification/Http.thy ===== *)
theory Http
  imports Tls
begin

text \<open>
  \<^verbatim>\<open>HttpConnection\<close> of src/http.h and src/http.cpp, operation by operation: the buffer and its
  compaction, lines, the status line and headers, the four ways a body can end, and \<^verbatim>\<open>Post\<close>
  with its single retry. \<^verbatim>\<open>buf_\<close> and \<^verbatim>\<open>buf_pos_\<close> are kept as the code has them; \<open>unread\<close> is what
  lies between them. \<open>backlog\<close>, the bytes still to be read and the answers still to come,
  is the measure of every loop.
\<close>

datatype body_mode = BodyNone | BodyLength | BodyChunked | BodyUntilClose

type_synonym header_list = "(string \<times> string) list"

record http_response =
  r_status :: int
  r_headers :: header_list
  r_body :: string

definition empty_response :: http_response where
  "empty_response = \<lparr>r_status = 0, r_headers = [], r_body = []\<rparr>"

fun header_value :: "header_list \<Rightarrow> string \<Rightarrow> string" where
  "header_value [] name = []"
| "header_value ((n, v) # hs) name = (if n = name then v else header_value hs name)"

text \<open>\<open>c_null\<close> is \<open>Some transport_err_\<close> when \<^verbatim>\<open>transport_\<close> is null.\<close>

record conn =
  c_url :: url
  c_timeout :: int
  c_null :: "string option"
  c_sock :: sock
  c_buf :: string
  c_pos :: nat
  c_mode :: body_mode
  c_remaining :: int
  c_need_size :: bool
  c_done :: bool

text \<open>The constructor, over a peer \<open>s\<close> that is not connected yet.\<close>

definition new_conn :: "bool \<Rightarrow> url \<Rightarrow> int \<Rightarrow> sock \<Rightarrow> conn" where
  "new_conn tls u tmo s =
     \<lparr>c_url = u, c_timeout = tmo,
      c_null = (case new_transport tls u of Inl e \<Rightarrow> Some e | Inr _ \<Rightarrow> None),
      c_sock = s\<lparr>over_tls := (new_transport tls u = Inr TlsTransport)\<rparr>, c_buf = [], c_pos = 0, c_mode = BodyNone, c_remaining = 0,
      c_need_size = True, c_done = True\<rparr>"

definition connected :: "conn \<Rightarrow> bool" where
  "connected c \<longleftrightarrow> c_null c = None \<and> fd (c_sock c)"

definition conn_close :: "conn \<Rightarrow> conn" where
  "conn_close c =
     c\<lparr>c_sock := (if c_null c = None then sock_close (c_sock c) else c_sock c),
       c_buf := [], c_pos := 0, c_mode := BodyNone, c_done := True\<rparr>"

definition conn_interrupt :: "conn \<Rightarrow> conn" where
  "conn_interrupt c = (if c_null c = None then c\<lparr>c_sock := sock_interrupt (c_sock c)\<rparr> else c)"

definition ensure_connected :: "conn \<Rightarrow> string option \<times> conn" where
  "ensure_connected c =
     (case c_null c of
        Some e \<Rightarrow> (Some e, c)
      | None \<Rightarrow>
          if fd (c_sock c) then (None, c)
          else case sock_connect (host (c_url c)) (port (c_url c)) (c_timeout c) (c_sock c) of
                 (r, s) \<Rightarrow> (r, c\<lparr>c_buf := [], c_pos := 0, c_sock := s\<rparr>))"

section \<open>Writing a request\<close>

definition crlf :: string where
  "crlf = [CHR 0x0D, CHR 0x0A]"

definition host_header :: "url \<Rightarrow> string" where
  "host_header u =
     (if (secure u \<and> port u = 443) \<or> (\<not> secure u \<and> port u = 80) then host u
      else host u @ '':'' @ dec_int (port u))"

definition request_text :: "nat \<Rightarrow> url \<Rightarrow> string \<Rightarrow> header_list \<Rightarrow> string \<Rightarrow> string" where
  "request_text lb u path hs body =
     ''POST '' @ base_path u @ path @ '' HTTP/1.1'' @ crlf
     @ ''Host: '' @ host_header u @ crlf
     @ ''User-Agent: goradio-samp/1.0'' @ crlf
     @ ''Connection: keep-alive'' @ crlf
     @ ''Content-Length: '' @ dec_nat (length body mod 2 ^ lb) @ crlf
     @ concat (map (\<lambda>(n, v). n @ '': '' @ v @ crlf) hs)
     @ crlf @ body"

definition send_request :: "nat \<Rightarrow> string \<Rightarrow> header_list \<Rightarrow> string \<Rightarrow> conn \<Rightarrow> string option \<times> conn" where
  "send_request lb path hs body c =
     (case sock_send_all (request_text lb (c_url c) path hs body) (c_sock c) of
        (r, s) \<Rightarrow> (r, c\<lparr>c_sock := s\<rparr>))"

section \<open>The buffer\<close>

definition unread :: "conn \<Rightarrow> string" where
  "unread c = drop (c_pos c) (c_buf c)"

definition backlog :: "conn \<Rightarrow> nat" where
  "backlog c = length (unread c) + budget (c_sock c)"

definition fill :: "int \<Rightarrow> conn \<Rightarrow> string rd \<times> conn" where
  "fill tmo c =
     (let c1 = (if c_pos c > 8192 then c\<lparr>c_buf := drop (c_pos c) (c_buf c), c_pos := 0\<rparr> else c) in
      case sock_recv 4096 tmo (c_sock c1) of
        (r, s) \<Rightarrow> (r, c1\<lparr>c_sock := s, c_buf := (case r of Got d \<Rightarrow> c_buf c1 @ d | _ \<Rightarrow> c_buf c1)\<rparr>))"

definition drop_cr :: "string \<Rightarrow> string" where
  "drop_cr s = (if s \<noteq> [] \<and> last s = CHR 0x0D then butlast s else s)"

definition skip_bytes :: "nat \<Rightarrow> conn \<Rightarrow> conn" where
  "skip_bytes n c = c\<lparr>c_pos := c_pos c + n\<rparr>"

text \<open>\<open>buf_pos_\<close> never passes the end of \<open>buf_\<close>.\<close>

definition buf_ok :: "conn \<Rightarrow> bool" where
  "buf_ok c \<longleftrightarrow> c_pos c \<le> length (c_buf c)"

lemma fill_cases:
  assumes "fill tmo c = (r, c')"
  shows "c' = c\<lparr>c_sock := c_sock c', c_buf := c_buf c', c_pos := c_pos c'\<rparr>"
    and "sock_recv 4096 tmo (c_sock c) = (r, c_sock c')"
    and "buf_ok c \<Longrightarrow> unread c' = unread c @ (case r of Got d \<Rightarrow> d | _ \<Rightarrow> [])"
    and "buf_ok c \<Longrightarrow> buf_ok c'"
  using assms
  by (auto simp: fill_def Let_def unread_def buf_ok_def split: if_splits prod.splits rd.splits)

lemma unread_skip [simp]: "unread (skip_bytes n c) = drop n (unread c)"
  by (simp add: unread_def skip_bytes_def add.commute)

lemma fill_backlog:
  "fill tmo c = (Got d, c') \<Longrightarrow> backlog c' \<le> backlog c \<and> budget (c_sock c') < budget (c_sock c)"
  using sock_recv_Got [of 4096 tmo "c_sock c" d "c_sock c'"]
  by (auto simp: fill_def Let_def backlog_def unread_def split: if_splits prod.splits rd.splits)

lemma fill_backlog_le: "backlog (snd (fill tmo c)) \<le> backlog c"
proof (cases "fill tmo c")
  case (Pair r c')
  show ?thesis
  proof (cases r)
    case (Got d)
    then show ?thesis using Pair fill_backlog by auto
  qed (use Pair sock_recv_budget [of 4096 tmo "c_sock c"] in
      \<open>auto simp: fill_def Let_def backlog_def unread_def split: if_splits prod.splits rd.splits\<close>)
qed

section \<open>Lines\<close>

function read_line :: "int \<Rightarrow> conn \<Rightarrow> string rd \<times> conn" where
  "read_line tmo c =
     (case find_char (CHR 0x0A) (unread c) of
        Some i \<Rightarrow> (Got (drop_cr (take i (unread c))), skip_bytes (i + 1) c)
      | None \<Rightarrow>
          (case fill tmo c of
             (Got d, c1) \<Rightarrow> read_line tmo c1
           | (Pending, c1) \<Rightarrow> (Pending, c1)
           | (Stopped e, c1) \<Rightarrow> (Stopped e, c1)))"
  by pat_completeness auto
termination
  by (relation "measure (\<lambda>(tmo, c). budget (c_sock c))") (auto dest: fill_backlog [OF sym])

declare read_line.simps [simp del]

text \<open>A line that is read takes its newline off the backlog.\<close>

lemma skip_backlog: "n \<le> length (unread c) \<Longrightarrow> backlog (skip_bytes n c) + n = backlog c"
  by (simp add: backlog_def) (simp add: skip_bytes_def)

lemma read_line_backlog: "read_line tmo c = (r, c') \<Longrightarrow>
    backlog c' \<le> backlog c \<and> (\<forall>l. r = Got l \<longrightarrow> backlog c' < backlog c)"
proof (induction tmo c arbitrary: r c' rule: read_line.induct)
  case (1 tmo c)
  show ?case
  proof (cases "find_char (CHR 0x0A) (unread c)")
    case (Some i)
    then show ?thesis
      using "1.prems" find_char_bound [OF Some] skip_backlog [of "Suc i" c]
      by (auto simp: read_line.simps [of tmo c])
  next
    case None
    obtain r1 c1 where f: "fill tmo c = (r1, c1)" by fastforce
    then have le: "backlog c1 \<le> backlog c" using fill_backlog_le [of tmo c] by simp
    show ?thesis
    proof (cases r1)
      case (Got d)
      with f None "1.prems" have "read_line tmo c1 = (r, c')" by (simp add: read_line.simps [of tmo c])
      from "1.IH" [OF None _ refl this] f Got le show ?thesis by fastforce
    qed (use f None "1.prems" le in \<open>auto simp: read_line.simps [of tmo c]\<close>)
  qed
qed

section \<open>Status line and headers\<close>

definition lower_char :: "char \<Rightarrow> char" where
  "lower_char c = (if 65 \<le> byte c \<and> byte c \<le> 90 then char_of (byte c + 32) else c)"

definition header_name :: "string \<Rightarrow> string" where
  "header_name s = map lower_char s"

definition header_text :: "string \<Rightarrow> string" where
  "header_text s =
     rev (dropWhile (\<lambda>c. c = CHR 0x0D \<or> c = CHR '' '')
       (rev (dropWhile (\<lambda>c. c = CHR '' '' \<or> c = CHR 0x09) s)))"

text \<open>The loop over header lines: the headers so far and the two values that choose the body.\<close>

function header_loop ::
  "conn \<Rightarrow> header_list \<Rightarrow> string \<Rightarrow> string \<Rightarrow> (string + header_list \<times> string \<times> string) \<times> conn" where
  "header_loop c hs cl te =
     (case read_line (c_timeout c) c of
        (Stopped e, c1) \<Rightarrow> (Inl e, c1)
      | (Pending, c1) \<Rightarrow> (Inl ''timed out reading response headers'', c1)
      | (Got line, c1) \<Rightarrow>
          if line = [] then (Inr (hs, cl, te), c1)
          else case find_char (CHR '':'') line of
            None \<Rightarrow> header_loop c1 hs cl te
          | Some i \<Rightarrow>
              let name = header_name (take i line); value = header_text (drop (i + 1) line) in
              header_loop c1 (hs @ [(name, value)])
                (if name = ''content-length'' then value else cl)
                (if name = ''transfer-encoding'' then value else te))"
  by pat_completeness auto
termination
  by (relation "measure (\<lambda>(c, hs, cl, te). backlog c)")
    (auto dest: read_line_backlog [OF sym])

declare header_loop.simps [simp del]

text \<open>Which body follows, from the headers and the status.\<close>

definition start_body :: "int \<Rightarrow> string \<Rightarrow> string \<Rightarrow> conn \<Rightarrow> conn" where
  "start_body status cl te c =
     (let c1 = c\<lparr>c_done := False, c_need_size := True, c_remaining := 0\<rparr> in
      if find_sub ''chunked'' te \<noteq> None then c1\<lparr>c_mode := BodyChunked\<rparr>
      else if cl \<noteq> [] then
        let n = strtoll 10 cl in
        if n \<le> 0 then c1\<lparr>c_mode := BodyNone, c_remaining := n, c_done := True\<rparr>
        else c1\<lparr>c_mode := BodyLength, c_remaining := n\<rparr>
      else if status = 204 \<or> status = 304 then c1\<lparr>c_mode := BodyNone, c_done := True\<rparr>
      else c1\<lparr>c_mode := BodyUntilClose\<rparr>)"

definition read_status_and_headers :: "nat \<Rightarrow> conn \<Rightarrow> (string + http_response) \<times> conn" where
  "read_status_and_headers lb c =
     (case read_line (c_timeout c) c of
        (Stopped e, c1) \<Rightarrow> (Inl e, c1)
      | (Pending, c1) \<Rightarrow> (Inl ''timed out waiting for response'', c1)
      | (Got line, c1) \<Rightarrow>
          (case (starts_with ''HTTP/'' line, find_char (CHR '' '') line) of
             (True, Some sp) \<Rightarrow>
               (let status = atoi lb (drop (sp + 1) line) in
                case header_loop c1 [] [] [] of
                  (Inl e, c2) \<Rightarrow> (Inl e, c2)
                | (Inr (hs, cl, te), c2) \<Rightarrow>
                    (Inr \<lparr>r_status = status, r_headers = hs, r_body = []\<rparr>, start_body status cl te c2))
           | _ \<Rightarrow> (Inl (''malformed status line: '' @ line), c1)))"

section \<open>Bodies\<close>

text \<open>
  What \<^verbatim>\<open>ReadBody\<close> reports: bytes appended (1), nothing yet (0), or the end or a failure
  (-1) with what it does to \<^verbatim>\<open>*err\<close>: \<open>None\<close> leaves it as it was.
\<close>

datatype body_read = Chunk string | NotYet | Ended "string option"

definition have_bytes :: "int \<Rightarrow> conn \<Rightarrow> string rd \<times> conn" where
  "have_bytes tmo c = (if unread c = [] then fill tmo c else (Got [], c))"

definition take_body :: "conn \<Rightarrow> string \<times> conn" where
  "take_body c =
     (let avail = length (unread c);
          n = (if int avail > c_remaining c then nat (c_remaining c) else avail) in
      (take n (unread c), (skip_bytes n c)\<lparr>c_remaining := c_remaining c - int n\<rparr>))"

text \<open>The line with the size of the next chunk: blank lines before it are skipped.\<close>

function size_line :: "int \<Rightarrow> conn \<Rightarrow> string rd \<times> conn" where
  "size_line tmo c =
     (case read_line tmo c of
        (Got l, c1) \<Rightarrow> if l = [] then size_line tmo c1 else (Got l, c1)
      | (r, c1) \<Rightarrow> (r, c1))"
  by pat_completeness auto
termination
  by (relation "measure (\<lambda>(tmo, c). backlog c)") (auto dest: read_line_backlog [OF sym])

declare size_line.simps [simp del]

definition chunk_size :: "string \<Rightarrow> int" where
  "chunk_size line =
     strtoll 16 (case find_char (CHR '';'') line of None \<Rightarrow> line | Some i \<Rightarrow> take i line)"

definition chunk_header :: "int \<Rightarrow> conn \<Rightarrow> body_read option \<times> conn" where
  "chunk_header tmo c =
     (if \<not> c_need_size c then (None, c)
      else case size_line tmo c of
        (Stopped e, c1) \<Rightarrow> (Some (Ended (Some e)), c1)
      | (Pending, c1) \<Rightarrow> (Some NotYet, c1)
      | (Got l, c1) \<Rightarrow>
          if chunk_size l \<le> 0 then (Some (Ended None), c1\<lparr>c_done := True\<rparr>)
          else (None, c1\<lparr>c_remaining := chunk_size l, c_need_size := False\<rparr>))"

definition read_body :: "int \<Rightarrow> conn \<Rightarrow> body_read \<times> conn" where
  "read_body tmo c =
     (if c_done c then (Ended None, c)
      else case c_mode c of
        BodyNone \<Rightarrow> (Ended None, c\<lparr>c_done := True\<rparr>)
      | BodyLength \<Rightarrow>
          (case have_bytes tmo c of
             (Stopped e, c1) \<Rightarrow> (Ended (Some e), c1)
           | (Pending, c1) \<Rightarrow> (NotYet, c1)
           | (Got _, c1) \<Rightarrow>
               (case take_body c1 of
                  (d, c2) \<Rightarrow> (Chunk d, if c_remaining c2 \<le> 0 then c2\<lparr>c_done := True\<rparr> else c2)))
      | BodyChunked \<Rightarrow>
          (case chunk_header tmo c of
             (Some r, c1) \<Rightarrow> (r, c1)
           | (None, c1) \<Rightarrow>
               (case have_bytes tmo c1 of
                  (Stopped e, c2) \<Rightarrow> (Ended (Some e), c2)
                | (Pending, c2) \<Rightarrow> (NotYet, c2)
                | (Got _, c2) \<Rightarrow>
                    (case take_body c2 of
                       (d, c3) \<Rightarrow> (Chunk d, if c_remaining c3 \<le> 0 then c3\<lparr>c_need_size := True\<rparr> else c3))))
      | BodyUntilClose \<Rightarrow>
          (case have_bytes tmo c of
             (Stopped e, c1) \<Rightarrow> (Ended (Some []), c1\<lparr>c_done := True\<rparr>)
           | (Pending, c1) \<Rightarrow> (NotYet, c1)
           | (Got _, c1) \<Rightarrow> (Chunk (unread c1), skip_bytes (length (unread c1)) c1)))"

section \<open>Every loop over a body ends\<close>

definition body_rank :: "conn \<Rightarrow> nat" where
  "body_rank c = 2 * backlog c + (if c_done c then 0 else 1) + (if c_need_size c then 0 else 1)"

lemma backlog_fields [simp]:
  "backlog (c\<lparr>c_remaining := n\<rparr>) = backlog c" "backlog (c\<lparr>c_need_size := b\<rparr>) = backlog c"
  "backlog (c\<lparr>c_done := b\<rparr>) = backlog c" "backlog (c\<lparr>c_mode := m\<rparr>) = backlog c"
  "unread (c\<lparr>c_remaining := n\<rparr>) = unread c" "unread (c\<lparr>c_need_size := b\<rparr>) = unread c"
  "unread (c\<lparr>c_done := b\<rparr>) = unread c" "unread (c\<lparr>c_mode := m\<rparr>) = unread c"
  by (simp_all add: backlog_def unread_def)

lemma skip_fields [simp]:
  "c_done (skip_bytes n c) = c_done c" "c_need_size (skip_bytes n c) = c_need_size c"
  "c_mode (skip_bytes n c) = c_mode c" "c_remaining (skip_bytes n c) = c_remaining c"
  "c_sock (skip_bytes n c) = c_sock c" "c_timeout (skip_bytes n c) = c_timeout c"
  "c_null (skip_bytes n c) = c_null c" "c_url (skip_bytes n c) = c_url c"
  by (simp_all add: skip_bytes_def)

text \<open>Reading lines and bytes touches the buffer and the socket only.\<close>

definition same_body :: "conn \<Rightarrow> conn \<Rightarrow> bool" where
  "same_body c c' \<longleftrightarrow> c' = c\<lparr>c_sock := c_sock c', c_buf := c_buf c', c_pos := c_pos c'\<rparr>"

lemma same_body_fields:
  "same_body c c' \<Longrightarrow> c_url c' = c_url c \<and> c_timeout c' = c_timeout c \<and> c_null c' = c_null c
     \<and> c_mode c' = c_mode c \<and> c_remaining c' = c_remaining c \<and> c_need_size c' = c_need_size c
     \<and> c_done c' = c_done c"
  unfolding same_body_def by (metis conn.select_convs conn.surjective conn.update_convs(4,5,6))

lemma same_body_refl [simp]: "same_body c c"
  by (simp add: same_body_def)

lemma same_body_skip [simp]: "same_body c (skip_bytes n c)"
  by (simp add: same_body_def skip_bytes_def)

lemma same_body_trans: "same_body a b \<Longrightarrow> same_body b c \<Longrightarrow> same_body a c"
  by (cases a; cases b; cases c) (simp add: same_body_def)

lemma fill_same_body [conn_frame]: "fill tmo c = (r, c') \<Longrightarrow> same_body c c'"
  unfolding same_body_def by (rule fill_cases(1))

text \<open>
  Any relation that the reads of the socket respect and that moving on in the buffer respects
  is respected by the readers of lines.
\<close>

locale conn_relation =
  fixes R :: "conn \<Rightarrow> conn \<Rightarrow> bool"
  assumes R_refl: "R c c"
    and R_trans: "R a b \<Longrightarrow> R b c \<Longrightarrow> R a c"
    and R_fill: "fill tmo c = (r, c') \<Longrightarrow> R c c'"
    and R_skip: "R c (skip_bytes n c)"
begin

lemma read_line_R: "read_line tmo c = (r, c') \<Longrightarrow> R c c'"
proof (induction tmo c arbitrary: r c' rule: read_line.induct)
  case (1 tmo c)
  show ?case
  proof (cases "find_char (CHR 0x0A) (unread c)")
    case (Some i)
    then show ?thesis using "1.prems" R_skip by (auto simp: read_line.simps [of tmo c])
  next
    case None
    obtain r1 c1 where f: "fill tmo c = (r1, c1)" by fastforce
    show ?thesis
    proof (cases r1)
      case (Got d)
      with f None "1.prems" have "read_line tmo c1 = (r, c')" by (simp add: read_line.simps [of tmo c])
      from "1.IH" [OF None _ refl this] f Got have "R c1 c'" by simp
      with R_fill [OF f] show ?thesis by (rule R_trans)
    qed (use f None "1.prems" R_fill [OF f] in \<open>auto simp: read_line.simps [of tmo c]\<close>)
  qed
qed

lemma size_line_R: "size_line tmo c = (r, c') \<Longrightarrow> R c c'"
proof (induction tmo c arbitrary: r c' rule: size_line.induct)
  case (1 tmo c)
  obtain r1 c1 where f: "read_line tmo c = (r1, c1)" by fastforce
  note s = read_line_R [OF f]
  show ?case
  proof (cases "r1 = Got []")
    case True
    with f "1.prems" have "size_line tmo c1 = (r, c')" by (simp add: size_line.simps [of tmo c])
    from "1.IH" [OF f [symmetric] _ refl this] True have "R c1 c'" by simp
    with s show ?thesis by (rule R_trans)
  qed (use f "1.prems" s in \<open>auto simp: size_line.simps [of tmo c] split: rd.splits if_splits\<close>)
qed

lemma have_bytes_R: "have_bytes tmo c = (r, c') \<Longrightarrow> R c c'"
  by (auto simp: have_bytes_def intro: R_fill R_refl split: if_splits)

lemma header_loop_R: "header_loop c hs cl te = (r, c') \<Longrightarrow> R c c'"
proof (induction c hs cl te arbitrary: r c' rule: header_loop.induct)
  case (1 c hs cl te)
  obtain r1 c1 where f: "read_line (c_timeout c) c = (r1, c1)" by fastforce
  note s = read_line_R [OF f]
  show ?case
  proof (cases "\<exists>l. r1 = Got l \<and> l \<noteq> []")
    case True
    then obtain l where l: "r1 = Got l" "l \<noteq> []" by blast
    show ?thesis
    proof (cases "find_char (CHR '':'') l")
      case None
      with l f "1.prems" have "header_loop c1 hs cl te = (r, c')"
        by (simp add: header_loop.simps [of c])
      from "1.IH"(1) [OF f [symmetric] l None this] s show ?thesis by (blast intro: R_trans)
    next
      case (Some i)
      let ?n = "header_name (take i l)" and ?v = "header_text (drop (i + 1) l)"
      from Some l f "1.prems" have "header_loop c1 (hs @ [(?n, ?v)])
          (if ?n = ''content-length'' then ?v else cl) (if ?n = ''transfer-encoding'' then ?v else te) = (r, c')"
        by (simp add: header_loop.simps [of c] Let_def split: if_splits)
      from "1.IH"(2) [OF f [symmetric] l Some refl refl this] s show ?thesis by (blast intro: R_trans)
    qed
  qed (use f "1.prems" s in \<open>auto simp: header_loop.simps [of c] split: rd.splits if_splits\<close>)
qed

end

interpretation body_state: conn_relation same_body
  by unfold_locales (auto intro: same_body_trans fill_same_body)

lemmas read_line_same_body [conn_frame] = body_state.read_line_R
lemmas size_line_same_body [conn_frame] = body_state.size_line_R

lemma size_line_backlog: "size_line tmo c = (r, c') \<Longrightarrow>
    backlog c' \<le> backlog c \<and> (\<forall>l. r = Got l \<longrightarrow> backlog c' < backlog c)"
proof (induction tmo c arbitrary: r c' rule: size_line.induct)
  case (1 tmo c)
  obtain r1 c1 where f: "read_line tmo c = (r1, c1)" by fastforce
  note s = read_line_backlog [OF f]
  show ?case
  proof (cases "r1 = Got []")
    case True
    with f "1.prems" have "size_line tmo c1 = (r, c')" by (simp add: size_line.simps [of tmo c])
    from "1.IH" [OF f [symmetric] _ refl this] True s show ?thesis by fastforce
  qed (use f "1.prems" s in \<open>auto simp: size_line.simps [of tmo c] split: rd.splits if_splits\<close>)
qed

lemma have_bytes_frame:
  assumes "have_bytes tmo c = (r, c')"
  shows "same_body c c'" and "backlog c' \<le> backlog c"
  using assms fill_same_body [of tmo c] fill_backlog_le [of tmo c]
  by (auto simp: have_bytes_def split: if_splits)

lemma have_bytes_Got:
  assumes "have_bytes tmo c = (Got d, c')" "buf_ok c"
  shows "unread c' \<noteq> []" and "buf_ok c'"
  using assms fill_cases(3,4) [of tmo c "Got d" c'] sock_recv_Got [of 4096 tmo "c_sock c"]
    fill_cases(2) [of tmo c "Got d" c']
  by (auto simp: have_bytes_def split: if_splits)

lemma have_bytes_progress:
  assumes "have_bytes tmo c = (Got d, c')"
  shows "unread c' \<noteq> [] \<or> backlog c' < backlog c"
proof (cases "unread c = []")
  case True
  then show ?thesis
    using assms fill_backlog [of tmo c d c'] by (auto simp: have_bytes_def backlog_def)
qed (use assms in \<open>simp add: have_bytes_def\<close>)

lemma take_body_split:
  assumes "take_body c = (d, c')"
  shows "backlog c' + length d = backlog c" and "unread c = d @ unread c'"
    and "0 \<le> c_remaining c \<Longrightarrow> c_remaining c' = c_remaining c - int (length d)"
proof -
  define n where "n = (if int (length (unread c)) > c_remaining c then nat (c_remaining c) else length (unread c))"
  have n: "n \<le> length (unread c)" by (auto simp: n_def)
  have d: "d = take n (unread c)" "c' = (skip_bytes n c)\<lparr>c_remaining := c_remaining c - int n\<rparr>"
    using assms by (auto simp: take_body_def Let_def n_def)
  with n show "backlog c' + length d = backlog c" "unread c = d @ unread c'"
    using skip_backlog [OF n] by simp_all
  show "c_remaining c' = c_remaining c - int (length d)" if "0 \<le> c_remaining c"
    using d n by simp
qed

lemma take_body_some:
  assumes "take_body c = (d, c')"
  shows "d \<noteq> [] \<or> unread c = [] \<or> c_remaining c' \<le> 0"
  using assms by (auto simp: take_body_def Let_def split: if_splits)

lemma take_body_fields [simp]:
  "c_done (snd (take_body c)) = c_done c" "c_need_size (snd (take_body c)) = c_need_size c"
  "c_mode (snd (take_body c)) = c_mode c" "c_timeout (snd (take_body c)) = c_timeout c"
  by (simp_all add: take_body_def Let_def)

text \<open>A body still being read has bytes left to read.\<close>

definition body_ok :: "conn \<Rightarrow> bool" where
  "body_ok c \<longleftrightarrow> buf_ok c \<and>
     (\<not> c_done c \<longrightarrow> c_mode c = BodyLength \<or> (c_mode c = BodyChunked \<and> \<not> c_need_size c) \<longrightarrow> 0 < c_remaining c)"

lemma chunk_header_frame:
  assumes "chunk_header tmo c = (r, c')"
  shows "c_mode c' = c_mode c \<and> c_timeout c' = c_timeout c" and "backlog c' \<le> backlog c"
    and "r = None \<Longrightarrow> c_done c' = c_done c \<and> \<not> c_need_size c'"
    and "r = None \<Longrightarrow> c_need_size c \<Longrightarrow> backlog c' < backlog c \<and> 0 < c_remaining c'"
    and "r = None \<Longrightarrow> \<not> c_need_size c \<Longrightarrow> c' = c"
  using assms size_line_backlog [of tmo c] size_line_same_body [of tmo c]
  by (auto simp: chunk_header_def dest!: same_body_fields split: if_splits prod.splits rd.splits)

lemma chunk_header_no_data: "chunk_header tmo c \<noteq> (Some (Chunk d), c')"
  by (auto simp: chunk_header_def split: prod.splits rd.splits)

lemma read_body_progress:
  assumes "read_body tmo c = (Chunk d, c')"
  shows "body_rank c' < body_rank c"
proof -
  have nd: "\<not> c_done c" using assms by (auto simp: read_body_def)
  have step: "body_rank (if c_remaining c2 \<le> 0 then upd c2 else c2) < body_rank c0"
    if h: "have_bytes tmo c0 = (Got x, c1)" and t: "take_body c1 = (e, c2)"
      and u: "backlog (upd c2) = backlog c2" "body_rank (upd c2) < body_rank c2" for c0 x c1 e c2 upd
  proof -
    note f = same_body_fields [OF have_bytes_frame(1) [OF h]] have_bytes_frame(2) [OF h]
    have r: "body_rank c1 \<le> body_rank c0" "unread c1 = [] \<Longrightarrow> body_rank c1 < body_rank c0"
      using f have_bytes_progress [OF h] by (auto simp: body_rank_def)
    have c2: "c_done c2 = c_done c1" "c_need_size c2 = c_need_size c1"
      using take_body_fields [of c1] t by simp_all
    then have "body_rank c2 \<le> body_rank c1" "e \<noteq> [] \<Longrightarrow> body_rank c2 < body_rank c1"
      using take_body_split(1) [OF t] by (cases e; auto simp: body_rank_def)+
    with r u take_body_some [OF t] show ?thesis
      by (cases "c_remaining c2 \<le> 0"; cases "e = []"; cases "unread c1 = []") simp_all
  qed
  show ?thesis
  proof (cases "c_mode c")
    case BodyLength
    then obtain x c1 e c2 where h: "have_bytes tmo c = (Got x, c1)" "take_body c1 = (e, c2)"
      and c': "c' = (if c_remaining c2 \<le> 0 then c2\<lparr>c_done := True\<rparr> else c2)"
      using assms nd by (auto simp: read_body_def split: prod.splits rd.splits)
    have "\<not> c_done c2"
      using h nd take_body_fields(1) [of c1] same_body_fields [OF have_bytes_frame(1) [OF h(1)]] by simp
    with step [OF h, of "\<lambda>c. c\<lparr>c_done := True\<rparr>"] c' show ?thesis by (simp add: body_rank_def)
  next
    case BodyChunked
    then obtain c0 x c1 e c2 where k: "chunk_header tmo c = (None, c0)"
      and h: "have_bytes tmo c0 = (Got x, c1)" "take_body c1 = (e, c2)"
      and c': "c' = (if c_remaining c2 \<le> 0 then c2\<lparr>c_need_size := True\<rparr> else c2)"
      using assms nd chunk_header_no_data [of tmo c]
      by (auto simp: read_body_def split: prod.splits rd.splits option.splits)
    note ch = chunk_header_frame [OF k]
    have "\<not> c_need_size c2"
      using h ch take_body_fields(2) [of c1] same_body_fields [OF have_bytes_frame(1) [OF h(1)]] by simp
    with step [OF h, of "\<lambda>c. c\<lparr>c_need_size := True\<rparr>"] c' have "body_rank c' < body_rank c0"
      by (simp add: body_rank_def)
    moreover have "body_rank c0 \<le> body_rank c" using ch by (cases "c_need_size c") (auto simp: body_rank_def)
    ultimately show ?thesis by simp
  next
    case BodyUntilClose
    then obtain x c1 where h: "have_bytes tmo c = (Got x, c1)"
      and c': "c' = skip_bytes (length (unread c1)) c1"
      using assms nd by (auto simp: read_body_def split: prod.splits rd.splits)
    show ?thesis
      using c' skip_backlog [of "length (unread c1)" c1] have_bytes_progress [OF h]
        have_bytes_frame(2) [OF h] same_body_fields [OF have_bytes_frame(1) [OF h]]
      by (cases "unread c1") (auto simp: body_rank_def)
  qed (use assms nd in \<open>simp add: read_body_def\<close>)
qed

text \<open>The timeout of a body is the connection's own, which reading does not change.\<close>

function read_full_body :: "conn \<Rightarrow> string \<Rightarrow> (string + string) \<times> conn" where
  "read_full_body c out =
     (case read_body (c_timeout c) c of
        (Chunk d, c1) \<Rightarrow> read_full_body c1 (out @ d)
      | (NotYet, c1) \<Rightarrow> (Inl ''timed out reading response body'', c1)
      | (Ended e, c1) \<Rightarrow> if c_done c1 then (Inr out, c1) else (Inl (case e of Some m \<Rightarrow> m | None \<Rightarrow> []), c1))"
  by pat_completeness auto
termination
  by (relation "measure (\<lambda>(c, out). body_rank c)") (auto dest: read_body_progress [OF sym])

declare read_full_body.simps [simp del]

section \<open>Requests\<close>

definition begin_post ::
  "nat \<Rightarrow> string \<Rightarrow> header_list \<Rightarrow> string \<Rightarrow> conn \<Rightarrow> (string + http_response) \<times> conn" where
  "begin_post lb path hs body c =
     (case ensure_connected c of
        (Some e, c1) \<Rightarrow> (Inl e, c1)
      | (None, c1) \<Rightarrow>
          (case send_request lb path hs body c1 of
             (Some e, c2) \<Rightarrow> (Inl e, conn_close c2)
           | (None, c2) \<Rightarrow>
               (case read_status_and_headers lb c2 of
                  (Inl e, c3) \<Rightarrow> (Inl e, conn_close c3)
                | (Inr resp, c3) \<Rightarrow> (Inr resp, c3))))"

text \<open>
  The loop of \<^verbatim>\<open>Post\<close> from attempt number \<open>a\<close>, with the error text of the attempt before.
\<close>

function post_loop ::
  "nat \<Rightarrow> string \<Rightarrow> header_list \<Rightarrow> string \<Rightarrow> nat \<Rightarrow> string \<Rightarrow> conn \<Rightarrow> (string + http_response) \<times> conn" where
  "post_loop lb path hs body a err c =
     (if \<not> a < 2 then (Inl err, c)
      else let was_connected = connected c in
        case ensure_connected c of
          (Some e, c1) \<Rightarrow> (Inl e, c1)
        | (None, c1) \<Rightarrow>
            (case send_request lb path hs body c1 of
               (Some e, c2) \<Rightarrow>
                 if was_connected \<and> a = 0 then post_loop lb path hs body (a + 1) e (conn_close c2)
                 else (Inl e, conn_close c2)
             | (None, c2) \<Rightarrow>
                 (case read_status_and_headers lb c2 of
                    (Inl e, c3) \<Rightarrow>
                      if was_connected \<and> a = 0 then post_loop lb path hs body (a + 1) e (conn_close c3)
                      else (Inl e, conn_close c3)
                  | (Inr resp, c3) \<Rightarrow>
                      (case read_full_body c3 [] of
                         (Inl e, c4) \<Rightarrow> (Inl e, conn_close c4)
                       | (Inr b, c4) \<Rightarrow>
                           (Inr (resp\<lparr>r_body := b\<rparr>),
                            if find_sub ''close'' (header_value (r_headers resp) ''connection'') \<noteq> None
                            then conn_close c4 else c4)))))"
  by pat_completeness auto
termination
  by (relation "measure (\<lambda>(lb, path, hs, body, a, err, c). 2 - a)") auto

declare post_loop.simps [simp del]

definition post :: "nat \<Rightarrow> string \<Rightarrow> header_list \<Rightarrow> string \<Rightarrow> conn \<Rightarrow> (string + http_response) \<times> conn" where
  "post lb path hs body c = post_loop lb path hs body 0 [] c"

section \<open>Reading writes nothing\<close>

text \<open>Reading moves on in the input of the one socket: it neither writes nor dials.\<close>

definition same_peer :: "conn \<Rightarrow> conn \<Rightarrow> bool" where
  "same_peer c c' \<longleftrightarrow> fd (c_sock c') = fd (c_sock c) \<and> wire (c_sock c') = wire (c_sock c)
     \<and> dials (c_sock c') = dials (c_sock c) \<and> sock_link (c_sock c') = sock_link (c_sock c)
     \<and> c_null c' = c_null c \<and> c_url c' = c_url c"

lemma same_peer_trans: "same_peer a b \<Longrightarrow> same_peer b c \<Longrightarrow> same_peer a c"
  by (simp add: same_peer_def)

lemma same_peer_fields [simp]:
  "same_peer c c" "same_peer c (skip_bytes n c') = same_peer c c'"
  "same_peer c (c'\<lparr>c_done := b\<rparr>) = same_peer c c'" "same_peer c (c'\<lparr>c_need_size := b\<rparr>) = same_peer c c'"
  "same_peer c (c'\<lparr>c_remaining := k\<rparr>) = same_peer c c'" "same_peer c (c'\<lparr>c_mode := m\<rparr>) = same_peer c c'"
  by (simp_all add: same_peer_def)

lemma fill_same_peer [conn_frame]: "fill tmo c = (r, c') \<Longrightarrow> same_peer c c'"
  using fill_cases(2) [of tmo c r c'] fill_same_body [of tmo c r c'] sock_recv_frame [of 4096 tmo "c_sock c"]
    sock_recv_fd [of 4096 tmo "c_sock c"]
  by (auto simp: same_peer_def dest!: same_body_fields)

lemma take_body_same_peer [conn_frame]: "take_body c = (d, c') \<Longrightarrow> same_peer c c'"
  by (auto simp: take_body_def Let_def)

interpretation peer: conn_relation same_peer
  by unfold_locales (auto intro: same_peer_trans fill_same_peer)

lemmas read_line_same_peer [conn_frame] = peer.read_line_R
lemmas size_line_same_peer [conn_frame] = peer.size_line_R
lemmas header_loop_same_peer [conn_frame] = peer.header_loop_R
lemmas have_bytes_same_peer [conn_frame] = peer.have_bytes_R

lemma start_body_same_peer [conn_frame]: "same_peer c (start_body status cl te c') = same_peer c c'"
  by (simp add: start_body_def Let_def)

lemma read_status_same_peer [conn_frame]: "read_status_and_headers lb c = (r, c') \<Longrightarrow> same_peer c c'"
  by (auto simp: read_status_and_headers_def Let_def start_body_same_peer
      dest!: read_line_same_peer header_loop_same_peer intro: same_peer_trans
      split: prod.splits rd.splits bool.splits option.splits sum.splits)

lemma chunk_header_same_peer [conn_frame]: "chunk_header tmo c = (r, c') \<Longrightarrow> same_peer c c'"
  by (auto simp: chunk_header_def dest: size_line_same_peer split: prod.splits rd.splits if_splits)

lemma read_body_same_peer [conn_frame]: "read_body tmo c = (r, c') \<Longrightarrow> same_peer c c'"
  by (auto simp: read_body_def
      dest!: have_bytes_same_peer take_body_same_peer chunk_header_same_peer intro: same_peer_trans
      split: prod.splits rd.splits option.splits if_splits body_mode.splits)

lemma read_full_body_same_peer [conn_frame]: "read_full_body c out = (r, c') \<Longrightarrow> same_peer c c'"
proof (induction c out arbitrary: r c' rule: read_full_body.induct)
  case (1 c out)
  obtain r1 c1 where f: "read_body (c_timeout c) c = (r1, c1)" by fastforce
  note s = read_body_same_peer [OF f]
  show ?case
  proof (cases r1)
    case (Chunk d)
    with f "1.prems" have "read_full_body c1 (out @ d) = (r, c')" by (simp add: read_full_body.simps [of c])
    from "1.IH" [OF f [symmetric] Chunk this] s show ?thesis by (rule same_peer_trans [rotated])
  qed (use f "1.prems" s in \<open>auto simp: read_full_body.simps [of c] split: if_splits\<close>)
qed

end
