(* ===== verification/Http_Refine.thy ===== *)
theory Http_Refine
  imports Http
begin

text \<open>
  A reference parser that reads a response off the whole string a peer will send, and the
  proof that the buffered, resumable reader of src/http.cpp computes it: the abstraction of a
  connection is its \<open>future\<close>, the bytes buffered and the bytes coming. How the network cuts
  the response into reads, and when the buffer is compacted, cannot be seen.
\<close>

section \<open>The abstraction\<close>

definition future :: "conn \<Rightarrow> string" where
  "future c = unread c @ arriving (c_sock c)"

definition flowing_conn :: "conn \<Rightarrow> bool" where
  "flowing_conn c \<longleftrightarrow> buf_ok c \<and> flowing (c_sock c)"

text \<open>What an operation leaves of a connection: nothing but buffer and socket input changes.\<close>

definition reaches :: "conn \<Rightarrow> string \<Rightarrow> conn \<Rightarrow> bool" where
  "reaches c s c' \<longleftrightarrow> same_body c c' \<and> flowing_conn c' \<and> future c' = s
     \<and> wire (c_sock c') = wire (c_sock c) \<and> dials (c_sock c') = dials (c_sock c)
     \<and> sock_link (c_sock c') = sock_link (c_sock c)"

lemma reaches_trans [trans]: "reaches a s b \<Longrightarrow> reaches b t c \<Longrightarrow> reaches a t c"
  by (auto simp: reaches_def intro: same_body_trans)

lemma reaches_refl: "flowing_conn c \<Longrightarrow> reaches c (future c) c"
  by (simp add: reaches_def)

lemma reaches_skip:
  assumes "flowing_conn c" "n \<le> length (unread c)"
  shows "reaches c (drop n (future c)) (skip_bytes n c)"
  using assms
  by (auto simp: reaches_def flowing_conn_def future_def buf_ok_def unread_def skip_bytes_def
      same_body_def add.commute)

lemma reaches_flowing: "reaches c s c' \<Longrightarrow> flowing_conn c' \<and> future c' = s"
  by (simp add: reaches_def)

lemma reaches_fields: "reaches c s c' \<Longrightarrow>
    c_timeout c' = c_timeout c \<and> c_mode c' = c_mode c \<and> c_remaining c' = c_remaining c
    \<and> c_need_size c' = c_need_size c \<and> c_done c' = c_done c \<and> c_url c' = c_url c \<and> c_null c' = c_null c"
  by (auto simp: reaches_def dest: same_body_fields)

text \<open>The connection's \<^verbatim>\<open>Fill\<close> passes on the socket's bytes, whatever the compaction does.\<close>

lemma fill_step:
  assumes "flowing_conn c" "fill tmo c = (r, c')"
  shows "(\<exists>d. r = Got d \<and> d \<noteq> [] \<and> arriving (c_sock c) = d @ arriving (c_sock c')
            \<and> unread c' = unread c @ d) \<or>
         (r = Pending \<and> arriving (c_sock c) = [] \<and> arriving (c_sock c') = [] \<and> unread c' = unread c)"
    and "reaches c (future c) c'"
proof -
  note f = fill_cases [OF assms(2)]
  have l: "flowing (c_sock c)" "buf_ok c" using assms(1) by (simp_all add: flowing_conn_def)
  have fr: "wire (c_sock c') = wire (c_sock c) \<and> dials (c_sock c') = dials (c_sock c)
      \<and> sock_link (c_sock c') = sock_link (c_sock c)"
    using f(2) sock_recv_frame [of 4096 tmo "c_sock c"] by simp
  have "(\<exists>d. r = Got d \<and> d \<noteq> [] \<and> arriving (c_sock c) = d @ arriving (c_sock c')
            \<and> unread c' = unread c @ d \<and> flowing (c_sock c')) \<or>
         (r = Pending \<and> arriving (c_sock c) = [] \<and> arriving (c_sock c') = [] \<and> unread c' = unread c
            \<and> flowing (c_sock c'))"
    using l(1)
  proof (cases rule: socket.pull_cases [of _ tmo])
    case (more d s')
    then show ?thesis using f(2,3) l(2) by auto
  next
    case (quiet s')
    then show ?thesis using f(2,3) l(2) by auto
  qed
  with f(1,4) l(2) fr show
    "(\<exists>d. r = Got d \<and> d \<noteq> [] \<and> arriving (c_sock c) = d @ arriving (c_sock c')
            \<and> unread c' = unread c @ d) \<or>
         (r = Pending \<and> arriving (c_sock c) = [] \<and> arriving (c_sock c') = [] \<and> unread c' = unread c)"
    "reaches c (future c) c'"
    by (auto simp: reaches_def flowing_conn_def future_def same_body_def)
qed

interpretation buffered: byte_source "fill tmo" "\<lambda>c. arriving (c_sock c)" flowing_conn for tmo
proof unfold_locales
  show "\<exists>d c'. fill tmo c = (Got d, c') \<and> d \<noteq> [] \<and> arriving (c_sock c) = d @ arriving (c_sock c') \<and> flowing_conn c'"
    if "flowing_conn c" "arriving (c_sock c) \<noteq> []" for c
  proof (cases "fill tmo c")
    case (Pair r c')
    show ?thesis using fill_step [OF that(1) Pair] that(2) Pair by (auto simp: reaches_def)
  qed
  show "\<exists>c'. fill tmo c = (Pending, c') \<and> arriving (c_sock c') = [] \<and> flowing_conn c'"
    if "flowing_conn c" "arriving (c_sock c) = []" for c
  proof (cases "fill tmo c")
    case (Pair r c')
    show ?thesis using fill_step [OF that(1) Pair] that(2) Pair by (auto simp: reaches_def)
  qed
qed

section \<open>Lines\<close>

definition ref_line :: "string \<Rightarrow> (string \<times> string) option" where
  "ref_line s = map_option (\<lambda>i. (drop_cr (take i s), drop (i + 1) s)) (find_char (CHR 0x0A) s)"

lemma ref_line_shorter: "ref_line s = Some (l, t) \<Longrightarrow> length t < length s"
  by (auto simp: ref_line_def dest: find_char_bound)

lemma ref_line_text:
  "CHR 0x0A \<notin> set l \<Longrightarrow> l = [] \<or> last l \<noteq> CHR 0x0D \<Longrightarrow> ref_line (l @ crlf @ s) = Some (l, s)"
proof -
  assume a: "CHR 0x0A \<notin> set l" "l = [] \<or> last l \<noteq> CHR 0x0D"
  have "find_char (CHR 0x0A) ((l @ [CHR 0x0D]) @ CHR 0x0A # s) = Some (length l + 1)"
    using a by (subst find_char_append_fresh) auto
  then show ?thesis using a by (simp add: ref_line_def crlf_def drop_cr_def)
qed

lemma read_line_refines:
  assumes "flowing_conn c"
  shows "\<exists>c'. (case ref_line (future c) of
           Some (l, s) \<Rightarrow> read_line tmo c = (Got l, c') \<and> reaches c s c'
         | None \<Rightarrow> read_line tmo c = (Pending, c') \<and> reaches c (future c) c')"
  using assms
proof (induction c rule: buffered.pull_induct [of _ tmo])
  case (pull c)
  show ?case
  proof (cases "find_char (CHR 0x0A) (unread c)")
    case (Some i)
    then have "find_char (CHR 0x0A) (future c) = Some i" "i < length (unread c)"
      unfolding future_def by (auto simp: find_char_append_left find_char_mem find_char_bound)
    with Some pull(1) reaches_skip [of c "Suc i"] show ?thesis
      by (auto simp: ref_line_def future_def read_line.simps [of tmo c])
  next
    case None
    obtain r c1 where f: "fill tmo c = (r, c1)" by fastforce
    note st = fill_step [OF pull(1) f]
    show ?thesis
    proof (cases r)
      case (Got d)
      with st have d: "d \<noteq> []" "arriving (c_sock c) = d @ arriving (c_sock c1)" by auto
      have "future c1 = future c" using st(2) reaches_flowing by blast
      moreover have "read_line tmo c = read_line tmo c1"
        using None f Got by (simp add: read_line.simps [of tmo c])
      ultimately show ?thesis
        using pull(2) [OF f [unfolded Got] d] reaches_flowing [OF st(2)] reaches_trans [OF st(2)]
        by (auto split: option.splits)
    next
      case Pending
      with st None have "find_char (CHR 0x0A) (future c) = None" by (simp add: future_def)
      with None Pending f st(2) show ?thesis
        by (simp add: ref_line_def read_line.simps [of tmo c])
    qed (use st in simp)
  qed
qed

section \<open>Headers\<close>

function ref_headers ::
  "string \<Rightarrow> header_list \<Rightarrow> string \<Rightarrow> string \<Rightarrow> (header_list \<times> string \<times> string \<times> string) option" where
  "ref_headers s hs cl te =
     (case ref_line s of
        None \<Rightarrow> None
      | Some (l, t) \<Rightarrow>
          if l = [] then Some (hs, cl, te, t)
          else case find_char (CHR '':'') l of
            None \<Rightarrow> ref_headers t hs cl te
          | Some i \<Rightarrow>
              let name = header_name (take i l); value = header_text (drop (i + 1) l) in
              ref_headers t (hs @ [(name, value)])
                (if name = ''content-length'' then value else cl)
                (if name = ''transfer-encoding'' then value else te))"
  by pat_completeness auto
termination
  by (relation "measure (\<lambda>(s, hs, cl, te). length s)") (auto dest: ref_line_shorter)

declare ref_headers.simps [simp del]

lemma header_loop_refines:
  assumes "flowing_conn c"
  shows "\<exists>c'. (case ref_headers (future c) hs cl te of
      Some (hs', cl', te', s) \<Rightarrow> header_loop c hs cl te = (Inr (hs', cl', te'), c') \<and> reaches c s c'
    | None \<Rightarrow> header_loop c hs cl te = (Inl ''timed out reading response headers'', c')
        \<and> reaches c (future c') c')"
  using assms
proof (induction "future c" hs cl te arbitrary: c rule: ref_headers.induct)
  case (1 hs cl te c)
  note eqs = ref_headers.simps [of "future c" hs cl te] header_loop.simps [of c hs cl te]
  note ih = "1.hyps"
  show ?case
  proof (cases "ref_line (future c)")
    case None
    with read_line_refines [OF "1.prems", of "c_timeout c"] show ?thesis
      by (auto simp: eqs reaches_def)
  next
    case (Some p)
    then obtain l s where p: "ref_line (future c) = Some (l, s)" by (cases p) auto
    with read_line_refines [OF "1.prems", of "c_timeout c"] obtain c1 where
      r: "read_line (c_timeout c) c = (Got l, c1)" "reaches c s c1" by auto
    note c1 = reaches_flowing [OF r(2)]
    then have eq: "(l, future c1) = (l, s)" by simp
    have lift: "reaches c u c2" if "reaches c1 u c2" for u c2 using r(2) that by (rule reaches_trans)
    show ?thesis
    proof (cases "l = []")
      case True
      with p r show ?thesis by (auto simp: eqs)
    next
      case False
      show ?thesis
      proof (cases "find_char (CHR '':'') l")
        case None
        with ih(1) [OF p eq False None] c1 p r False show ?thesis
          by (auto simp: eqs split: option.splits dest: lift)
      next
        case (Some i)
        with ih(2) [OF p eq False Some refl refl] c1 p r False show ?thesis
          by (auto simp: eqs Let_def split: option.splits dest: lift)
      qed
    qed
  qed
qed

section \<open>Pieces of a body\<close>

text \<open>As \<open>reaches\<close>, with the state of the body free to move on.\<close>

definition keeps :: "conn \<Rightarrow> string \<Rightarrow> conn \<Rightarrow> bool" where
  "keeps c s c' \<longleftrightarrow> flowing_conn c' \<and> future c' = s \<and> c_url c' = c_url c \<and> c_timeout c' = c_timeout c
     \<and> c_null c' = c_null c \<and> wire (c_sock c') = wire (c_sock c) \<and> dials (c_sock c') = dials (c_sock c)
     \<and> sock_link (c_sock c') = sock_link (c_sock c)"

lemma keeps_reaches: "reaches c s c' \<Longrightarrow> keeps c s c'"
  using reaches_fields [of c s c'] by (auto simp: keeps_def reaches_def)

lemma keeps_trans [trans]: "keeps a s b \<Longrightarrow> keeps b t c \<Longrightarrow> keeps a t c"
  by (auto simp: keeps_def)

lemma keeps_fields [simp]:
  "keeps c s (c'\<lparr>c_done := b\<rparr>) = keeps c s c'" "keeps c s (c'\<lparr>c_need_size := b\<rparr>) = keeps c s c'"
  "keeps c s (c'\<lparr>c_remaining := n\<rparr>) = keeps c s c'" "keeps c s (c'\<lparr>c_mode := m\<rparr>) = keeps c s c'"
  by (simp_all add: keeps_def flowing_conn_def future_def buf_ok_def)

lemma future_fields [simp]:
  "future (c\<lparr>c_done := b\<rparr>) = future c" "future (c\<lparr>c_need_size := b\<rparr>) = future c"
  "future (c\<lparr>c_remaining := n\<rparr>) = future c" "future (c\<lparr>c_mode := m\<rparr>) = future c"
  by (simp_all add: future_def)

lemma have_bytes_refines:
  assumes "flowing_conn c"
  shows "\<exists>r c'. have_bytes tmo c = (r, c') \<and> reaches c (future c) c' \<and>
     (if future c = [] then r = Pending else (\<exists>d. r = Got d) \<and> unread c' \<noteq> [])"
proof (cases "unread c = []")
  case True
  obtain r c' where f: "fill tmo c = (r, c')" by fastforce
  then show ?thesis
    using fill_step [OF assms f] True by (auto simp: have_bytes_def future_def)
qed (use assms in \<open>auto simp: have_bytes_def future_def reaches_def\<close>)

lemma take_body_keeps:
  assumes "flowing_conn c" "unread c \<noteq> []" "0 < c_remaining c" "take_body c = (d, c')"
  shows "d \<noteq> [] \<and> int (length d) \<le> c_remaining c \<and> future c = d @ future c' \<and> keeps c (future c') c'
     \<and> c_remaining c' = c_remaining c - int (length d) \<and> c_mode c' = c_mode c
     \<and> c_need_size c' = c_need_size c \<and> c_done c' = c_done c"
proof -
  have "d \<noteq> []" "int (length d) \<le> c_remaining c"
    using assms(2-4) by (auto simp: take_body_def Let_def split: if_splits)
  moreover have "future c = d @ future c'" "keeps c (future c') c'"
    using assms(1,4) take_body_split(2) [OF assms(4)]
    by (auto simp: take_body_def Let_def future_def keeps_def flowing_conn_def buf_ok_def skip_bytes_def
        unread_def split: if_splits)
  moreover have "c_remaining c' = c_remaining c - int (length d)"
    using take_body_split(3) [OF assms(4)] assms(3) by simp
  ultimately show ?thesis using assms(4) take_body_fields [of c] by simp
qed

text \<open>Both kinds of body that are counted: the whole of a length, or what is left of a chunk.\<close>

definition counting :: "nat \<Rightarrow> conn \<Rightarrow> bool" where
  "counting n c \<longleftrightarrow> flowing_conn c \<and> \<not> c_done c \<and> c_remaining c = int n \<and> 0 < n \<and>
     (c_mode c = BodyLength \<or> (c_mode c = BodyChunked \<and> \<not> c_need_size c))"

definition counted :: "conn \<Rightarrow> conn \<Rightarrow> bool" where
  "counted c c' \<longleftrightarrow> c_mode c' = c_mode c \<and>
     (if c_mode c = BodyLength then c_done c' else \<not> c_done c' \<and> c_need_size c')"

lemma counting_step:
  assumes "counting n c"
  shows "if future c = []
    then \<exists>c'. read_body tmo c = (NotYet, c') \<and> reaches c [] c'
    else \<exists>d c'. read_body tmo c = (Chunk d, c') \<and> d \<noteq> [] \<and> length d \<le> n \<and> future c = d @ future c'
      \<and> keeps c (future c') c' \<and> (if length d = n then counted c c'
                                    else counting (n - length d) c' \<and> c_mode c' = c_mode c)"
proof -
  have c: "flowing_conn c" "\<not> c_done c" "c_remaining c = int n" "0 < n"
    "c_mode c = BodyLength \<or> (c_mode c = BodyChunked \<and> \<not> c_need_size c)"
    using assms by (simp_all add: counting_def)
  obtain r c1 where h: "have_bytes tmo c = (r, c1)" "reaches c (future c) c1"
      "if future c = [] then r = Pending else (\<exists>d. r = Got d) \<and> unread c1 \<noteq> []"
    using have_bytes_refines [OF c(1)] by blast
  note f1 = reaches_fields [OF h(2)] reaches_flowing [OF h(2)]
  show ?thesis
  proof (cases "future c = []")
    case True
    with h c show ?thesis by (auto simp: read_body_def chunk_header_def)
  next
    case False
    then obtain x where r: "r = Got x" "unread c1 \<noteq> []" using h(3) by auto
    obtain d c2 where t: "take_body c1 = (d, c2)" by fastforce
    have p: "0 < c_remaining c1" using f1 c by simp
    from f1 have "flowing_conn c1" by simp
    note k = take_body_keeps [OF this r(2) p t]
    have k1: "keeps c (future c2) c2" using keeps_reaches [OF h(2)] k by (blast intro: keeps_trans)
    have n: "length d \<le> n" "c_remaining c2 = int n - int (length d)" using k f1 c by auto
    have fl: "flowing_conn c2" using k1 by (simp add: keeps_def)
    let ?c' = "if c_remaining c2 \<le> 0
      then (if c_mode c = BodyLength then c2\<lparr>c_done := True\<rparr> else c2\<lparr>c_need_size := True\<rparr>) else c2"
    have "read_body tmo c = (Chunk d, ?c')" using h(1) r t c by (auto simp: read_body_def chunk_header_def)
    moreover have "keeps c (future ?c') ?c'" using k1 by simp
    moreover have "future c = d @ future ?c'" using k f1 by simp
    moreover have "if length d = n then counted c ?c' else counting (n - length d) ?c' \<and> c_mode ?c' = c_mode c"
      using n k f1 c fl by (auto simp: counted_def counting_def)
    ultimately show ?thesis using False k n by auto
  qed
qed

lemma read_full_body_chunk:
  "read_body (c_timeout c) c = (Chunk d, c') \<Longrightarrow> read_full_body c out = read_full_body c' (out @ d)"
  by (simp add: read_full_body.simps [of c])

lemma read_full_body_timeout:
  "read_body (c_timeout c) c = (NotYet, c') \<Longrightarrow>
     read_full_body c out = (Inl ''timed out reading response body'', c')"
  by (simp add: read_full_body.simps [of c])

lemma read_full_body_done: "c_done c \<Longrightarrow> read_full_body c out = (Inr out, c)"
  by (simp add: read_full_body.simps [of c] read_body_def)

lemma counting_refines:
  assumes "counting n c"
  shows "if n \<le> length (future c)
    then \<exists>c'. read_full_body c out = read_full_body c' (out @ take n (future c))
      \<and> keeps c (drop n (future c)) c' \<and> counted c c'
    else \<exists>c'. read_full_body c out = (Inl ''timed out reading response body'', c')"
  using assms
proof (induction n arbitrary: c out rule: less_induct)
  case (less n)
  note st = counting_step [OF less.prems, of "c_timeout c"]
  show ?case
  proof (cases "future c = []")
    case True
    then show ?thesis using st less.prems by (auto simp: counting_def intro: read_full_body_timeout)
  next
    case False
    with st obtain d c' where s: "read_body (c_timeout c) c = (Chunk d, c')" "d \<noteq> []" "length d \<le> n"
        "future c = d @ future c'" "keeps c (future c') c'"
        "if length d = n then counted c c' else counting (n - length d) c' \<and> c_mode c' = c_mode c"
      by auto
    note eq = read_full_body_chunk [OF s(1), of out]
    show ?thesis
    proof (cases "length d = n")
      case True
      with s eq show ?thesis by auto
    next
      case False
      with s have c': "counting (n - length d) c'" "c_mode c' = c_mode c" "n - length d < n" by auto
      have tr: "keeps c s c''" if "keeps c' s c''" for s c'' using s(5) that by (rule keeps_trans)
      have "counted c c'' = counted c' c''" for c'' using c'(2) by (simp add: counted_def)
      with less.IH [OF c'(3,1), of "out @ d"] eq s(3,4) show ?thesis
        by (auto split: if_splits dest: tr)
    qed
  qed
qed

section \<open>Chunked bodies\<close>

function ref_size :: "string \<Rightarrow> (string \<times> string) option" where
  "ref_size s =
     (case ref_line s of
        None \<Rightarrow> None
      | Some (l, t) \<Rightarrow> if l = [] then ref_size t else Some (l, t))"
  by pat_completeness auto
termination by (relation "measure length") (auto dest: ref_line_shorter)

declare ref_size.simps [simp del]

lemma ref_size_shorter: "ref_size s = Some (l, t) \<Longrightarrow> length t < length s \<and> l \<noteq> []"
proof (induction s rule: ref_size.induct)
  case (1 s)
  then show ?case
    by (auto simp: ref_size.simps [of s] split: option.splits prod.splits if_splits dest: ref_line_shorter)
      (meson less_trans ref_line_shorter)
qed

lemma size_line_refines:
  assumes "flowing_conn c"
  shows "\<exists>c'. (case ref_size (future c) of
      Some (l, s) \<Rightarrow> size_line tmo c = (Got l, c') \<and> reaches c s c'
    | None \<Rightarrow> size_line tmo c = (Pending, c') \<and> reaches c (future c') c' \<and> ref_size (future c') = None)"
  using assms
proof (induction "future c" arbitrary: c rule: ref_size.induct)
  case (1 c)
  note eqs = ref_size.simps [of "future c"] size_line.simps [of tmo c]
  show ?case
  proof (cases "ref_line (future c)")
    case None
    with read_line_refines [OF "1.prems", of tmo] obtain c1 where
      "read_line tmo c = (Pending, c1)" "reaches c (future c) c1" by auto
    moreover from this(2) have "future c1 = future c" by (simp add: reaches_def)
    ultimately show ?thesis using None by (intro exI [of _ c1]) (simp add: eqs)
  next
    case (Some p)
    then obtain l s where p: "ref_line (future c) = Some (l, s)" by (cases p) auto
    with read_line_refines [OF "1.prems", of tmo] obtain c1 where
      r: "read_line tmo c = (Got l, c1)" "reaches c s c1" by auto
    note c1 = reaches_flowing [OF r(2)]
    then have eq: "(l, future c1) = (l, s)" by simp
    have lift: "reaches c u c2" if "reaches c1 u c2" for u c2 using r(2) that by (rule reaches_trans)
    show ?thesis
    proof (cases "l = []")
      case True
      have "flowing_conn c1" using c1 by simp
      from "1.hyps" [OF p eq True this] obtain c2 where
        c2: "case ref_size (future c1) of
            Some (l, s) \<Rightarrow> size_line tmo c1 = (Got l, c2) \<and> reaches c1 s c2
          | None \<Rightarrow> size_line tmo c1 = (Pending, c2) \<and> reaches c1 (future c2) c2 \<and> ref_size (future c2) = None" ..
      have "ref_size (future c) = ref_size (future c1)" "size_line tmo c = size_line tmo c1"
        using p r True c1 by (simp_all add: eqs)
      with c2 lift show ?thesis by (intro exI [of _ c2]) (auto split: option.splits)
    qed (use p r in \<open>auto simp: eqs\<close>)
  qed
qed

function ref_chunked :: "string \<Rightarrow> string \<Rightarrow> (string \<times> string) option" where
  "ref_chunked s out =
     (case ref_size s of
        None \<Rightarrow> None
      | Some (l, t) \<Rightarrow>
          if chunk_size l \<le> 0 then Some (out, t)
          else let n = nat (chunk_size l) in
            if n \<le> length t then ref_chunked (drop n t) (out @ take n t) else None)"
  by pat_completeness auto
termination
  by (relation "measure (\<lambda>(s, out). length s)") (auto dest: ref_size_shorter)

declare ref_chunked.simps [simp del]

text \<open>A chunk size that has been read leaves the rest of the chunk to be counted.\<close>

lemma chunk_header_skip:
  assumes "chunk_header tmo c = (None, c1)" "\<not> c_done c" "c_mode c = BodyChunked" "\<not> c_need_size c1"
  shows "read_body tmo c = read_body tmo c1"
  using chunk_header_frame [OF assms(1)] assms
  by (simp add: read_body_def chunk_header_def [of tmo c1])

text \<open>A chunk whose size line has come is counted from its first byte.\<close>

lemma chunk_start:
  assumes "flowing_conn c" "\<not> c_done c" "c_mode c = BodyChunked" "c_need_size c"
    and "ref_size (future c) = Some (l, t)" "0 < chunk_size l"
  shows "\<exists>c2. read_body tmo c = read_body tmo c2 \<and> counting (nat (chunk_size l)) c2 \<and> future c2 = t
     \<and> c_mode c2 = BodyChunked \<and> keeps c t c2"
proof -
  from size_line_refines [OF assms(1), of tmo] assms(5) obtain c1 where
    z: "size_line tmo c = (Got l, c1)" "reaches c t c1" by auto
  note f1 = reaches_fields [OF z(2)] reaches_flowing [OF z(2)]
  let ?c2 = "c1\<lparr>c_remaining := chunk_size l, c_need_size := False\<rparr>"
  have h: "chunk_header tmo c = (None, ?c2)" "\<not> c_need_size ?c2"
    using z assms(4,6) by (simp_all add: chunk_header_def)
  have k2: "keeps c t ?c2" using keeps_reaches [OF z(2)] by simp
  then have "counting (nat (chunk_size l)) ?c2 \<and> future ?c2 = t \<and> c_mode ?c2 = BodyChunked"
    using assms f1 by (simp add: counting_def keeps_def)
  with k2 chunk_header_skip [OF h(1) assms(2,3) h(2)] show ?thesis by blast
qed

lemma chunked_refines:
  assumes "flowing_conn c" "\<not> c_done c" "c_mode c = BodyChunked" "c_need_size c"
  shows "\<exists>c'. (case ref_chunked (future c) out of
      Some (b, s) \<Rightarrow> read_full_body c out = (Inr b, c') \<and> keeps c s c'
    | None \<Rightarrow> read_full_body c out = (Inl ''timed out reading response body'', c'))"
  using assms
proof (induction "future c" out arbitrary: c rule: ref_chunked.induct)
  case (1 out c)
  note eqs = ref_chunked.simps [of "future c" out]
  note size = size_line_refines [OF "1.prems"(1), of "c_timeout c"]
  show ?case
  proof (cases "ref_size (future c)")
    case None
    with size obtain c' where "size_line (c_timeout c) c = (Pending, c')" by auto
    with "1.prems" have "read_body (c_timeout c) c = (NotYet, c')"
      by (simp add: read_body_def chunk_header_def)
    from read_full_body_timeout [OF this] None show ?thesis by (simp add: eqs)
  next
    case (Some p)
    then obtain l t where p: "ref_size (future c) = Some (l, t)" by (cases p) auto
    with size obtain c1 where z: "size_line (c_timeout c) c = (Got l, c1)" "reaches c t c1" by auto
    note f1 = reaches_fields [OF z(2)] reaches_flowing [OF z(2)]
    show ?thesis
    proof (cases "chunk_size l \<le> 0")
      case True
      with z "1.prems" have "read_body (c_timeout c) c = (Ended None, c1\<lparr>c_done := True\<rparr>)"
        by (simp add: read_body_def chunk_header_def)
      then have "read_full_body c out = (Inr out, c1\<lparr>c_done := True\<rparr>)"
        by (simp add: read_full_body.simps [of c])
      with True p keeps_reaches [OF z(2)] show ?thesis by (simp add: eqs)
    next
      case False
      define n where "n = nat (chunk_size l)"
      from chunk_start [OF "1.prems" p, of "c_timeout c"] False obtain c2 where
        rb: "read_body (c_timeout c) c = read_body (c_timeout c) c2"
        and c2: "counting n c2" "future c2 = t" "c_mode c2 = BodyChunked" and k2: "keeps c t c2"
        by (auto simp: n_def)
      have "c_timeout c2 = c_timeout c" using k2 by (simp add: keeps_def)
      with rb have eq: "read_full_body c out = read_full_body c2 out"
        by (simp add: read_full_body.simps [of c] read_full_body.simps [of c2])
      note cr = counting_refines [OF c2(1), of out]
      show ?thesis
      proof (cases "n \<le> length t")
        case True
        with cr c2 obtain c3 where c3: "read_full_body c2 out = read_full_body c3 (out @ take n t)"
            "keeps c2 (drop n t) c3" "counted c2 c3" by auto
        have k3: "keeps c (drop n t) c3" using k2 c3(2) by (rule keeps_trans)
        then have f3: "flowing_conn c3" "drop n t = future c3" by (simp_all add: keeps_def)
        have m3: "\<not> c_done c3" "c_mode c3 = BodyChunked" "c_need_size c3"
          using c3(3) c2 by (simp_all add: counted_def)
        have tr: "keeps c u c4" if "keeps c3 u c4" for u c4 using k3 that by (rule keeps_trans)
        from "1.hyps" [OF p refl False n_def True f3(2) f3(1) m3] c3(1) eq p False True f3 show ?thesis
          by (auto simp: eqs Let_def n_def [symmetric] split: option.splits dest: tr)
      next
        case False
        with cr c2 eq p \<open>\<not> chunk_size l \<le> 0\<close> show ?thesis
          by (auto simp: eqs Let_def n_def [symmetric])
      qed
    qed
  qed
qed

end
