(* ===== verification/Http_Post.thy ===== *)
theory Http_Post
  imports Http_Refine
begin

text \<open>
  What \<^verbatim>\<open>HttpConnection::Post\<close> promises: on a kept-alive connection it writes its request once
  and returns the response the reference parser reads, however the response is cut up; a
  rendered response is read back; and when it resends. The last part shows that the retry
  is wider than the comment in \<^verbatim>\<open>Post\<close> says.
\<close>

section \<open>The reference response\<close>

definition ref_body :: "int \<Rightarrow> string \<Rightarrow> string \<Rightarrow> string \<Rightarrow> (string \<times> string) option" where
  "ref_body status cl te s =
     (if find_sub ''chunked'' te \<noteq> None then ref_chunked s []
      else if cl \<noteq> [] then
        let n = strtoll 10 cl in
        if n \<le> 0 then Some ([], s)
        else if nat n \<le> length s then Some (take (nat n) s, drop (nat n) s) else None
      else if status = 204 \<or> status = 304 then Some ([], s) else None)"

definition ref_response :: "nat \<Rightarrow> string \<Rightarrow> (http_response \<times> string) option" where
  "ref_response lb s =
     (case ref_line s of
        None \<Rightarrow> None
      | Some (line, t) \<Rightarrow>
          (case (starts_with ''HTTP/'' line, find_char (CHR '' '') line) of
             (True, Some sp) \<Rightarrow>
               (case ref_headers t [] [] [] of
                  None \<Rightarrow> None
                | Some (hs, cl, te, u) \<Rightarrow>
                    (let status = atoi lb (drop (sp + 1) line) in
                     case ref_body status cl te u of
                       None \<Rightarrow> None
                     | Some (b, v) \<Rightarrow> Some (\<lparr>r_status = status, r_headers = hs, r_body = b\<rparr>, v)))
           | _ \<Rightarrow> None))"

definition asks_close :: "http_response \<Rightarrow> bool" where
  "asks_close r \<longleftrightarrow> find_sub ''close'' (header_value (r_headers r) ''connection'') \<noteq> None"

lemma start_body_refines:
  assumes "flowing_conn c" "ref_body status cl te (future c) = Some (b, s)"
  shows "\<exists>c'. read_full_body (start_body status cl te c) [] = (Inr b, c') \<and> keeps c s c'"
proof -
  let ?c = "start_body status cl te c"
  have k: "keeps c (future c) ?c"
    using assms(1) by (auto simp: start_body_def Let_def keeps_def flowing_conn_def buf_ok_def)
  have lift: "keeps c u c'" if "keeps ?c u c'" for u c' using k that by (rule keeps_trans)
  from k have f: "flowing_conn ?c" "future ?c = future c" by (simp_all add: keeps_def)
  show ?thesis
  proof (cases "find_sub ''chunked'' te = None")
    case False
    then have "\<not> c_done ?c \<and> c_mode ?c = BodyChunked \<and> c_need_size ?c" by (simp add: start_body_def Let_def)
    with chunked_refines [of ?c "[]"] f assms(2) False lift show ?thesis
      by (auto simp: ref_body_def)
  next
    case True
    note nc = this
    show ?thesis
    proof (cases "cl \<noteq> [] \<and> 0 < strtoll 10 cl")
      case True
      then have cnt: "counting (nat (strtoll 10 cl)) ?c"
        using f nc by (simp add: counting_def start_body_def Let_def)
      from True nc assms(2) have n: "nat (strtoll 10 cl) \<le> length (future c)"
        "b = take (nat (strtoll 10 cl)) (future c)" "s = drop (nat (strtoll 10 cl)) (future c)"
        by (auto simp: ref_body_def Let_def split: if_splits)
      from counting_refines [OF cnt, of "[]"] n f obtain c' where
        c': "read_full_body ?c [] = read_full_body c' b" "keeps ?c s c'" "counted ?c c'" by auto
      moreover have "c_done c'" using c'(3) True nc by (simp add: counted_def start_body_def Let_def)
      ultimately show ?thesis using lift read_full_body_done by auto
    next
      case False
      with nc assms(2) have "b = []" "s = future c" "c_done ?c"
        by (auto simp: ref_body_def start_body_def Let_def split: if_splits)
      with k read_full_body_done show ?thesis by auto
    qed
  qed
qed

lemma read_response_refines:
  assumes "flowing_conn c" "ref_response lb (future c) = Some (resp, s)"
  shows "\<exists>c1 c2 r. read_status_and_headers lb c = (Inr r, c1) \<and> read_full_body c1 [] = (Inr (r_body resp), c2)
     \<and> resp = r\<lparr>r_body := r_body resp\<rparr> \<and> keeps c s c2"
proof -
  from assms(2) obtain line t sp hs cl te u b where
    l: "ref_line (future c) = Some (line, t)" "starts_with ''HTTP/'' line" "find_char (CHR '' '') line = Some sp"
    and h: "ref_headers t [] [] [] = Some (hs, cl, te, u)"
    and b: "ref_body (atoi lb (drop (sp + 1) line)) cl te u = Some (b, s)"
    and r: "resp = \<lparr>r_status = atoi lb (drop (sp + 1) line), r_headers = hs, r_body = b\<rparr>"
    by (auto simp: ref_response_def Let_def split: option.splits prod.splits bool.splits)
  from read_line_refines [OF assms(1), of "c_timeout c"] l(1) obtain c1 where
    c1: "read_line (c_timeout c) c = (Got line, c1)" "reaches c t c1" by auto
  note f1 = reaches_flowing [OF c1(2)]
  with header_loop_refines [of c1 "[]" "[]" "[]"] h obtain c2 where
    c2: "header_loop c1 [] [] [] = (Inr (hs, cl, te), c2)" "reaches c1 u c2" by auto
  have k2: "keeps c u c2" using keeps_reaches [OF reaches_trans [OF c1(2) c2(2)]] .
  have f2: "flowing_conn c2" "future c2 = u" using k2 by (simp_all add: keeps_def)
  from start_body_refines [OF f2(1) b [folded f2(2)]] obtain c3 where
    c3: "read_full_body (start_body (atoi lb (drop (sp + 1) line)) cl te c2) [] = (Inr b, c3)" "keeps c2 s c3" by blast
  show ?thesis
    using c1 c2 l c3 r keeps_trans [OF k2 c3(2)]
    by (auto simp: read_status_and_headers_def Let_def)
qed

section \<open>Sending\<close>

text \<open>A connection whose kernel accepts whatever is written.\<close>

lemma send_request_accepted:
  assumes "fd (c_sock c)" "unhindered (c_sock c)" "wire (c_sock c) = ws @ [w]"
  shows "\<exists>c'. send_request lb path hs body c = (None, c')
    \<and> c' = c\<lparr>c_sock := (c_sock c)\<lparr>wire := ws @ [w @ request_text lb (c_url c) path hs body]\<rparr>\<rparr>"
proof -
  have "request_text lb (c_url c) path hs body \<noteq> []" by (simp add: request_text_def)
  with assms show ?thesis
    by (auto simp: send_request_def sock_send_all_def tls_send_all_def plain_send_all_def unhindered_def append_last_def
        split: if_splits)
qed

lemma sent_future [simp]:
  "future (c\<lparr>c_sock := (c_sock c)\<lparr>wire := ws\<rparr>\<rparr>) = future c"
  "flowing_conn (c\<lparr>c_sock := (c_sock c)\<lparr>wire := ws\<rparr>\<rparr>) = flowing_conn c"
  by (simp_all add: future_def unread_def arriving_def read_answers_def flowing_conn_def buf_ok_def flowing_def)

lemma post_frame:
  assumes "connected c" "flowing_conn c" "unhindered (c_sock c)" "wire (c_sock c) = ws @ [w]"
    and "ref_response lb (future c) = Some (resp, rest)"
  shows "\<exists>c'. post lb path hs body c = (Inr resp, c')
     \<and> wire (c_sock c') = ws @ [w @ request_text lb (c_url c) path hs body]
     \<and> (if asks_close resp then \<not> connected c' else connected c' \<and> flowing_conn c' \<and> future c' = rest)"
proof -
  have fd: "fd (c_sock c)" "c_null c = None" using assms(1) by (simp_all add: connected_def)
  obtain c1 where s: "send_request lb path hs body c = (None, c1)"
    and c1: "c1 = c\<lparr>c_sock := (c_sock c)\<lparr>wire := ws @ [w @ request_text lb (c_url c) path hs body]\<rparr>\<rparr>"
    using send_request_accepted [OF fd(1) assms(3,4)] by blast
  have "flowing_conn c1" "ref_response lb (future c1) = Some (resp, rest)"
    using assms(2,5) c1 by simp_all
  from read_response_refines [OF this] obtain c2 c3 r where
    r: "read_status_and_headers lb c1 = (Inr r, c2)" "read_full_body c2 [] = (Inr (r_body resp), c3)"
      "resp = r\<lparr>r_body := r_body resp\<rparr>" "keeps c1 rest c3" by blast
  have hs: "r_headers r = r_headers resp" using r(3) by (metis http_response.select_convs(2) http_response.surjective http_response.update_convs(3))
  have eq: "post lb path hs body c = (Inr resp, if asks_close resp then conn_close c3 else c3)"
    using s r fd assms(1) by (simp add: post_def post_loop.simps [of _ _ _ _ 0] ensure_connected_def asks_close_def hs)
  have "same_peer c1 c3" using r(1,2) read_status_same_peer read_full_body_same_peer same_peer_trans by blast
  then have "fd (c_sock c3)" "c_null c3 = None" "wire (c_sock c3) = wire (c_sock c1)"
    using fd c1 by (simp_all add: same_peer_def)
  with eq r(4) c1 show ?thesis
    by (auto simp: connected_def conn_close_def keeps_def)
qed

text \<open>
  C3
  On a kept-alive connection \<^verbatim>\<open>Post\<close> writes its request exactly once and returns the response
  that the reference parser reads off the bytes buffered and coming, whatever the sizes of
  the reads; the connection is left at the byte after the response, or closed when the
  response asks for it.
\<close>

theorem post_returns_the_response:
  assumes "connected c" "flowing_conn c" "unhindered (c_sock c)" "wire (c_sock c) = ws @ [w]"
    and "ref_response lb (future c) = Some (resp, rest)"
  shows "\<exists>c'. post lb path hs body c = (Inr resp, c')
     \<and> wire (c_sock c') = ws @ [w @ request_text lb (c_url c) path hs body]
     \<and> (if asks_close resp then \<not> connected c' else connected c' \<and> flowing_conn c' \<and> future c' = rest)"
  using assms by (rule post_frame)

section \<open>A rendered response is read back\<close>

definition header_ok :: "string \<times> string \<Rightarrow> bool" where
  "header_ok h \<longleftrightarrow> (case h of (n, v) \<Rightarrow>
     CHR 0x0A \<notin> set n \<and> CHR '':'' \<notin> set n \<and> CHR 0x0A \<notin> set v
     \<and> (v = [] \<or> (hd v \<noteq> CHR '' '' \<and> hd v \<noteq> CHR 0x09 \<and> last v \<noteq> CHR '' '' \<and> last v \<noteq> CHR 0x0D)))"

definition header_lines :: "header_list \<Rightarrow> string" where
  "header_lines hs = concat (map (\<lambda>(n, v). n @ '': '' @ v @ crlf) hs)"

definition lower_names :: "header_list \<Rightarrow> header_list" where
  "lower_names hs = map (\<lambda>(n, v). (header_name n, v)) hs"

text \<open>The framing headers count by their last occurrence.\<close>

fun last_value :: "string \<Rightarrow> header_list \<Rightarrow> string \<Rightarrow> string" where
  "last_value name [] d = d"
| "last_value name ((n, v) # hs) d = last_value name hs (if n = name then v else d)"

definition response_text :: "nat \<Rightarrow> string \<Rightarrow> header_list \<Rightarrow> string" where
  "response_text status reason hs =
     ''HTTP/1.1 '' @ dec_nat status @ '' '' @ reason @ crlf @ header_lines hs @ crlf"

lemma header_text_value:
  assumes "v = [] \<or> (hd v \<noteq> CHR '' '' \<and> hd v \<noteq> CHR 0x09 \<and> last v \<noteq> CHR '' '' \<and> last v \<noteq> CHR 0x0D)"
  shows "header_text (CHR '' '' # v) = v"
proof (cases "v = []")
  case False
  with assms have "dropWhile (\<lambda>c. c = CHR '' '' \<or> c = CHR 0x09) (CHR '' '' # v) = v" by simp
  moreover have "dropWhile (\<lambda>c. c = CHR 0x0D \<or> c = CHR '' '') (rev v) = rev v"
    using False assms by (intro dropWhile_stop) (auto simp: hd_rev)
  ultimately show ?thesis by (simp add: header_text_def)
qed (simp add: header_text_def)

lemma header_line_read:
  assumes "header_ok (n, v)"
  shows "ref_headers ((n @ '': '' @ v @ crlf) @ s) acc cl te = ref_headers s (acc @ [(header_name n, v)])
     (if header_name n = ''content-length'' then v else cl) (if header_name n = ''transfer-encoding'' then v else te)"
proof -
  have nv: "CHR 0x0A \<notin> set (n @ '': '' @ v)" "last (n @ '': '' @ v) \<noteq> CHR 0x0D" "CHR '':'' \<notin> set n"
    using assms by (auto simp: header_ok_def)
  have "ref_line ((n @ '': '' @ v @ crlf) @ s) = Some (n @ '': '' @ v, s)"
    using ref_line_text [OF nv(1), of s] nv(2) by simp
  moreover have "find_char (CHR '':'') (n @ '': '' @ v) = Some (length n)"
    using find_char_append_fresh [OF nv(3), of "CHR '' '' # v"] by simp
  moreover have "header_text (CHR '' '' # v) = v"
    using assms by (intro header_text_value) (auto simp: header_ok_def)
  ultimately show ?thesis
    by (subst ref_headers.simps) (simp add: Let_def)
qed

lemma header_lines_read:
  "(\<And>h. h \<in> set hs \<Longrightarrow> header_ok h) \<Longrightarrow>
   ref_headers (header_lines hs @ crlf @ s) acc cl te =
     Some (acc @ lower_names hs, last_value ''content-length'' (lower_names hs) cl,
           last_value ''transfer-encoding'' (lower_names hs) te, s)"
proof (induction hs arbitrary: acc cl te)
  case Nil
  have "ref_line (crlf @ s) = Some ([], s)" using ref_line_text [of "[]" s] by simp
  then show ?case by (simp add: header_lines_def lower_names_def ref_headers.simps [of "crlf @ s"])
next
  case (Cons h hs)
  obtain n v where h: "h = (n, v)" by (cases h)
  have "header_ok (n, v)" using Cons.prems [of h] h by simp
  from header_line_read [OF this, of "header_lines hs @ crlf @ s" acc cl te] Cons.IH Cons.prems h
  show ?case by (simp add: header_lines_def lower_names_def)
qed

lemma response_text_read:
  assumes "CHR 0x0A \<notin> set reason" "reason = [] \<or> last reason \<noteq> CHR 0x0D"
    and "\<And>h. h \<in> set hs \<Longrightarrow> header_ok h" "int status \<le> int_max" "32 \<le> lb"
    and "ref_body (int status) (last_value ''content-length'' (lower_names hs) [])
           (last_value ''transfer-encoding'' (lower_names hs) []) t = Some (b, rest)"
  shows "ref_response lb (response_text status reason hs @ t)
     = Some (\<lparr>r_status = int status, r_headers = lower_names hs, r_body = b\<rparr>, rest)"
proof -
  let ?l = "''HTTP/1.1 '' @ dec_nat status @ '' '' @ reason"
  have nl: "CHR 0x0A \<notin> set (dec_nat status)" by (rule dec_nat_no_char) (simp add: is_digit_def byte_def)
  have "ref_line (?l @ crlf @ header_lines hs @ crlf @ t) = Some (?l, header_lines hs @ crlf @ t)"
    using assms(1,2) nl by (intro ref_line_text) auto
  moreover have "starts_with ''HTTP/'' ?l" by (simp add: starts_with_def)
  moreover have "find_char (CHR '' '') ?l = Some 8" by simp
  moreover have "atoi lb (dec_nat status @ CHR '' '' # reason) = int status"
    using assms(4,5) by (intro atoi_dec_nat_stop) (auto simp: is_digit_def byte_def)
  ultimately show ?thesis
    using assms(6) header_lines_read [of hs t "[]" "[]" "[]"] assms(3)
    by (simp add: ref_response_def response_text_def)
qed

text \<open>
  A response with a \<^verbatim>\<open>Content-Length\<close> is read back: status, headers (names in lower case, in
  order) and exactly that many bytes of body, with what follows left for the next response.
\<close>

lemma length_response_reads_back:
  assumes "CHR 0x0A \<notin> set reason" "reason = [] \<or> last reason \<noteq> CHR 0x0D"
    and "\<And>h. h \<in> set hs \<Longrightarrow> header_ok h" "int status \<le> int_max" "32 \<le> lb"
    and "last_value ''content-length'' (lower_names hs) [] = dec_nat (length body)"
    and "find_sub ''chunked'' (last_value ''transfer-encoding'' (lower_names hs) []) = None"
    and "int (length body) \<le> llong_max"
  shows "ref_response lb (response_text status reason hs @ body @ rest)
     = Some (\<lparr>r_status = int status, r_headers = lower_names hs, r_body = body\<rparr>, rest)"
proof (rule response_text_read [OF assms(1-5)])
  have "strtoll 10 (dec_nat (length body)) = int (length body)"
    using strtoll_dec_int [of "int (length body)"] assms(8) by (simp add: dec_int_def)
  then show "ref_body (int status) (last_value ''content-length'' (lower_names hs) [])
      (last_value ''transfer-encoding'' (lower_names hs) []) (body @ rest) = Some (body, rest)"
    using assms(6,7) by (simp add: ref_body_def Let_def)
qed

text \<open>A chunk with the line that gives its size, which may carry extensions, and its data.\<close>

definition chunk_ok :: "string \<times> string \<Rightarrow> bool" where
  "chunk_ok k \<longleftrightarrow> (case k of (sz, d) \<Rightarrow>
     sz \<noteq> [] \<and> CHR 0x0A \<notin> set sz \<and> last sz \<noteq> CHR 0x0D \<and> d \<noteq> [] \<and> chunk_size sz = int (length d))"

fun chunked_text :: "(string \<times> string) list \<Rightarrow> string" where
  "chunked_text [] = ''0'' @ crlf"
| "chunked_text ((sz, d) # ks) = sz @ crlf @ d @ crlf @ chunked_text ks"

lemma ref_size_text:
  assumes "l \<noteq> []" "CHR 0x0A \<notin> set l" "last l \<noteq> CHR 0x0D" "p = [] \<or> p = crlf"
  shows "ref_size (p @ l @ crlf @ s) = Some (l, s)"
proof -
  have l: "ref_size (l @ crlf @ s) = Some (l, s)"
    using ref_line_text [of l s] assms by (simp add: ref_size.simps [of "l @ crlf @ s"])
  moreover have "ref_size (crlf @ l @ crlf @ s) = ref_size (l @ crlf @ s)"
    using ref_line_text [of "[]" "l @ crlf @ s"] by (simp add: ref_size.simps [of "crlf @ l @ crlf @ s"])
  ultimately show ?thesis using assms(4) by auto
qed

lemma chunked_text_read:
  "(\<And>k. k \<in> set ks \<Longrightarrow> chunk_ok k) \<Longrightarrow> p = [] \<or> p = crlf \<Longrightarrow>
   ref_chunked (p @ chunked_text ks @ s) out = Some (out @ concat (map snd ks), s)"
proof (induction ks arbitrary: p out)
  case Nil
  have "ref_size (p @ ''0'' @ crlf @ s) = Some (''0'', s)" using Nil by (intro ref_size_text) auto
  moreover have "chunk_size ''0'' \<le> 0" by code_simp
  ultimately show ?case by (subst ref_chunked.simps) simp
next
  case (Cons k ks)
  obtain sz d where k: "k = (sz, d)" by (cases k)
  have ok: "sz \<noteq> []" "CHR 0x0A \<notin> set sz" "last sz \<noteq> CHR 0x0D" "d \<noteq> []" "chunk_size sz = int (length d)"
    using Cons.prems(1) [of k] k by (auto simp: chunk_ok_def)
  have "ref_size (p @ sz @ crlf @ (d @ crlf @ chunked_text ks @ s)) = Some (sz, d @ crlf @ chunked_text ks @ s)"
    using ok(1-3) Cons.prems(2) by (rule ref_size_text)
  then have "ref_chunked (p @ chunked_text (k # ks) @ s) out = ref_chunked (crlf @ chunked_text ks @ s) (out @ d)"
    using ok k by (subst ref_chunked.simps) (simp add: Let_def)
  with Cons.IH [of crlf "out @ d"] Cons.prems(1) k show ?case by simp
qed

text \<open>The reference parser on a chunked response; the empty line at its end is not part of what it takes.\<close>

lemma chunked_response_text:
  assumes "CHR 0x0A \<notin> set reason" "reason = [] \<or> last reason \<noteq> CHR 0x0D"
    and "\<And>h. h \<in> set hs \<Longrightarrow> header_ok h" "int status \<le> int_max" "32 \<le> lb"
    and "find_sub ''chunked'' (last_value ''transfer-encoding'' (lower_names hs) []) \<noteq> None"
    and "\<And>k. k \<in> set ks \<Longrightarrow> chunk_ok k"
  shows "ref_response lb (response_text status reason hs @ chunked_text ks @ crlf @ rest)
     = Some (\<lparr>r_status = int status, r_headers = lower_names hs, r_body = concat (map snd ks)\<rparr>, crlf @ rest)"
proof (rule response_text_read [OF assms(1-5)])
  show "ref_body (int status) (last_value ''content-length'' (lower_names hs) [])
      (last_value ''transfer-encoding'' (lower_names hs) []) (chunked_text ks @ crlf @ rest)
      = Some (concat (map snd ks), crlf @ rest)"
    using assms(6) chunked_text_read [OF assms(7), of ks "[]" "crlf @ rest" "[]"]
    by (auto simp: ref_body_def)
qed

section \<open>Resending\<close>

lemma wire_close [simp]: "wire (c_sock (conn_close c)) = wire (c_sock c)"
  by (simp add: conn_close_def)

text \<open>
  C40
  A request on a kept-alive connection is sent a second time whenever no status line can be
  read after it went out: when the answer has not come within the timeout, and when what is
  left of the response before, such as the end of a chunked body, is taken for a status line.
  The first peer then has the request and so has the second.
\<close>

theorem post_resends_after_sending:
  assumes "connected c" "flowing_conn c" "unhindered (c_sock c)" "wire (c_sock c) = ws @ [w]"
    and "case ref_line (future c) of None \<Rightarrow> True | Some (l, _) \<Rightarrow> \<not> starts_with ''HTTP/'' l"
    and "\<not> over_tls (c_sock c)" "dials (c_sock c) = d # ds" "dial_sending d = []"
    and "dial_tcp (host (c_url c)) (port (c_url c)) (dial_resolution d) = Inr ()"
  shows "wire (c_sock (snd (post lb path hs body c))) =
     ws @ [w @ request_text lb (c_url c) path hs body, request_text lb (c_url c) path hs body]"
proof -
  let ?req = "request_text lb (c_url c) path hs body"
  have fd: "fd (c_sock c)" "c_null c = None" using assms(1) by (simp_all add: connected_def)
  obtain c1 where s: "send_request lb path hs body c = (None, c1)"
    and c1: "c1 = c\<lparr>c_sock := (c_sock c)\<lparr>wire := ws @ [w @ ?req]\<rparr>\<rparr>"
    using send_request_accepted [OF fd(1) assms(3,4)] by blast
  have f1: "flowing_conn c1" "future c1 = future c" using assms(2) c1 by simp_all
  obtain r c2 where r: "read_status_and_headers lb c1 = (r, c2)" by fastforce
  obtain e where e: "r = Inl e"
    using read_line_refines [OF f1(1), of "c_timeout c1"] assms(5) f1(2) r
    by (auto simp: read_status_and_headers_def split: option.splits bool.splits)
  have p2: "same_peer c1 c2" using r read_status_same_peer by blast
  let ?c3 = "conn_close c2"
  let ?s = "(c_sock ?c3)\<lparr>fd := True, recv_timeout := -1, incoming := dial_incoming d,
      sending := [], cut_after := dial_cut d, shut_down := False, dials := ds, wire := ws @ [w @ ?req, []]\<rparr>"
  have c3: "\<not> connected ?c3" "ensure_connected ?c3 = (None, ?c3\<lparr>c_buf := [], c_pos := 0, c_sock := ?s\<rparr>)"
    using p2 c1 fd assms(6-9)
    by (simp_all add: connected_def conn_close_def sock_close_def plain_close_def ensure_connected_def sock_connect_def
        plain_connect_def same_peer_def sock_link_def)
  let ?c4 = "?c3\<lparr>c_buf := [], c_pos := 0, c_sock := ?s\<rparr>"
  have "wire (c_sock ?c4) = (ws @ [w @ ?req]) @ [[]]" by simp
  from send_request_accepted [OF _ _ this, of lb path hs body] obtain c5 where
    c5: "send_request lb path hs body ?c4 = (None, c5)" "wire (c_sock c5) = ws @ [w @ ?req, ?req]"
    using p2 c1 assms(6) by (auto simp: same_peer_def conn_close_def unhindered_def sock_link_def sock_close_def plain_close_def)
  obtain r6 c6 where r6: "read_status_and_headers lb c5 = (r6, c6)" by fastforce
  have w6: "wire (c_sock c6) = wire (c_sock c5)"
    using read_status_same_peer [OF r6] by (simp add: same_peer_def)
  have w7: "wire (c_sock (snd (read_full_body c6 []))) = wire (c_sock c6)"
    using read_full_body_same_peer [of c6 "[]"] by (cases "read_full_body c6 []") (simp add: same_peer_def)
  have "post lb path hs body c = post_loop lb path hs body 1 e ?c3"
    using s r e fd assms(1)
    by (simp add: post_def post_loop.simps [of _ _ _ _ 0] ensure_connected_def)
  then show ?thesis
    using c3 c5 r6 w6 w7
    by (auto simp: post_loop.simps [of _ _ _ _ "Suc 0"] Let_def split: sum.splits prod.splits)
qed

section \<open>Concrete connections\<close>

definition example_url :: url where
  "example_url = \<lparr>scheme = ''http'', host = ''h'', port = 80, base_path = []\<rparr>"

text \<open>A connection that has served a request before, with the pieces its peer will send.\<close>

definition kept_alive :: "string list \<Rightarrow> dial list \<Rightarrow> conn" where
  "kept_alive ps ds = (new_conn False example_url 1000 (quiet_sock\<lparr>incoming := map RecvData ps, dials := ds\<rparr>))"

lemma kept_alive_facts:
  "connected (kept_alive ps ds)" "unhindered (c_sock (kept_alive ps ds))"
  "wire (c_sock (kept_alive ps ds)) = [] @ [[]]" "dials (c_sock (kept_alive ps ds)) = ds"
  "c_url (kept_alive ps ds) = example_url" "\<not> over_tls (c_sock (kept_alive ps ds))"
  by (simp_all add: kept_alive_def new_conn_def connected_def quiet_sock_def new_transport_def
      secure_def example_url_def unhindered_def)

lemma kept_alive_flowing: "[] \<notin> set ps \<Longrightarrow> flowing_conn (kept_alive ps ds)"
  by (auto simp: kept_alive_def new_conn_def quiet_sock_def flowing_conn_def buf_ok_def flowing_def read_answers_def
      new_transport_def secure_def example_url_def)

lemma kept_alive_future: "future (kept_alive ps ds) = concat ps"
  by (simp add: kept_alive_def new_conn_def quiet_sock_def future_def unread_def arriving_def comp_def read_answers_def
      new_transport_def secure_def example_url_def)

definition small_response :: "string list" where
  "small_response = [''HTTP/1.1 200 OK'' @ crlf @ ''Content-Le'', ''ngth: 2'' @ crlf @ crlf @ ''{'', ''}'']"

lemma post_returns_the_response_witness:
  "\<exists>c'. post 64 ''/x'' [] ''{}'' (kept_alive small_response [])
       = (Inr \<lparr>r_status = 200, r_headers = [(''content-length'', ''2'')], r_body = ''{}''\<rparr>, c')
     \<and> wire (c_sock c') = [] @ [[] @ request_text 64 (c_url (kept_alive small_response [])) ''/x'' [] ''{}'']
     \<and> (if asks_close \<lparr>r_status = 200, r_headers = [(''content-length'', ''2'')], r_body = ''{}''\<rparr>
        then \<not> connected c' else connected c' \<and> flowing_conn c' \<and> future c' = [])"
proof (rule post_returns_the_response)
  show "flowing_conn (kept_alive small_response [])"
    by (rule kept_alive_flowing) (simp add: small_response_def)
  show "ref_response 64 (future (kept_alive small_response []))
    = Some (\<lparr>r_status = 200, r_headers = [(''content-length'', ''2'')], r_body = ''{}''\<rparr>, [])"
    unfolding kept_alive_future by code_simp
qed (rule kept_alive_facts)+

lemma length_response_reads_back_witness:
  "ref_response 32 (response_text 200 ''OK'' [(''Content-Length'', ''2'')] @ ''{}'' @ ''HTTP'')
     = Some (\<lparr>r_status = int 200, r_headers = lower_names [(''Content-Length'', ''2'')], r_body = ''{}''\<rparr>, ''HTTP'')"
proof (rule length_response_reads_back)
  show "last_value ''content-length'' (lower_names [(''Content-Length'', ''2'')]) [] = dec_nat (length ''{}'')"
    by code_simp
  show "find_sub ''chunked'' (last_value ''transfer-encoding'' (lower_names [(''Content-Length'', ''2'')]) []) = None"
    by code_simp
  show "header_ok h" if "h \<in> set [(''Content-Length'', ''2'')]" for h
    using that by (simp add: header_ok_def)
qed simp_all

text \<open>
  C29
  \<^verbatim>\<open>Post\<close> on a kept-alive connection whose peer answers with a rendered chunked response: it writes its
  request once and returns the status, the headers (names in lower case, in order) and as body the data of
  the chunks in order, whatever extensions follow the sizes and however the bytes are cut into reads. The
  empty line that ends the chunked body is not consumed: unless the response asks to close, it stays in
  front of what the next \<^verbatim>\<open>Post\<close> reads.
\<close>

theorem chunked_response_reads_back:
  assumes "connected c" "flowing_conn c" "unhindered (c_sock c)" "wire (c_sock c) = ws @ [w]"
    and "future c = response_text status reason hs @ chunked_text ks @ crlf @ rest"
    and "CHR 0x0A \<notin> set reason" "reason = [] \<or> last reason \<noteq> CHR 0x0D"
    and "\<And>h. h \<in> set hs \<Longrightarrow> header_ok h" "int status \<le> int_max" "32 \<le> lb"
    and "find_sub ''chunked'' (last_value ''transfer-encoding'' (lower_names hs) []) \<noteq> None"
    and "\<And>k. k \<in> set ks \<Longrightarrow> chunk_ok k"
  shows "\<exists>c'. post lb path rhs body c
       = (Inr \<lparr>r_status = int status, r_headers = lower_names hs, r_body = concat (map snd ks)\<rparr>, c')
     \<and> wire (c_sock c') = ws @ [w @ request_text lb (c_url c) path rhs body]
     \<and> (if find_sub ''close'' (header_value (lower_names hs) ''connection'') \<noteq> None then \<not> connected c'
        else connected c' \<and> flowing_conn c' \<and> future c' = crlf @ rest)"
  using post_frame [OF assms(1-4), of lb _ "crlf @ rest" path rhs body] assms(5)
    chunked_response_text [OF assms(6-12), where rest = rest]
  by (auto simp: asks_close_def)

definition chunked_pieces :: "string list" where
  "chunked_pieces = [''HTTP/1.1 200 OK'' @ crlf @ ''Transfer-Enc'', ''oding: chunked'' @ crlf @ crlf @ ''2;x=y'' @ crlf @ ''{'',
     '' '' @ crlf @ ''1'', crlf @ ''}'' @ crlf @ ''0'' @ crlf @ crlf @ ''HTTP'']"

lemma chunked_response_reads_back_witness:
  "\<exists>c'. post 32 ''/x'' [] ''{}'' (kept_alive chunked_pieces [])
       = (Inr \<lparr>r_status = int 200, r_headers = lower_names [(''Transfer-Encoding'', ''chunked'')],
              r_body = concat (map snd [(''2;x=y'', ''{ ''), (''1'', ''}'')])\<rparr>, c')
     \<and> wire (c_sock c') = [] @ [[] @ request_text 32 (c_url (kept_alive chunked_pieces [])) ''/x'' [] ''{}'']
     \<and> (if find_sub ''close'' (header_value (lower_names [(''Transfer-Encoding'', ''chunked'')]) ''connection'') \<noteq> None
        then \<not> connected c' else connected c' \<and> flowing_conn c' \<and> future c' = crlf @ ''HTTP'')"
proof (rule chunked_response_reads_back)
  show "flowing_conn (kept_alive chunked_pieces [])"
    by (rule kept_alive_flowing) (simp add: chunked_pieces_def crlf_def)
  show "future (kept_alive chunked_pieces []) = response_text 200 ''OK'' [(''Transfer-Encoding'', ''chunked'')]
      @ chunked_text [(''2;x=y'', ''{ ''), (''1'', ''}'')] @ crlf @ ''HTTP''"
    unfolding kept_alive_future by code_simp
  show "find_sub ''chunked'' (last_value ''transfer-encoding'' (lower_names [(''Transfer-Encoding'', ''chunked'')]) []) \<noteq> None"
    by code_simp
  show "chunk_ok k" if "k \<in> set [(''2;x=y'', ''{ ''), (''1'', ''}'')]" for k
  proof -
    have "chunk_ok (''2;x=y'', ''{ '')" "chunk_ok (''1'', ''}'')" by code_simp+
    with that show ?thesis by auto
  qed
  show "header_ok h" if "h \<in> set [(''Transfer-Encoding'', ''chunked'')]" for h
    using that by (simp add: header_ok_def)
qed (simp_all add: kept_alive_facts)

text \<open>The empty line that a chunked response left behind makes the next request go out twice.\<close>

lemma post_resends_after_sending_witness:
  "wire (c_sock (snd (post 64 ''/x'' [] ''{}'' (kept_alive [crlf] [\<lparr>dial_resolution = Addresses ConnectedNow [],
       dial_incoming = map RecvData small_response, dial_sending = [], dial_cut = 0,
       dial_ssl = no_ssl\<rparr>])))) =
   [] @ [[] @ request_text 64 example_url ''/x'' [] ''{}'', request_text 64 example_url ''/x'' [] ''{}'']"
proof -
  let ?d = "\<lparr>dial_resolution = Addresses ConnectedNow [], dial_incoming = map RecvData small_response, dial_sending = [], dial_cut = 0,
       dial_ssl = no_ssl\<rparr>"
  let ?c = "kept_alive [crlf] [?d]"
  have "ref_line (future ?c) = Some ([], [])" unfolding kept_alive_future by code_simp
  then have "case ref_line (future ?c) of None \<Rightarrow> True | Some (l, _) \<Rightarrow> \<not> starts_with ''HTTP/'' l"
    by (simp add: starts_with_def)
  moreover have "flowing_conn ?c" by (rule kept_alive_flowing) (simp add: crlf_def)
  moreover have "dial_tcp (host (c_url ?c)) (port (c_url ?c)) (dial_resolution ?d) = Inr ()"
    by (simp add: dial_tcp_def)
  ultimately show ?thesis
    using post_resends_after_sending [of ?c "[]" "[]" ?d "[]" 64 "''/x''" "[]" "''{}''"] kept_alive_facts [of "[crlf]" "[?d]"]
    by simp
qed

section \<open>Interrupting a kept-alive connection\<close>

text \<open>A new connection does not depend on what was left of the old one.\<close>

lemma close_alike:
  "sock_close (s\<lparr>incoming := i, shut_down := b, ssl_reads := rs\<rparr>) = (sock_close s)\<lparr>incoming := i, shut_down := b, ssl_reads := rs\<rparr>"
  by (simp add: sock_close_def tls_close_def plain_close_def)

lemma plain_connect_alike:
  assumes "plain_connect h p s = (r, s1)"
  shows "plain_connect h p (s\<lparr>incoming := i, shut_down := b, ssl_reads := rs\<rparr>)
    = (r, if r = None then s1\<lparr>ssl_reads := rs\<rparr> else s1\<lparr>incoming := i, shut_down := b, ssl_reads := rs\<rparr>)"
proof (cases "dials s")
  case (Cons d ds)
  then show ?thesis
    using assms by (cases "dial_tcp h p (dial_resolution d)") (auto simp: plain_connect_def close_alike)
qed (use assms in \<open>auto simp: plain_connect_def close_alike\<close>)

lemma handshake_alike:
  assumes "tls_handshake h tmo p s = (r, s1)"
  shows "\<exists>s1'. tls_handshake h tmo p (s\<lparr>ssl_reads := rs\<rparr>) = (r, s1') \<and> wire s1' = wire s1 \<and> (r = None \<longrightarrow> s1' = s1)"
  using assms by (auto simp: tls_handshake_def Let_def split: option.splits if_splits)

lemma reconnect_alike:
  assumes "sock_connect h p tmo s = (r, s1)" "\<not> over_tls s \<longrightarrow> rs = ssl_reads s"
  shows "\<exists>s1'. sock_connect h p tmo (s\<lparr>incoming := i, shut_down := b, ssl_reads := rs\<rparr>) = (r, s1') \<and> wire s1' = wire s1
    \<and> (r = None \<longrightarrow> s1' = s1)"
proof -
  obtain q t where q: "plain_connect h p s = (q, t)" by fastforce
  note q' = plain_connect_alike [OF q, of rs b i]
  show ?thesis
  proof (cases "over_tls s \<and> q = None")
    case True
    obtain u t' where u: "tls_handshake h tmo (dial_ssl (hd (dials s))) t = (u, t')" by fastforce
    then show ?thesis using handshake_alike [OF u, of rs] True assms q q' by (auto simp: sock_connect_def tls_connect_def)
  next
    case False
    have "t\<lparr>ssl_reads := rs\<rparr> = t" if "q = None"
    proof (cases rule: plain_connect_cases [OF q])
      case 2
      then show ?thesis using that False assms(2) by (simp add: sock_close_def plain_close_def)
    qed (use that in simp)
    then show ?thesis using False assms q q' by (cases q) (auto simp: sock_connect_def tls_connect_def)
  qed
qed

lemma interrupted_send:
  assumes "connected c"
  shows "\<exists>e. send_request lb path hs body (conn_interrupt c) = (Some e, conn_interrupt c)"
proof -
  have "request_text lb u path hs body \<noteq> []" for u by (simp add: request_text_def)
  with assms show ?thesis
    by (auto simp: send_request_def sock_send_all_def tls_send_all_def plain_send_all_def conn_interrupt_def
        sock_interrupt_def connected_def)
qed

text \<open>
  \<^verbatim>\<open>Interrupt\<close> does not end the calls of a kept-alive connection: a request that is about to be written when
  another thread shuts the socket down is made all the same, on a new connection, with the outcome it
  would have had without one; so a worker or a stream thread that is to stop may first wait
  for another answer.
\<close>

lemma interrupted_post_starts_over:
  assumes "connected c"
  shows "fst (post lb path hs body (conn_interrupt c)) = fst (post lb path hs body (conn_close c))
    \<and> wire (c_sock (snd (post lb path hs body (conn_interrupt c)))) = wire (c_sock (snd (post lb path hs body (conn_close c))))"
proof -
  let ?x = "conn_close c" and ?y = "conn_close (conn_interrupt c)"
  obtain e where e: "send_request lb path hs body (conn_interrupt c) = (Some e, conn_interrupt c)"
    using interrupted_send [OF assms] by blast
  have "connected (conn_interrupt c)" "ensure_connected (conn_interrupt c) = (None, conn_interrupt c)"
    using assms by (simp_all add: connected_def conn_interrupt_def sock_interrupt_def ensure_connected_def)
  with e have first: "post lb path hs body (conn_interrupt c) = post_loop lb path hs body (Suc 0) e ?y"
    by (simp add: post_def post_loop.simps [of _ _ _ _ 0])
  let ?i = "incoming (sock_interrupt (c_sock c))" and ?rs = "ssl_reads (sock_interrupt (c_sock c))"
  have "sock_interrupt (c_sock c) = (c_sock c)\<lparr>incoming := ?i, shut_down := True, ssl_reads := ?rs\<rparr>"
    using assms by (simp add: sock_interrupt_def connected_def)
  then have s: "c_sock ?y = (c_sock ?x)\<lparr>incoming := ?i, shut_down := True, ssl_reads := ?rs\<rparr>"
    using assms close_alike [of ?rs True ?i "c_sock c"] by (simp add: conn_close_def conn_interrupt_def connected_def)
  have keep: "\<not> over_tls (c_sock ?x) \<longrightarrow> ?rs = ssl_reads (c_sock ?x)"
    using assms by (simp add: sock_interrupt_def connected_def conn_close_def sock_close_def tls_close_def plain_close_def)
  have y: "?y = ?x\<lparr>c_sock := c_sock ?y\<rparr>"
    using assms by (simp add: conn_close_def conn_interrupt_def connected_def)
  obtain r s1 where r: "sock_connect (host (c_url c)) (port (c_url c)) (c_timeout c) (c_sock ?x) = (r, s1)" by fastforce
  obtain s2 where s2: "sock_connect (host (c_url c)) (port (c_url c)) (c_timeout c) (c_sock ?y) = (r, s2)"
      "wire s2 = wire s1" "r = None \<longrightarrow> s2 = s1"
    using reconnect_alike [OF r keep, of True ?i] unfolding s by blast
  have shut: "\<not> connected ?x" "\<not> connected ?y" "c_null ?x = None" "c_null ?y = None" "\<not> fd (c_sock ?x)" "\<not> fd (c_sock ?y)"
      "c_url ?x = c_url c" "c_url ?y = c_url c" "c_timeout ?x = c_timeout c" "c_timeout ?y = c_timeout c"
    using assms by (simp_all add: connected_def conn_close_def conn_interrupt_def)
  have x1: "ensure_connected ?x = (r, ?x\<lparr>c_buf := [], c_pos := 0, c_sock := s1\<rparr>)"
    using r shut by (simp add: ensure_connected_def)
  have y1: "ensure_connected ?y = (r, ?x\<lparr>c_buf := [], c_pos := 0, c_sock := s2\<rparr>)"
    using s2(1) shut by (simp add: ensure_connected_def) (subst y, simp)
  show ?thesis
  proof (cases r)
    case None
    then have "post_loop lb path hs body (Suc 0) e ?y = post_loop lb path hs body 0 [] ?x"
      using s2(3) x1 y1 shut(1,2) by (simp add: post_loop.simps [of _ _ _ _ "Suc 0"] post_loop.simps [of _ _ _ _ 0] cong: prod.case_cong option.case_cong
        sum.case_cong)
    then show ?thesis using first by (simp add: post_def)
  next
    case (Some m)
    then have "post_loop lb path hs body (Suc 0) e ?y = (Inl m, ?x\<lparr>c_buf := [], c_pos := 0, c_sock := s2\<rparr>)"
      using y1 by (simp add: post_loop.simps [of _ _ _ _ "Suc 0"])
    moreover have "post lb path hs body ?x = (Inl m, ?x\<lparr>c_buf := [], c_pos := 0, c_sock := s1\<rparr>)"
      using Some x1 by (simp add: post_def post_loop.simps [of _ _ _ _ 0])
    ultimately show ?thesis using first s2(2) by simp
  qed
qed

text \<open>The server answers the second connection.\<close>

lemma interrupted_post_starts_over_witness:
  "fst (post 64 ''/x'' [] ''{}'' (conn_interrupt (kept_alive [] [\<lparr>dial_resolution = Addresses ConnectedNow [],
       dial_incoming = map RecvData small_response, dial_sending = [], dial_cut = 0, dial_ssl = no_ssl\<rparr>])))
   = fst (post 64 ''/x'' [] ''{}'' (conn_close (kept_alive [] [\<lparr>dial_resolution = Addresses ConnectedNow [],
       dial_incoming = map RecvData small_response, dial_sending = [], dial_cut = 0, dial_ssl = no_ssl\<rparr>])))"
  using interrupted_post_starts_over [OF kept_alive_facts(1)] by blast

end
