(* ===== verification/Connect_Client.thy ===== *)
theory Connect_Client
  imports Http_Post Json_Builder
begin

text \<open>
  src/connect_client.h and src/connect_client.cpp: errors of the Connect protocol, unary calls
  over one connection, and the event stream with its envelopes, one byte of flags and a
  big-endian length before each message. \<open>lb\<close> is the width of the target's \<^verbatim>\<open>long\<close>: the length
  of an envelope is an \<^verbatim>\<open>unsigned long\<close>. Debug logging is left out.
\<close>

section \<open>Errors\<close>

record rpc_error =
  e_code :: string
  e_message :: string
  e_status :: int

definition permanent :: "rpc_error \<Rightarrow> bool" where
  "permanent e \<longleftrightarrow> e_code e = ''unauthenticated'' \<or> e_code e = ''permission_denied''
     \<or> e_code e = ''invalid_argument''"

definition error_text :: "rpc_error \<Rightarrow> string" where
  "error_text e = e_code e @ '': '' @ e_message e"

definition error_from_response :: "http_response \<Rightarrow> rpc_error" where
  "error_from_response resp =
     (let other = (if r_status resp = 404 then
             ''no such RPC on the audio server (check the plugin's service path)''
           else if r_status resp = 405 then ''audio server rejected the request method''
           else let text = (if length (r_body resp) > 200 then take 200 (r_body resp) @ ''...''
                            else r_body resp)
                in ''HTTP '' @ dec_int (r_status resp) @ '' from audio server: '' @ c_str text);
          internal = \<lparr>e_code = ''internal'', e_message = other, e_status = r_status resp\<rparr> in
      case json_parse (r_body resp) of
        Inr b \<Rightarrow> if is_object b \<and> has b ''code''
                 then \<lparr>e_code = get_str b ''code'' [], e_message = get_str b ''message'' [],
                       e_status = r_status resp\<rparr>
                 else internal
      | Inl _ \<Rightarrow> internal)"

definition transport_error :: "string \<Rightarrow> rpc_error" where
  "transport_error m = \<lparr>e_code = ''unavailable'', e_message = m, e_status = 0\<rparr>"

section \<open>Envelopes\<close>

definition envelope :: "nat \<Rightarrow> string \<Rightarrow> string" where
  "envelope lb payload =
     (let n = length payload mod 2 ^ lb in
      [char_of (0::nat), char_of (n div 2 ^ 24 mod 256), char_of (n div 2 ^ 16 mod 256),
       char_of (n div 2 ^ 8 mod 256), char_of (n mod 256)] @ payload)"

section \<open>Unary calls\<close>

definition service_path :: string where
  "service_path = ''/audioserver.v1.AudioServerService/''"

definition call_headers :: "string \<Rightarrow> string \<Rightarrow> header_list" where
  "call_headers content_type tok =
     [(''Content-Type'', content_type), (''Connect-Protocol-Version'', ''1''),
      (''Authorization'', ''Bearer '' @ tok)]"

record client =
  cl_conn :: conn
  cl_token :: string

definition new_client :: "bool \<Rightarrow> url \<Rightarrow> string \<Rightarrow> int \<Rightarrow> sock \<Rightarrow> client" where
  "new_client tls u tok tmo s = \<lparr>cl_conn = new_conn tls u tmo s, cl_token = tok\<rparr>"

definition client_interrupt :: "client \<Rightarrow> client" where
  "client_interrupt cl = cl\<lparr>cl_conn := conn_interrupt (cl_conn cl)\<rparr>"

definition call_rpc :: "nat \<Rightarrow> string \<Rightarrow> string \<Rightarrow> client \<Rightarrow> (rpc_error + json) \<times> client" where
  "call_rpc lb rpc request cl =
     (case post lb (service_path @ rpc) (call_headers ''application/json'' (cl_token cl)) request (cl_conn cl) of
        (Inl e, c) \<Rightarrow> (Inl (transport_error e), cl\<lparr>cl_conn := c\<rparr>)
      | (Inr resp, c) \<Rightarrow>
          if r_status resp \<noteq> 200 then (Inl (error_from_response resp), cl\<lparr>cl_conn := c\<rparr>)
          else case json_parse (r_body resp) of
            Inl e \<Rightarrow> (Inl (transport_error (''could not parse '' @ rpc @ '' response: '' @ e)), cl\<lparr>cl_conn := c\<rparr>)
          | Inr v \<Rightarrow> (Inr v, cl\<lparr>cl_conn := c\<rparr>))"

section \<open>The event stream\<close>

record stream =
  st_conn :: conn
  st_token :: string
  st_pending :: string
  st_pos :: nat
  st_ended :: bool

definition new_stream :: "bool \<Rightarrow> url \<Rightarrow> string \<Rightarrow> int \<Rightarrow> sock \<Rightarrow> stream" where
  "new_stream tls u tok tmo s =
     \<lparr>st_conn = new_conn tls u tmo s, st_token = tok, st_pending = [], st_pos = 0, st_ended = True\<rparr>"

definition stream_interrupt :: "stream \<Rightarrow> stream" where
  "stream_interrupt st = st\<lparr>st_conn := conn_interrupt (st_conn st)\<rparr>"

text \<open>\<^verbatim>\<open>while (conn_.ReadBody(&rest, 1000, &ignored) == 1)\<close>\<close>

function drain_body :: "int \<Rightarrow> conn \<Rightarrow> string \<Rightarrow> string \<times> conn" where
  "drain_body tmo c out =
     (case read_body tmo c of
        (Chunk d, c1) \<Rightarrow> drain_body tmo c1 (out @ d)
      | (r, c1) \<Rightarrow> (out, c1))"
  by pat_completeness auto
termination
  by (relation "measure (\<lambda>(tmo, c, out). body_rank c)") (auto dest: read_body_progress [OF sym])

declare drain_body.simps [simp del]

definition stream_open :: "nat \<Rightarrow> string \<Rightarrow> stream \<Rightarrow> rpc_error option \<times> stream" where
  "stream_open lb slug st =
     (let st1 = st\<lparr>st_pending := [], st_pos := 0, st_ended := False\<rparr>;
          body = envelope lb (jo_build (jo_str ''slug'' slug [])) in
      case begin_post lb (service_path @ ''SubscribeEvents'')
             (call_headers ''application/connect+json'' (st_token st)) body (st_conn st) of
        (Inl e, c) \<Rightarrow> (Some (transport_error e), st1\<lparr>st_ended := True, st_conn := c\<rparr>)
      | (Inr resp, c) \<Rightarrow>
          if r_status resp \<noteq> 200 then
            (case drain_body 1000 c [] of
               (rest, c1) \<Rightarrow>
                 (Some (error_from_response (resp\<lparr>r_body := r_body resp @ rest\<rparr>)),
                  st1\<lparr>st_ended := True, st_conn := conn_close c1\<rparr>))
          else (None, st1\<lparr>st_conn := c\<rparr>))"

text \<open>What one \<^verbatim>\<open>Read\<close> reports: 1, 0 or -1.\<close>

datatype event_read = Event json | Quiet | Lost rpc_error

definition envelope_length :: "string \<Rightarrow> nat" where
  "envelope_length p = byte (p ! 1) * 2 ^ 24 + byte (p ! 2) * 2 ^ 16 + byte (p ! 3) * 2 ^ 8 + byte (p ! 4)"

text \<open>\<^verbatim>\<open>5 + length\<close>, an \<^verbatim>\<open>unsigned long\<close>.\<close>

definition envelope_size :: "nat \<Rightarrow> string \<Rightarrow> nat" where
  "envelope_size lb p = (5 + envelope_length p) mod 2 ^ lb"

text \<open>What an envelope says once it is whole: a message, the end of the stream or garbage.\<close>

definition frame_result :: "nat \<Rightarrow> string \<Rightarrow> event_read" where
  "frame_result flags payload =
     (if flags div 2 mod 2 = 1 then
        (case json_parse payload of
           Inr eos \<Rightarrow>
             if has eos ''error'' then
               (let e = get eos ''error'' in
                Lost \<lparr>e_code = get_str e ''code'' ''internal'',
                      e_message = get_str e ''message'' ''stream ended with an error'', e_status = 200\<rparr>)
             else Lost (transport_error ''event stream closed by the audio server'')
         | Inl _ \<Rightarrow> Lost (transport_error ''event stream closed by the audio server''))
      else case json_parse payload of
             Inl e \<Rightarrow> Lost (transport_error (''could not parse event: '' @ e))
           | Inr v \<Rightarrow> Event v)"

definition skip_pending :: "nat \<Rightarrow> stream \<Rightarrow> stream" where
  "skip_pending n st =
     (let pos = st_pos st + n in
      if pos > 65536 then st\<lparr>st_pending := drop pos (st_pending st), st_pos := 0\<rparr>
      else st\<lparr>st_pos := pos\<rparr>)"

function stream_read :: "nat \<Rightarrow> int \<Rightarrow> stream \<Rightarrow> event_read \<times> stream" where
  "stream_read lb tmo st =
     (let p = drop (st_pos st) (st_pending st) in
      if length p \<ge> 5 \<and> length p \<ge> envelope_size lb p then
        (let payload = take (envelope_length p) (drop 5 p);
             st1 = skip_pending (envelope_size lb p) st;
             r = frame_result (byte (p ! 0)) payload in
         (r, case r of Lost _ \<Rightarrow> st1\<lparr>st_ended := True\<rparr> | _ \<Rightarrow> st1))
      else if st_ended st then (Lost (transport_error ''event stream ended''), st)
      else case read_body tmo (st_conn st) of
             (NotYet, c) \<Rightarrow> (Quiet, st\<lparr>st_conn := c\<rparr>)
           | (Ended e, c) \<Rightarrow>
               (Lost (transport_error (case e of Some m \<Rightarrow> if m = [] then ''event stream ended'' else m
                                                | None \<Rightarrow> ''event stream ended'')),
                st\<lparr>st_conn := c, st_ended := True\<rparr>)
           | (Chunk d, c) \<Rightarrow> stream_read lb tmo (st\<lparr>st_conn := c, st_pending := st_pending st @ d\<rparr>))"
  by pat_completeness auto
termination
  by (relation "measure (\<lambda>(lb, tmo, st). body_rank (st_conn st))") (auto dest: read_body_progress [OF sym])

declare stream_read.simps [simp del]

end
