(* ===== verification/Event_Framing.thy ===== *)
theory Event_Framing
  imports Connect_Client
begin

text \<open>
  The event stream against its specification. The body of a response that does not end is a
  source of bytes (an interpretation of \<open>byte_source\<close>), chunked or not; the envelopes read
  from it are those of the reference \<open>ref_frame\<close>, however reads cut them up, and a timeout
  in the middle of one loses nothing.
\<close>

section \<open>An unfinished body is a source of bytes\<close>

function part_chunked :: "string \<Rightarrow> string" where
  "part_chunked s =
     (case ref_size s of
        None \<Rightarrow> []
      | Some (l, t) \<Rightarrow>
          if chunk_size l \<le> 0 then []
          else take (nat (chunk_size l)) t @ part_chunked (drop (nat (chunk_size l)) t))"
  by pat_completeness auto
termination by (relation "measure length") (auto dest: ref_size_shorter)

function no_end :: "string \<Rightarrow> bool" where
  "no_end s =
     (case ref_size s of
        None \<Rightarrow> True
      | Some (l, t) \<Rightarrow> 0 < chunk_size l \<and> no_end (drop (nat (chunk_size l)) t))"
  by pat_completeness auto
termination by (relation "measure length") (auto dest: ref_size_shorter)

declare part_chunked.simps [simp del] no_end.simps [simp del]

lemma no_chunks [simp]: "part_chunked [] = []" "no_end []"
  by (simp_all add: part_chunked.simps [of "[]"] no_end.simps [of "[]"] ref_size.simps [of "[]"] ref_line_def)

definition body_coming :: "conn \<Rightarrow> string" where
  "body_coming c =
     (if c_mode c = BodyChunked then
        (if c_need_size c then part_chunked (future c)
         else take (nat (c_remaining c)) (future c) @ part_chunked (drop (nat (c_remaining c)) (future c)))
      else future c)"

text \<open>The body goes on: it ends with the connection, or no last chunk has been sent.\<close>

definition body_live :: "conn \<Rightarrow> bool" where
  "body_live c \<longleftrightarrow> flowing_conn c \<and> \<not> c_done c \<and>
     (c_mode c = BodyUntilClose \<or>
      (c_mode c = BodyChunked \<and>
         (if c_need_size c then no_end (future c)
          else 0 < c_remaining c \<and> no_end (drop (nat (c_remaining c)) (future c)))))"

definition body_pull :: "int \<Rightarrow> conn \<Rightarrow> string rd \<times> conn" where
  "body_pull tmo c =
     (case read_body tmo c of
        (Chunk d, c1) \<Rightarrow> (Got d, c1)
      | (NotYet, c1) \<Rightarrow> (Pending, c1)
      | (Ended e, c1) \<Rightarrow> (Stopped (case e of Some m \<Rightarrow> m | None \<Rightarrow> []), c1))"

text \<open>What one read of a live body does.\<close>

definition pull_law :: "int \<Rightarrow> conn \<Rightarrow> bool" where
  "pull_law tmo c \<longleftrightarrow>
     (if body_coming c = [] then \<exists>c'. read_body tmo c = (NotYet, c') \<and> body_coming c' = [] \<and> body_live c'
      else \<exists>d c'. read_body tmo c = (Chunk d, c') \<and> d \<noteq> [] \<and> body_coming c = d @ body_coming c' \<and> body_live c')"

lemma pull_in_chunk:
  assumes "counting n c" "c_mode c = BodyChunked" "no_end (drop n (future c))"
  shows "pull_law tmo c"
proof -
  have c: "\<not> c_need_size c" "c_remaining c = int n" "\<not> c_done c" "flowing_conn c" "0 < n"
    using assms(1,2) by (simp_all add: counting_def)
  have coming: "body_coming c = take n (future c) @ part_chunked (drop n (future c))"
    using c assms(2) by (simp add: body_coming_def)
  show ?thesis
  proof (cases "future c = []")
    case True
    with counting_step [OF assms(1), of tmo] obtain c' where
      c': "read_body tmo c = (NotYet, c')" "reaches c [] c'" by auto
    moreover have "body_coming c' = []" "body_live c'"
      using reaches_fields [OF c'(2)] reaches_flowing [OF c'(2)] c assms(2)
      by (simp_all add: body_coming_def body_live_def)
    ultimately show ?thesis using coming True by (simp add: pull_law_def)
  next
    case False
    with counting_step [OF assms(1), of tmo] obtain d c' where
      d: "read_body tmo c = (Chunk d, c')" "d \<noteq> []" "length d \<le> n" "future c = d @ future c'"
      and k: "keeps c (future c') c'"
      and after: "if length d = n then counted c c' else counting (n - length d) c' \<and> c_mode c' = c_mode c"
      by auto
    have "flowing_conn c'" using k by (simp add: keeps_def)
    then have "body_coming c = d @ body_coming c' \<and> body_live c'"
      using after d assms(2,3) coming nat_int [of "n - length d"]
      by (cases "length d = n") (auto simp: body_coming_def body_live_def counted_def counting_def)
    moreover have "body_coming c \<noteq> []" using coming False c(5) by simp
    ultimately show ?thesis using d by (auto simp: pull_law_def)
  qed
qed

lemma pull_at_size:
  assumes "flowing_conn c" "\<not> c_done c" "c_mode c = BodyChunked" "c_need_size c" "no_end (future c)"
  shows "pull_law tmo c"
proof (cases "ref_size (future c)")
  case None
  with size_line_refines [OF assms(1), of tmo] obtain c' where
    c': "size_line tmo c = (Pending, c')" "reaches c (future c') c'" "ref_size (future c') = None" by auto
  then have "read_body tmo c = (NotYet, c')"
    using assms by (simp add: read_body_def chunk_header_def)
  moreover have "body_coming c' = []" "body_live c'" "body_coming c = []"
    using reaches_fields [OF c'(2)] reaches_flowing [OF c'(2)] c'(3) None assms
    by (simp_all add: body_coming_def body_live_def part_chunked.simps [of "future c'"]
        no_end.simps [of "future c'"] part_chunked.simps [of "future c"])
  ultimately show ?thesis by (simp add: pull_law_def)
next
  case (Some p)
  then obtain l t where p: "ref_size (future c) = Some (l, t)" by (cases p) auto
  let ?n = "nat (chunk_size l)"
  have l: "0 < chunk_size l" "no_end (drop ?n t)"
    using assms(5) p by (simp_all add: no_end.simps [of "future c"])
  from chunk_start [OF assms(1-4) p l(1), of tmo] obtain c2 where
    c2: "read_body tmo c = read_body tmo c2" "counting ?n c2" "future c2 = t" "c_mode c2 = BodyChunked" by blast
  have "body_coming c = body_coming c2"
    using p l(1) c2 assms by (simp add: body_coming_def counting_def part_chunked.simps [of "future c"])
  with pull_in_chunk [OF c2(2,4), of tmo] c2(1,3) l(2) show ?thesis by (simp add: pull_law_def)
qed

lemma pull_until_close:
  assumes "flowing_conn c" "\<not> c_done c" "c_mode c = BodyUntilClose"
  shows "pull_law tmo c"
proof -
  from have_bytes_refines [OF assms(1), of tmo] obtain r c1 where
    h: "have_bytes tmo c = (r, c1)" "reaches c (future c) c1"
      "if future c = [] then r = Pending else (\<exists>d. r = Got d) \<and> unread c1 \<noteq> []" by blast
  note f1 = reaches_fields [OF h(2)] reaches_flowing [OF h(2)]
  show ?thesis
  proof (cases "future c = []")
    case True
    with h f1 assms show ?thesis
      by (simp add: pull_law_def read_body_def body_coming_def body_live_def)
  next
    case False
    let ?c2 = "skip_bytes (length (unread c1)) c1"
    have "reaches c1 (drop (length (unread c1)) (future c1)) ?c2" using f1 by (intro reaches_skip) simp_all
    note f2 = reaches_flowing [OF this] reaches_fields [OF this]
    have "future c = unread c1 @ future ?c2" using f1 f2 by (simp add: future_def)
    moreover have "read_body tmo c = (Chunk (unread c1), ?c2)"
      using False h assms by (auto simp: read_body_def)
    moreover have "body_coming c = future c" "body_coming ?c2 = future ?c2" "body_live ?c2"
      using f1 f2 assms by (simp_all add: body_coming_def body_live_def)
    moreover have "unread c1 \<noteq> []" using False h(3) by simp
    ultimately show ?thesis using False unfolding pull_law_def by auto
  qed
qed

lemma body_pull_law: "body_live c \<Longrightarrow> pull_law tmo c"
proof -
  assume live: "body_live c"
  show ?thesis
  proof (cases "c_mode c = BodyUntilClose")
    case True
    with live show ?thesis by (intro pull_until_close) (simp_all add: body_live_def)
  next
    case False
    note chunked = this
    show ?thesis
    proof (cases "c_need_size c")
      case True
      with live chunked show ?thesis by (intro pull_at_size) (simp_all add: body_live_def)
    next
      case False
      with live chunked show ?thesis
        by (intro pull_in_chunk [of "nat (c_remaining c)"]) (simp_all add: body_live_def counting_def)
    qed
  qed
qed

interpretation body: byte_source "body_pull tmo" body_coming body_live for tmo
proof unfold_locales
  show "\<exists>d c'. body_pull tmo c = (Got d, c') \<and> d \<noteq> [] \<and> body_coming c = d @ body_coming c' \<and> body_live c'"
    if "body_live c" "body_coming c \<noteq> []" for c
    using body_pull_law [OF that(1), of tmo] that(2) by (auto simp: pull_law_def body_pull_def)
  show "\<exists>c'. body_pull tmo c = (Pending, c') \<and> body_coming c' = [] \<and> body_live c'"
    if "body_live c" "body_coming c = []" for c
    using body_pull_law [OF that(1), of tmo] that(2) by (auto simp: pull_law_def body_pull_def)
qed

section \<open>Envelopes\<close>

definition ref_frame :: "string \<Rightarrow> (nat \<times> string \<times> string) option" where
  "ref_frame s =
     (if 5 \<le> length s \<and> 5 + envelope_length s \<le> length s
      then Some (byte (s ! 0), take (envelope_length s) (drop 5 s), drop (5 + envelope_length s) s)
      else None)"

definition stream_future :: "stream \<Rightarrow> string" where
  "stream_future st = drop (st_pos st) (st_pending st) @ body_coming (st_conn st)"

definition stream_live :: "stream \<Rightarrow> bool" where
  "stream_live st \<longleftrightarrow> \<not> st_ended st \<and> st_pos st \<le> length (st_pending st) \<and> body_live (st_conn st)"

text \<open>The longest length that \<^verbatim>\<open>5 + length\<close> does not wrap.\<close>

definition length_fits :: "nat \<Rightarrow> string \<Rightarrow> bool" where
  "length_fits lb s \<longleftrightarrow> length s < 5 \<or> 5 + envelope_length s < 2 ^ lb"

lemma envelope_length_append: "5 \<le> length p \<Longrightarrow> envelope_length (p @ q) = envelope_length p"
  by (simp add: envelope_length_def nth_append)

lemma skip_pending_drop:
  "drop (st_pos (skip_pending n st)) (st_pending (skip_pending n st)) = drop n (drop (st_pos st) (st_pending st))"
  "st_conn (skip_pending n st) = st_conn st" "st_ended (skip_pending n st) = st_ended st"
  by (simp_all add: skip_pending_def Let_def add.commute)

lemma skip_pending_pos:
  "n \<le> length (drop (st_pos st) (st_pending st)) \<Longrightarrow> st_pos st \<le> length (st_pending st) \<Longrightarrow>
   st_pos (skip_pending n st) \<le> length (st_pending (skip_pending n st))"
  by (simp add: skip_pending_def Let_def) linarith

lemma ref_frame_append:
  "5 \<le> length p \<Longrightarrow> 5 + envelope_length p \<le> length p \<Longrightarrow>
   ref_frame (p @ q) = Some (byte (p ! 0), take (envelope_length p) (drop 5 p), drop (5 + envelope_length p) p @ q)"
proof -
  assume a: "5 \<le> length p" "5 + envelope_length p \<le> length p"
  have "envelope_length (p @ q) = envelope_length p" using a(1) by (rule envelope_length_append)
  moreover have "(p @ q) ! 0 = p ! 0" using a(1) by (auto simp: nth_append)
  ultimately show ?thesis using a by (simp add: ref_frame_def)
qed

lemma frame_result_not_quiet: "frame_result f p \<noteq> Quiet"
  by (simp add: frame_result_def Let_def split: sum.splits)

text \<open>A whole envelope in \<^verbatim>\<open>pending_\<close> is taken without reading.\<close>

lemma stream_read_buffered:
  assumes "5 \<le> length p" "5 + envelope_length p \<le> length p" "5 + envelope_length p < 2 ^ lb"
    and "drop (st_pos st) (st_pending st) = p" "stream_live st"
  shows "\<exists>st'. stream_read lb tmo st = (frame_result (byte (p ! 0)) (take (envelope_length p) (drop 5 p)), st')
     \<and> stream_future st' = drop (5 + envelope_length p) p @ body_coming (st_conn st)
     \<and> (st_ended st' \<longleftrightarrow> (\<forall>v. frame_result (byte (p ! 0)) (take (envelope_length p) (drop 5 p)) \<noteq> Event v))
     \<and> stream_live (st'\<lparr>st_ended := False\<rparr>)"
proof -
  let ?n = "5 + envelope_length p" and ?r = "frame_result (byte (p ! 0)) (take (envelope_length p) (drop 5 p))"
  let ?st1 = "skip_pending ?n st"
  have "stream_read lb tmo st = (?r, case ?r of Lost _ \<Rightarrow> ?st1\<lparr>st_ended := True\<rparr> | _ \<Rightarrow> ?st1)"
    using assms(1-4) by (subst stream_read.simps) (simp add: Let_def envelope_size_def)
  moreover have "stream_future ?st1 = drop ?n p @ body_coming (st_conn st)"
    unfolding stream_future_def skip_pending_drop using assms(4) by simp
  moreover have "st_pos ?st1 \<le> length (st_pending ?st1)"
    using assms(2,4,5) by (intro skip_pending_pos) (simp_all add: stream_live_def)
  ultimately show ?thesis
    using assms(5) skip_pending_drop(2,3) [of ?n st] frame_result_not_quiet [of "byte (p ! 0)"]
    by (cases ?r) (auto simp: stream_live_def stream_future_def)
qed

text \<open>
  C1
  \<^verbatim>\<open>EventStream::Read\<close> delivers the envelopes of the decoded body in order, however the network
  cuts them: a whole envelope is consumed and reported for what it says; while one is
  incomplete the call reports a timeout and no byte is lost. (The length must not wrap
  \<^verbatim>\<open>5 + length\<close>, which only a 32-bit \<^verbatim>\<open>unsigned long\<close> can.)
\<close>

theorem stream_read_refines:
  assumes "stream_live st" "length_fits lb (stream_future st)"
  shows "\<exists>st'. (case ref_frame (stream_future st) of
      Some (flags, payload, rest) \<Rightarrow>
        stream_read lb tmo st = (frame_result flags payload, st') \<and> stream_future st' = rest
        \<and> (st_ended st' \<longleftrightarrow> (\<forall>v. frame_result flags payload \<noteq> Event v)) \<and> stream_live (st'\<lparr>st_ended := False\<rparr>)
    | None \<Rightarrow> stream_read lb tmo st = (Quiet, st') \<and> stream_future st' = stream_future st \<and> stream_live st')"
proof -
  have "body_live (st_conn st)" using assms(1) by (simp add: stream_live_def)
  then show ?thesis using assms
  proof (induction "st_conn st" arbitrary: st rule: body.pull_induct [of _ tmo])
    case pull
    obtain p where p: "drop (st_pos st) (st_pending st) = p" by simp
    let ?s = "stream_future st"
    have s: "?s = p @ body_coming (st_conn st)" by (simp add: stream_future_def p)
    have len: "5 \<le> length p \<Longrightarrow> envelope_length ?s = envelope_length p \<and> 5 + envelope_length p < 2 ^ lb"
      using pull.prems(2) s envelope_length_append [of p "body_coming (st_conn st)"]
      by (auto simp: length_fits_def)
    show ?case
    proof (cases "5 \<le> length p \<and> 5 + envelope_length p \<le> length p")
      case True
      then have "ref_frame ?s = Some (byte (p ! 0), take (envelope_length p) (drop 5 p),
          drop (5 + envelope_length p) p @ body_coming (st_conn st))"
        using ref_frame_append [of p] by (simp add: s)
      with stream_read_buffered [of p lb st tmo] True len p pull.prems(1) show ?thesis by simp
    next
      case False
      then have wait: "stream_read lb tmo st = (case read_body tmo (st_conn st) of
             (NotYet, c) \<Rightarrow> (Quiet, st\<lparr>st_conn := c\<rparr>)
           | (Ended e, c) \<Rightarrow>
               (Lost (transport_error (case e of Some m \<Rightarrow> if m = [] then ''event stream ended'' else m
                                                | None \<Rightarrow> ''event stream ended'')),
                st\<lparr>st_conn := c, st_ended := True\<rparr>)
           | (Chunk d, c) \<Rightarrow> stream_read lb tmo (st\<lparr>st_conn := c, st_pending := st_pending st @ d\<rparr>))"
        using len p pull.prems(1)
        by (subst stream_read.simps) (auto simp: Let_def envelope_size_def stream_live_def)
      note law = body_pull_law [OF \<open>body_live (st_conn st)\<close>, of tmo]
      show ?thesis
      proof (cases "body_coming (st_conn st) = []")
        case True
        with law obtain c where c: "read_body tmo (st_conn st) = (NotYet, c)" "body_coming c = []" "body_live c"
          by (auto simp: pull_law_def)
        have "ref_frame ?s = None" using False True len by (auto simp: ref_frame_def s)
        with wait c True pull.prems(1) show ?thesis by (simp add: stream_future_def stream_live_def)
      next
        case False
        with law obtain d c where c: "read_body tmo (st_conn st) = (Chunk d, c)" "d \<noteq> []"
            "body_coming (st_conn st) = d @ body_coming c" "body_live c"
          by (auto simp: pull_law_def)
        let ?st1 = "st\<lparr>st_conn := c, st_pending := st_pending st @ d\<rparr>"
        have f1: "stream_future ?st1 = ?s" and l1: "stream_live ?st1"
          using c pull.prems(1) by (simp_all add: stream_future_def stream_live_def)
        have "body_pull tmo (st_conn st) = (Got d, c)" using c(1) by (simp add: body_pull_def)
        with pull.hyps(2) [of d ?st1] c(2-4) l1 pull.prems(2) f1 have ih: "\<exists>st'. (case ref_frame (stream_future ?st1) of
            Some (flags, payload, rest) \<Rightarrow>
              stream_read lb tmo ?st1 = (frame_result flags payload, st') \<and> stream_future st' = rest
              \<and> (st_ended st' \<longleftrightarrow> (\<forall>v. frame_result flags payload \<noteq> Event v)) \<and> stream_live (st'\<lparr>st_ended := False\<rparr>)
          | None \<Rightarrow> stream_read lb tmo ?st1 = (Quiet, st') \<and> stream_future st' = stream_future ?st1 \<and> stream_live st')"
          by simp
        have eq: "stream_read lb tmo st = stream_read lb tmo ?st1" using wait c(1) by simp
        show ?thesis using ih unfolding f1 eq .
      qed
    qed
  qed
qed

text \<open>A stream that has been opened, with the pieces of its chunked body to come.\<close>

definition opened_stream :: "string list \<Rightarrow> stream" where
  "opened_stream ps = \<lparr>st_conn = (kept_alive ps [])\<lparr>c_mode := BodyChunked, c_done := False\<rparr>,
     st_token = ''t'', st_pending = [], st_pos = 0, st_ended = False\<rparr>"

definition small_stream :: stream where
  "small_stream = opened_stream [''7'' @ crlf @ [char_of (0::nat), char_of (0::nat)],
     [char_of (0::nat), char_of (0::nat), char_of (2::nat)] @ ''{}'' @ crlf, ''1'' @ crlf @ [char_of (2::nat)]]"

lemma opened_stream_flowing: "[] \<notin> set ps \<Longrightarrow> flowing_conn (st_conn (opened_stream ps))"
  using kept_alive_flowing [of ps "[]"] by (simp add: opened_stream_def flowing_conn_def buf_ok_def)

lemma stream_read_refines_witness:
  "\<exists>st'. stream_read 64 500 small_stream = (Event (JObject []), st')
     \<and> stream_future st' = [char_of (2::nat)] \<and> \<not> st_ended st' \<and> stream_live (st'\<lparr>st_ended := False\<rparr>)"
proof -
  have body: "future (st_conn small_stream)
      = concat [''7'' @ crlf @ [char_of (0::nat), char_of (0::nat)],
          [char_of (0::nat), char_of (0::nat), char_of (2::nat)] @ ''{}'' @ crlf, ''1'' @ crlf @ [char_of (2::nat)]]"
    by (simp add: small_stream_def opened_stream_def kept_alive_future)
  have "no_end (future (st_conn small_stream))" unfolding body by code_simp
  moreover have "flowing_conn (st_conn small_stream)"
    unfolding small_stream_def by (rule opened_stream_flowing) (simp add: crlf_def)
  moreover have "\<not> st_ended small_stream" "st_pos small_stream = 0" "\<not> c_done (st_conn small_stream)"
      "c_mode (st_conn small_stream) = BodyChunked" "c_need_size (st_conn small_stream)"
    by (simp_all add: small_stream_def opened_stream_def kept_alive_def new_conn_def)
  ultimately have "stream_live small_stream" by (simp add: stream_live_def body_live_def)
  moreover have fut: "stream_future small_stream = part_chunked (future (st_conn small_stream))"
    by (simp add: stream_future_def body_coming_def small_stream_def opened_stream_def kept_alive_def new_conn_def)
  moreover have pc: "part_chunked (future (st_conn small_stream))
      = [char_of (0::nat), char_of (0::nat), char_of (0::nat), char_of (0::nat), char_of (2::nat)] @ ''{}''
        @ [char_of (2::nat)]"
    unfolding body by code_simp
  moreover have "length_fits 64 (part_chunked (future (st_conn small_stream)))"
    unfolding pc by (simp add: length_fits_def envelope_length_def)
  moreover have "ref_frame (part_chunked (future (st_conn small_stream))) = Some (0, ''{}'', [char_of (2::nat)])"
    unfolding pc by (simp add: ref_frame_def envelope_length_def)
  moreover have ev: "frame_result 0 ''{}'' = Event (JObject [])" by code_simp
  ultimately have "\<exists>st'. stream_read 64 500 small_stream = (Event (JObject []), st')
     \<and> stream_future st' = [char_of (2::nat)]
     \<and> (st_ended st' \<longleftrightarrow> (\<forall>v. Event (JObject []) \<noteq> Event v)) \<and> stream_live (st'\<lparr>st_ended := False\<rparr>)"
    using stream_read_refines [of small_stream 64 500]
    by (simp only: option.case prod.case ev simp_thms)
  then show ?thesis by auto
qed

section \<open>Envelopes that are built are read\<close>

lemma byte_char_of_mod [simp]: "byte (char_of n) = n mod 256"
  by (simp add: byte_def)

lemma four_bytes:
  assumes "n < 2 ^ 32"
  shows "n div 16777216 * 16777216 + n div 65536 mod 256 * 65536 + n div 256 mod 256 * 256 + n mod 256
    = (n::nat)" and "n div 16777216 < 256"
proof -
  define a b c where "a = n div 16777216" and "b = n div 65536" and "c = n div 256"
  have "b = a * 256 + b mod 256"
    using div_mult_mod_eq [of b 256] by (simp add: a_def b_def div_mult2_eq [symmetric])
  moreover have "c = b * 256 + c mod 256"
    using div_mult_mod_eq [of c 256] by (simp add: b_def c_def div_mult2_eq [symmetric])
  moreover have "n = c * 256 + n mod 256" using div_mult_mod_eq [of n 256] by (simp add: c_def)
  ultimately have "a * 16777216 + b mod 256 * 65536 + c mod 256 * 256 + n mod 256 = n" by linarith
  then show "n div 16777216 * 16777216 + n div 65536 mod 256 * 65536 + n div 256 mod 256 * 256 + n mod 256 = n"
    by (simp only: a_def b_def c_def)
  show "n div 16777216 < 256" using assms by (simp add: less_mult_imp_div_less)
qed

text \<open>
  An envelope is read back as flags 0 and the payload, with what follows it untouched.
\<close>

lemma envelope_reads_back:
  assumes "length payload < 2 ^ 32" "32 \<le> lb"
  shows "ref_frame (envelope lb payload @ rest) = Some (0, payload, rest)"
proof -
  have "(2::nat) ^ 32 \<le> 2 ^ lb" using assms(2) by (intro power_increasing) simp_all
  then have "length payload mod 2 ^ lb = length payload" using assms(1) by (intro mod_less) linarith
  then have "envelope_length (envelope lb payload) = length payload"
    using four_bytes [OF assms(1)] by (simp add: envelope_length_def envelope_def Let_def)
  then show ?thesis
    using ref_frame_append [of "envelope lb payload" rest] by (simp add: envelope_def Let_def)
qed

lemma envelope_reads_back_witness:
  "ref_frame (envelope 32 ''{}'' @ ''x'') = Some (0, ''{}'', ''x'')"
  by (rule envelope_reads_back) simp_all

text \<open>
  Where \<^verbatim>\<open>unsigned long\<close> has 32 bits, a length of \<open>2 ^ 32 - 5\<close> wraps \<^verbatim>\<open>5 + length\<close> to zero:
  what is buffered after the header is taken for the whole message, nothing is consumed, and
  every further read reports the same event again.
\<close>

lemma oversized_length_repeats_event:
  assumes "st_pending st = [char_of (0::nat), char_of (255::nat), char_of (255::nat), char_of (255::nat),
      char_of (251::nat)] @ text" "st_pos st = 0" "json_parse text = Inr v" "length text \<le> 2 ^ 32 - 5"
  shows "stream_read 32 tmo st = (Event v, st)"
proof -
  let ?p = "st_pending st"
  have len: "envelope_length ?p = 2 ^ 32 - 5" using assms(1) by (simp add: envelope_length_def byte_def)
  then have "envelope_size 32 ?p = 0" by (simp add: envelope_size_def)
  moreover have "skip_pending 0 st = st" using assms(2) by (simp add: skip_pending_def)
  moreover have "frame_result (byte (?p ! 0)) (take (envelope_length ?p) (drop 5 ?p)) = Event v"
    using assms(1,3,4) len by (simp add: frame_result_def byte_def)
  moreover have "5 \<le> length ?p" using assms(1) by simp
  ultimately show ?thesis using assms(2) by (subst stream_read.simps) (simp add: Let_def)
qed

lemma oversized_length_repeats_event_witness:
  "stream_read 32 500 (small_stream\<lparr>st_pending := [char_of (0::nat), char_of (255::nat), char_of (255::nat),
      char_of (255::nat), char_of (251::nat)] @ ''{}''\<rparr>)
   = (Event (JObject []), small_stream\<lparr>st_pending := [char_of (0::nat), char_of (255::nat), char_of (255::nat),
      char_of (255::nat), char_of (251::nat)] @ ''{}''\<rparr>)"
proof (rule oversized_length_repeats_event)
  show "json_parse ''{}'' = Inr (JObject [])" by code_simp
qed (simp_all add: small_stream_def opened_stream_def)

section \<open>Unary calls\<close>

text \<open>What a call makes of a complete response.\<close>

definition rpc_result :: "string \<Rightarrow> http_response \<Rightarrow> rpc_error + json" where
  "rpc_result rpc resp =
     (if r_status resp \<noteq> 200 then Inl (error_from_response resp)
      else case json_parse (r_body resp) of
        Inl e \<Rightarrow> Inl (transport_error (''could not parse '' @ rpc @ '' response: '' @ e))
      | Inr v \<Rightarrow> Inr v)"



text \<open>
  C36
  An error object of the server reads back as its code and message with the HTTP status, for
  any text in the message; it is final exactly for the three codes that a retry cannot help.
\<close>

theorem server_error_reads_back:
  "error_from_response \<lparr>r_status = n, r_headers = hs, r_body = jo_calls [CallStr ''code'' c, CallStr ''message'' m]\<rparr>
     = \<lparr>e_code = c, e_message = m, e_status = n\<rparr>
   \<and> (permanent \<lparr>e_code = c, e_message = m, e_status = n\<rparr>
      \<longleftrightarrow> c \<in> {''unauthenticated'', ''permission_denied'', ''invalid_argument''})"
proof -
  have "json_parse (jo_calls [CallStr ''code'' c, CallStr ''message'' m])
      = Inr (JObject [(''code'', JString c), (''message'', JString m)])"
    using builder_round_trip [of "[CallStr ''code'' c, CallStr ''message'' m]" "\<lambda>_. JNull"]
    by (simp add: escape_char_def byte_def)
  then show ?thesis
    by (auto simp: error_from_response_def has_def get_str_def get_def permanent_def Let_def)
qed

end
