(* ===== verification/Std_Map.thy ===== *)
theory Std_Map
  imports Prelude "HOL-Library.Char_ord" "HOL-Library.List_Lexorder"
begin

text \<open>
  \<^verbatim>\<open>std::map\<close>: the manager keeps its stations in a \<^verbatim>\<open>std::map<int, ...>\<close> and a station its
  metadata in a \<^verbatim>\<open>std::map<std::string, std::string>\<close>, and both are iterated in key order.
  The container is the list of its entries in increasing key order; \<^verbatim>\<open>operator<\<close> on
  \<^verbatim>\<open>std::string\<close> compares bytes as unsigned numbers, which is the order of
  \<^verbatim>\<open>HOL-Library.List_Lexorder\<close>. The locale \<open>ordered_map\<close> is the interface the clients use.
\<close>

type_synonym ('k, 'v) std_map = "('k \<times> 'v) list"

definition om_empty :: "('k, 'v) std_map" where
  "om_empty = []"

fun om_find :: "('k, 'v) std_map \<Rightarrow> 'k \<Rightarrow> 'v option" where
  "om_find [] k = None"
| "om_find ((k', v) # m) k = (if k = k' then Some v else om_find m k)"

text \<open>\<^verbatim>\<open>m[k] = v\<close>\<close>

fun om_put :: "'k::linorder \<Rightarrow> 'v \<Rightarrow> ('k, 'v) std_map \<Rightarrow> ('k, 'v) std_map" where
  "om_put k v [] = [(k, v)]"
| "om_put k v ((k', v') # m) =
     (if k < k' then (k, v) # (k', v') # m
      else if k = k' then (k, v) # m
      else (k', v') # om_put k v m)"

text \<open>\<^verbatim>\<open>m.erase(k)\<close>\<close>

fun om_erase :: "'k \<Rightarrow> ('k, 'v) std_map \<Rightarrow> ('k, 'v) std_map" where
  "om_erase k [] = []"
| "om_erase k ((k', v') # m) = (if k = k' then m else (k', v') # om_erase k m)"

definition om_keys :: "('k, 'v) std_map \<Rightarrow> 'k list" where
  "om_keys m = map fst m"

definition om_ok :: "('k::linorder, 'v) std_map \<Rightarrow> bool" where
  "om_ok m \<longleftrightarrow> sorted_wrt (<) (map fst m)"

section \<open>The interface\<close>

locale ordered_map =
  fixes none :: "'m"
    and lookup :: "'m \<Rightarrow> 'k::linorder \<Rightarrow> 'v option"
    and put :: "'k \<Rightarrow> 'v \<Rightarrow> 'm \<Rightarrow> 'm"
    and erase :: "'k \<Rightarrow> 'm \<Rightarrow> 'm"
    and keys :: "'m \<Rightarrow> 'k list"
    and ok :: "'m \<Rightarrow> bool"
  assumes lookup_none: "lookup none k = None"
    and lookup_put: "ok m \<Longrightarrow> lookup (put k v m) = (lookup m)(k := Some v)"
    and lookup_erase: "ok m \<Longrightarrow> lookup (erase k m) = (lookup m)(k := None)"
    and keys_lookup: "ok m \<Longrightarrow> set (keys m) = dom (lookup m)"
    and keys_sorted: "ok m \<Longrightarrow> sorted_wrt (<) (keys m)"
    and ok_none: "ok none"
    and ok_put: "ok m \<Longrightarrow> ok (put k v m)"
    and ok_erase: "ok m \<Longrightarrow> ok (erase k m)"
begin

lemma keys_distinct: "ok m \<Longrightarrow> distinct (keys m)"
  using keys_sorted strict_sorted_iff by blast

lemma keys_put: "ok m \<Longrightarrow> set (keys (put k v m)) = insert k (set (keys m))"
  by (simp add: keys_lookup ok_put lookup_put)

lemma keys_erase: "ok m \<Longrightarrow> set (keys (erase k m)) = set (keys m) - {k}"
  by (simp add: keys_lookup ok_erase lookup_erase)

lemma keys_cong: "ok m \<Longrightarrow> ok m' \<Longrightarrow> dom (lookup m) = dom (lookup m') \<Longrightarrow> keys m = keys m'"
  by (metis keys_lookup keys_sorted strict_sorted_equal)

lemma keys_put_present: "ok m \<Longrightarrow> lookup m k = Some v' \<Longrightarrow> keys (put k v m) = keys m"
  by (rule keys_cong) (auto simp: ok_put lookup_put)

lemma keys_erase_absent: "ok m \<Longrightarrow> lookup m k = None \<Longrightarrow> keys (erase k m) = keys m"
  by (rule keys_cong) (auto simp: ok_erase lookup_erase)

lemma finite_dom: "ok m \<Longrightarrow> finite (dom (lookup m))"
  by (metis List.finite_set keys_lookup)

end

section \<open>The list of entries provides it\<close>

lemma om_find_map_of: "om_find m = map_of m"
proof
  fix k show "om_find m k = map_of m k" by (induction m k rule: om_find.induct) auto
qed

lemma om_put_keys: "set (map fst (om_put k v m)) = insert k (set (map fst m))"
  by (induction k v m rule: om_put.induct) auto

lemma om_put_ok: "om_ok m \<Longrightarrow> om_ok (om_put k v m)"
proof (induction k v m rule: om_put.induct)
  case (2 k v k' v' m)
  then show ?case using om_put_keys [of k v m] by (auto simp: om_ok_def)
qed (simp add: om_ok_def)

lemma om_erase_keys: "set (map fst (om_erase k m)) \<subseteq> set (map fst m)"
  by (induction k m rule: om_erase.induct) auto

lemma om_erase_ok: "om_ok m \<Longrightarrow> om_ok (om_erase k m)"
proof (induction k m rule: om_erase.induct)
  case (2 k k' v' m)
  then show ?case using om_erase_keys [of k m] by (fastforce simp: om_ok_def)
qed (simp add: om_ok_def)

lemma om_find_fresh:
  fixes k :: "'k::linorder"
  shows "\<forall>x \<in> set (map fst m). k < x \<Longrightarrow> om_find m k = None"
proof -
  assume "\<forall>x \<in> set (map fst m). k < x"
  then have "k \<notin> set (map fst m)" by (metis less_irrefl)
  then show ?thesis by (simp add: om_find_map_of map_of_eq_None_iff)
qed

lemma om_find_put: "om_ok m \<Longrightarrow> om_find (om_put k v m) j = ((om_find m)(k := Some v)) j"
  by (induction k v m rule: om_put.induct) (auto simp: om_ok_def)

lemma om_find_erase: "om_ok m \<Longrightarrow> om_find (om_erase k m) j = ((om_find m)(k := None)) j"
  by (induction k m rule: om_erase.induct) (auto simp: om_ok_def om_find_fresh)

lemma om_find_keys: "set (om_keys m) = dom (om_find m)"
  by (simp add: om_keys_def om_find_map_of dom_map_of_conv_image_fst)

interpretation om: ordered_map om_empty om_find om_put om_erase om_keys om_ok
proof unfold_locales
  show "om_find om_empty k = None" for k :: 'a by (simp add: om_empty_def)
  show "om_ok m \<Longrightarrow> om_find (om_put k v m) = (om_find m)(k := Some v)"
    for m :: "('a, 'b) std_map" and k v by (rule ext) (rule om_find_put)
  show "om_ok m \<Longrightarrow> om_find (om_erase k m) = (om_find m)(k := None)"
    for m :: "('a, 'b) std_map" and k by (rule ext) (rule om_find_erase)
  show "set (om_keys m) = dom (om_find m)" for m :: "('a, 'b) std_map" by (rule om_find_keys)
  show "om_ok m \<Longrightarrow> sorted_wrt (<) (om_keys m)" for m :: "('a, 'b) std_map"
    by (simp add: om_keys_def om_ok_def)
  show "om_ok om_empty" by (simp add: om_ok_def om_empty_def)
qed (simp_all add: om_put_ok om_erase_ok)

lemma om_find_mem: "om_ok m \<Longrightarrow> (k, v) \<in> set m \<longleftrightarrow> om_find m k = Some v"
  using om.keys_distinct [of m] by (auto simp: om_find_map_of om_keys_def)

lemma om_put_entries: "set (om_put k v m) \<subseteq> insert (k, v) (set m)"
  by (induction k v m rule: om_put.induct) auto

lemma om_erase_entries: "set (om_erase k m) \<subseteq> set m"
  by (induction k m rule: om_erase.induct) auto

end
