(* ===== verification/Station.thy ===== *)
theory Station
  imports Json_Builder Std_Map Connect_Client
begin

text \<open>
  src/station.h and src/station.cpp: queue modes, tracks, the cached status and the station
  with the registration request it sends on every connection. The state of the station's
  stream thread is in \<^verbatim>\<open>Manager_Threads\<close>; \<^verbatim>\<open>WaitBackoff\<close> and \<^verbatim>\<open>WakeBackoff\<close> only let time
  pass and are left out.
\<close>

definition k_queue_append :: int where "k_queue_append = 0"
definition k_queue_play_next :: int where "k_queue_play_next = 1"
definition k_queue_play_now_interrupt :: int where "k_queue_play_now_interrupt = 2"

definition queue_mode_to_proto :: "int \<Rightarrow> string" where
  "queue_mode_to_proto mode =
     (if mode = k_queue_play_next then ''QUEUE_MODE_PLAY_NEXT''
      else if mode = k_queue_play_now_interrupt then ''QUEUE_MODE_PLAY_NOW_INTERRUPT''
      else ''QUEUE_MODE_APPEND'')"

record track_info =
  tr_queue_id :: string
  tr_location :: string
  tr_title :: string
  tr_artist :: string
  tr_cover_art :: string
  tr_duration :: int
  tr_reason :: string

definition no_track :: track_info where
  "no_track = \<lparr>tr_queue_id = [], tr_location = [], tr_title = [], tr_artist = [], tr_cover_art = [],
     tr_duration = 0, tr_reason = []\<rparr>"

text \<open>\<^verbatim>\<open>TrackInfo::FromJson\<close> on an existing track: the reason is not its business.\<close>

definition track_from_json :: "json \<Rightarrow> track_info \<Rightarrow> track_info" where
  "track_from_json item t =
     (let source = get item ''source'' in
      t\<lparr>tr_queue_id := get_str item ''queueId'' [],
        tr_location := get_str source ''location'' [],
        tr_title := get_str source ''displayTitle'' [],
        tr_artist := get_str source ''displayArtist'' [],
        tr_cover_art := get_str source ''coverArtUrl'' [],
        tr_duration := get_int item ''durationSeconds'' 0\<rparr>)"

record station_status =
  ss_valid :: bool
  ss_name :: string
  ss_is_registered :: bool
  ss_is_silence :: bool
  ss_is_paused :: bool
  ss_listener_count :: int
  ss_uptime :: int
  ss_elapsed :: int
  ss_has_current :: bool
  ss_current :: track_info
  ss_queue :: "track_info list"
  ss_queue_length :: int
  ss_history :: "track_info list"
  ss_logo_url :: string
  ss_updated_at :: int

text \<open>Times are nanoseconds of \<^verbatim>\<open>steady_clock\<close>; a default \<^verbatim>\<open>time_point\<close> is its epoch.\<close>

definition no_status :: station_status where
  "no_status = \<lparr>ss_valid = False, ss_name = [], ss_is_registered = False, ss_is_silence = True,
     ss_is_paused = False, ss_listener_count = 0, ss_uptime = 0, ss_elapsed = 0, ss_has_current = False,
     ss_current = no_track, ss_queue = [], ss_queue_length = 0, ss_history = [], ss_logo_url = [],
     ss_updated_at = 0\<rparr>"

record station =
  s_id :: int
  s_slug :: string
  s_name :: string
  s_description :: string
  s_logo_url :: string
  s_metadata :: "(string, string) std_map"
  s_low_queue_threshold :: int
  s_stream_url :: string
  s_registered :: bool
  s_stopping :: bool
  s_status :: station_status
  s_stream :: "stream option"

definition k_invalid_station :: int where "k_invalid_station = -1"

definition new_station :: station where
  "new_station = \<lparr>s_id = k_invalid_station, s_slug = [], s_name = [], s_description = [], s_logo_url = [],
     s_metadata = om_empty, s_low_queue_threshold = 0, s_stream_url = [], s_registered = False,
     s_stopping = False, s_status = no_status, s_stream = None\<rparr>"

record station_summary =
  sm_slug :: string
  sm_name :: string
  sm_logo_url :: string
  sm_listener_count :: int

section \<open>The registration request\<close>

text \<open>The loop of \<^verbatim>\<open>MetadataJson\<close> over the entries in key order.\<close>

fun metadata_loop :: "string \<Rightarrow> (string \<times> string) list \<Rightarrow> string" where
  "metadata_loop out [] = out @ ''}''"
| "metadata_loop out ((k, v) # m) =
     metadata_loop ((if length out > 1 then out @ '','' else out)
       @ [CHR 0x22] @ json_escape k @ [CHR 0x22, CHR '':'', CHR 0x22] @ json_escape v @ [CHR 0x22]) m"

definition metadata_json :: "(string, string) std_map \<Rightarrow> string" where
  "metadata_json m = metadata_loop ''{'' m"

definition register_request_json :: "station \<Rightarrow> string" where
  "register_request_json s =
     (let r0 = jo_str ''slug'' (s_slug s) [];
          r1 = jo_str ''name'' (if s_name s = [] then s_slug s else s_name s) r0;
          r2 = jo_str_if_set ''description'' (s_description s) r1;
          r3 = jo_str_if_set ''logoUrl'' (s_logo_url s) r2;
          r4 = (if s_low_queue_threshold s > 0 then jo_int ''lowQueueThreshold'' (s_low_queue_threshold s) r3 else r3);
          r5 = (if s_metadata s \<noteq> [] then jo_raw ''metadata'' (metadata_json (s_metadata s)) r4 else r4)
      in jo_build r5)"

section \<open>What the server reads\<close>

definition metadata_value :: "(string, string) std_map \<Rightarrow> json" where
  "metadata_value m = JObject (map (\<lambda>(k, v). (k, JString v)) m)"

lemma metadata_loop_body:
  "metadata_loop (''{'' @ body_of ms) m = ''{'' @ body_of (ms @ map (\<lambda>(k, v). (k, JString v)) m) @ ''}''"
proof (induction m arbitrary: ms)
  case (Cons h m)
  obtain k v where h: "h = (k, v)" by (cases h)
  show ?case using Cons.IH [of "ms @ [(k, JString v)]"]
    by (cases "ms = []") (simp_all add: h body_of_snoc quote_text_def body_of_def [of "[]"] body_of_def [of "[(k, JString v)]"])
qed simp

lemma metadata_json_render: "metadata_json m = render (metadata_value m)"
  using metadata_loop_body [of "[]" m] by (simp add: metadata_json_def metadata_value_def body_of_def)

lemma metadata_value_wf: "wf_json (metadata_value m) \<and> json_depth (metadata_value m) \<le> 1"
proof
  show "wf_json (metadata_value m)" by (auto simp: metadata_value_def)
  show "json_depth (metadata_value m) \<le> 1"
    unfolding metadata_value_def json_depth_object_le by auto
qed

definition register_calls :: "station \<Rightarrow> jo_op list" where
  "register_calls s =
     [CallStr ''slug'' (s_slug s), CallStr ''name'' (if s_name s = [] then s_slug s else s_name s),
      CallStrIfSet ''description'' (s_description s), CallStrIfSet ''logoUrl'' (s_logo_url s)]
     @ (if s_low_queue_threshold s > 0 then [CallInt ''lowQueueThreshold'' (s_low_queue_threshold s)] else [])
     @ (if s_metadata s \<noteq> [] then [CallRaw ''metadata'' (metadata_json (s_metadata s))] else [])"

lemma register_request_calls: "register_request_json s = jo_calls (register_calls s)"
  by (simp add: register_request_json_def register_calls_def jo_calls_def Let_def)

lemma register_calls_ok:
  "\<forall>c \<in> set (register_calls s). jo_call_ok (\<lambda>_. metadata_value (s_metadata s)) c"
proof -
  have "json_depth (metadata_value (s_metadata s)) < k_max_depth"
    using metadata_value_wf [of "s_metadata s"] by simp
  then show ?thesis
    using metadata_value_wf [of "s_metadata s"]
    by (auto simp: register_calls_def metadata_json_render json_escape_def escape_char_def byte_def)
qed

lemma metadata_find: "find_member k (map (\<lambda>(k, v). (k, JString v)) m)
    = (case om_find m k of None \<Rightarrow> JNull | Some v \<Rightarrow> JString v)"
  by (induction m k rule: om_find.induct) auto

text \<open>
  C11
  The registration request says what the station is: the server reads its slug, its name (the
  slug when there is none), its description and logo, its threshold when it is positive, and
  under every key exactly the metadata value set for it, for any text in any of them.
\<close>

theorem register_request_reads_back:
  assumes "s_low_queue_threshold s \<le> int_max"
  shows "\<exists>v. json_parse (register_request_json s) = Inr v
     \<and> get_str v ''slug'' [] = s_slug s
     \<and> get_str v ''name'' [] = (if s_name s = [] then s_slug s else s_name s)
     \<and> get_str v ''description'' [] = s_description s \<and> get_str v ''logoUrl'' [] = s_logo_url s
     \<and> get_int v ''lowQueueThreshold'' 0 = max 0 (s_low_queue_threshold s)
     \<and> (\<forall>k. get_str (get v ''metadata'') k [] = (case om_find (s_metadata s) k of None \<Rightarrow> [] | Some x \<Rightarrow> x))"
proof -
  let ?v = "JObject (concat (map (jo_members (\<lambda>_. metadata_value (s_metadata s))) (register_calls s)))"
  have n: "0 < s_low_queue_threshold s \<Longrightarrow>
      strtoll 10 (dec_int (s_low_queue_threshold s)) = s_low_queue_threshold s"
    using assms by (intro strtoll_dec_int) simp_all
  have p: "json_parse (register_request_json s) = Inr ?v"
    unfolding register_request_calls by (rule builder_round_trip [OF register_calls_ok])
  have "get_str ?v ''slug'' [] = s_slug s"
       "get_str ?v ''name'' [] = (if s_name s = [] then s_slug s else s_name s)"
       "get_str ?v ''description'' [] = s_description s" "get_str ?v ''logoUrl'' [] = s_logo_url s"
    by (simp_all add: register_calls_def get_str_def get_def metadata_json_def)
  moreover have "get_int ?v ''lowQueueThreshold'' 0 = max 0 (s_low_queue_threshold s)"
    using n by (simp add: register_calls_def get_int_def get_def)
  moreover have "get_str (get ?v ''metadata'') k [] = (case om_find (s_metadata s) k of None \<Rightarrow> [] | Some x \<Rightarrow> x)" for k
    by (cases "s_metadata s = []")
      (simp_all add: register_calls_def get_str_def get_def metadata_value_def metadata_find split: option.splits)
  ultimately show ?thesis using p by blast
qed

definition example_station :: station where
  "example_station = new_station\<lparr>s_slug := ''main'', s_low_queue_threshold := 3,
     s_metadata := om_put ''genre'' ''rock'' om_empty\<rparr>"

lemma register_request_reads_back_witness:
  "\<exists>v. json_parse (register_request_json example_station) = Inr v
     \<and> get_str v ''slug'' [] = s_slug example_station
     \<and> get_str v ''name'' [] = (if s_name example_station = [] then s_slug example_station else s_name example_station)
     \<and> get_str v ''description'' [] = s_description example_station
     \<and> get_str v ''logoUrl'' [] = s_logo_url example_station
     \<and> get_int v ''lowQueueThreshold'' 0 = max 0 (s_low_queue_threshold example_station)
     \<and> (\<forall>k. get_str (get v ''metadata'') k []
          = (case om_find (s_metadata example_station) k of None \<Rightarrow> [] | Some x \<Rightarrow> x))"
  by (rule register_request_reads_back) (simp add: example_station_def)

end
