(* ===== verification/Wakeups.thy ===== *)
theory Wakeups
  imports Prelude
begin

text \<open>
  Sleeping on a condition variable, step by step: the waits of \<^verbatim>\<open>Station::WaitBackoff\<close>, \<^verbatim>\<open>WorkerLoop\<close> and
  \<^verbatim>\<open>PollerLoop\<close>, and the threads that end them. The flag of a wait (\<^verbatim>\<open>stopping\<close>, \<^verbatim>\<open>running_\<close>) is an atomic, set
  without the mutex. Where the notifier takes the mutex between setting the flag and notifying, no
  waiter misses it; where it does not, one that has just looked at the flag does.
\<close>

section \<open>A wait and its notifier\<close>

text \<open>
  A waiter before it has the mutex; holding it, before it looks at the flag, and after it saw it unset; blocked;
  on its way out, by a timeout or not, without the mutex; and back in its loop.
\<close>

datatype place = Outside | Holding | Resolved | Asleep | Woken bool | Returned

datatype owner = Free | Waiter | Notifier | Another

text \<open>What the notifier does, in its order.\<close>

datatype notice = SetFlag | TakeMutex | DropMutex | NotifyAll

record waiting_room =
  spot :: place
  mutex :: owner
  flag :: bool
  todo :: "notice list"

fun notice_step :: "notice \<Rightarrow> waiting_room \<Rightarrow> waiting_room option" where
  "notice_step SetFlag s = Some (s\<lparr>flag := True\<rparr>)"
| "notice_step TakeMutex s = (if mutex s = Free then Some (s\<lparr>mutex := Notifier\<rparr>) else None)"
| "notice_step DropMutex s = Some (s\<lparr>mutex := Free\<rparr>)"
| "notice_step NotifyAll s = Some (if spot s = Asleep then s\<lparr>spot := Woken False\<rparr> else s)"

text \<open>
  \<^verbatim>\<open>wait_for(lock, t, pred)\<close>: blocking gives the mutex up in the same step; after a timeout the wait returns
  what the flag says, otherwise it looks again. \<open>timed\<close> is false for \<^verbatim>\<open>wait\<close>. A waiter may wake up for no
  reason, and other threads take the mutex as well.
\<close>

inductive room_step :: "bool \<Rightarrow> waiting_room \<Rightarrow> waiting_room \<Rightarrow> bool" for timed where
  wait_locks: "spot s = Outside \<Longrightarrow> mutex s = Free \<Longrightarrow> room_step timed s (s\<lparr>spot := Holding, mutex := Waiter\<rparr>)"
| wait_looks: "spot s = Holding \<Longrightarrow>
    room_step timed s (if flag s then s\<lparr>spot := Returned, mutex := Free\<rparr> else s\<lparr>spot := Resolved\<rparr>)"
| wait_blocks: "spot s = Resolved \<Longrightarrow> room_step timed s (s\<lparr>spot := Asleep, mutex := Free\<rparr>)"
| wait_spurious: "spot s = Asleep \<Longrightarrow> room_step timed s (s\<lparr>spot := Woken False\<rparr>)"
| wait_times_out: "spot s = Asleep \<Longrightarrow> timed \<Longrightarrow> room_step timed s (s\<lparr>spot := Woken True\<rparr>)"
| wait_again: "spot s = Woken False \<Longrightarrow> mutex s = Free \<Longrightarrow> room_step timed s (s\<lparr>spot := Holding, mutex := Waiter\<rparr>)"
| wait_over: "spot s = Woken True \<Longrightarrow> mutex s = Free \<Longrightarrow> room_step timed s (s\<lparr>spot := Returned\<rparr>)"
| wait_next: "spot s = Returned \<Longrightarrow> room_step timed s (s\<lparr>spot := Outside\<rparr>)"
| notifies: "todo s = c # cs \<Longrightarrow> notice_step c s = Some s' \<Longrightarrow> room_step timed s (s'\<lparr>todo := cs\<rparr>)"
| another_locks: "mutex s = Free \<Longrightarrow> room_step timed s (s\<lparr>mutex := Another\<rparr>)"
| another_unlocks: "mutex s = Another \<Longrightarrow> room_step timed s (s\<lparr>mutex := Free\<rparr>)"

inductive room_reachable :: "bool \<Rightarrow> notice list \<Rightarrow> waiting_room \<Rightarrow> bool" for timed p where
  room_opens: "room_reachable timed p \<lparr>spot = Outside, mutex = Free, flag = False, todo = p\<rparr>"
| room_goes_on: "room_reachable timed p s \<Longrightarrow> room_step timed s s' \<Longrightarrow> room_reachable timed p s'"

text \<open>
  \<^verbatim>\<open>DestroyStation\<close> and \<^verbatim>\<open>Shutdown\<close> with \<^verbatim>\<open>WakeBackoff\<close>; \<^verbatim>\<open>StopWorkers\<close> as the workers see it, and as the poller does:
  the mutex in between is that of the jobs.
\<close>

definition wake_backoff_calls :: "notice list" where
  "wake_backoff_calls = [SetFlag, TakeMutex, NotifyAll, DropMutex]"

definition stop_jobs_calls :: "notice list" where
  "stop_jobs_calls = [SetFlag, TakeMutex, DropMutex, NotifyAll]"

definition stop_poller_calls :: "notice list" where
  "stop_poller_calls = [SetFlag, NotifyAll]"

section \<open>Notices that arrive\<close>

text \<open>The mutex is taken after the flag is set and before the notice, and given back.\<close>

fun heeds_mutex :: "notice list \<Rightarrow> bool" where
  "heeds_mutex [] \<longleftrightarrow> True"
| "heeds_mutex (SetFlag # cs) \<longleftrightarrow> TakeMutex \<in> set cs \<and> heeds_mutex cs"
| "heeds_mutex (TakeMutex # cs) \<longleftrightarrow> NotifyAll \<in> set cs \<and> heeds_mutex cs"
| "heeds_mutex (_ # cs) \<longleftrightarrow> heeds_mutex cs"

fun balanced :: "bool \<Rightarrow> notice list \<Rightarrow> bool" where
  "balanced held [] \<longleftrightarrow> \<not> held"
| "balanced held (TakeMutex # cs) \<longleftrightarrow> \<not> held \<and> balanced True cs"
| "balanced held (DropMutex # cs) \<longleftrightarrow> held \<and> balanced False cs"
| "balanced held (_ # cs) \<longleftrightarrow> balanced held cs"

lemma taken_then_notified: "heeds_mutex cs \<Longrightarrow> TakeMutex \<in> set cs \<Longrightarrow> NotifyAll \<in> set cs"
  by (induction cs rule: heeds_mutex.induct) auto

definition room_ok :: "waiting_room \<Rightarrow> bool" where
  "room_ok s \<longleftrightarrow> heeds_mutex (todo s) \<and> balanced (mutex s = Notifier) (todo s)
     \<and> (mutex s = Waiter \<longleftrightarrow> spot s = Holding \<or> spot s = Resolved)
     \<and> (flag s \<or> SetFlag \<in> set (todo s))
     \<and> (spot s = Resolved \<and> flag s \<longrightarrow> TakeMutex \<in> set (todo s))
     \<and> (spot s = Asleep \<and> flag s \<longrightarrow> NotifyAll \<in> set (todo s))"

lemma room_step_ok:
  assumes "room_step timed s s'" "room_ok s"
  shows "room_ok s'"
  using assms(1)
proof cases
  case wait_blocks
  then show ?thesis using assms(2) taken_then_notified [of "todo s"] by (auto simp: room_ok_def)
next
  case (notifies c cs s0)
  then show ?thesis
    using assms(2) taken_then_notified [of cs] by (cases c) (auto simp: room_ok_def split: if_splits)
qed (use assms(2) in \<open>auto simp: room_ok_def\<close>)

lemma room_reachable_ok:
  "room_reachable timed p s \<Longrightarrow> heeds_mutex p \<Longrightarrow> balanced False p \<Longrightarrow> SetFlag \<in> set p \<Longrightarrow> room_ok s"
  by (induction rule: room_reachable.induct) (auto simp: room_ok_def [of "\<lparr>spot = _, mutex = _, flag = _, todo = _\<rparr>"] intro: room_step_ok)

text \<open>
  C14
  A station's thread in its backoff and a worker without a job do not miss that they are to stop: once
  \<^verbatim>\<open>WakeBackoff\<close> or \<^verbatim>\<open>StopWorkers\<close> is through, neither is blocked on its condition variable, nor about to be,
  at whatever point of the wait the flag was set, and with other threads taking the mutex.
\<close>

theorem wakeups_are_not_lost:
  assumes "room_reachable timed p s" "p = wake_backoff_calls \<or> p = stop_jobs_calls" "todo s = []"
  shows "flag s \<and> spot s \<noteq> Asleep \<and> spot s \<noteq> Resolved"
proof -
  have "heeds_mutex p \<and> balanced False p \<and> SetFlag \<in> set p"
    using assms(2) by (auto simp: wake_backoff_calls_def stop_jobs_calls_def)
  then have "room_ok s" using room_reachable_ok [OF assms(1)] by blast
  then show ?thesis using assms(3) by (auto simp: room_ok_def)
qed

text \<open>The poller, between its look at the flag and its sleep, while \<^verbatim>\<open>StopWorkers\<close> runs.\<close>

lemma at_the_door:
  "room_reachable timed (SetFlag # cs) \<lparr>spot = Resolved, mutex = Waiter, flag = True, todo = cs\<rparr>"
proof -
  let ?r = "\<lambda>sp mu fl td. \<lparr>spot = sp, mutex = mu, flag = fl, todo = td\<rparr>"
  let ?p = "SetFlag # cs"
  have "room_reachable timed ?p (?r Holding Waiter False ?p)"
    using room_goes_on [OF room_opens [of timed ?p] wait_locks] by simp
  then have "room_reachable timed ?p (?r Resolved Waiter False ?p)"
    using wait_looks [of "?r Holding Waiter False ?p" timed] room_goes_on [of timed ?p] by fastforce
  then show ?thesis
    using notifies [of "?r Resolved Waiter False ?p" SetFlag cs _ timed] room_goes_on [of timed ?p] by fastforce
qed

text \<open>
  The poller can miss it: \<^verbatim>\<open>StopWorkers\<close> sets the flag and notifies without the poller's mutex, so both can
  fall between the poller's look at the flag and its sleep. Then it is blocked with nobody left to
  wake it, and \<^verbatim>\<open>StopWorkers\<close>, joining it, waits for its timeout, a whole poll interval.
\<close>

lemma poller_wakeup_can_be_lost:
  "\<exists>s. room_reachable True stop_poller_calls s \<and> todo s = [] \<and> flag s \<and> spot s = Asleep"
proof -
  let ?r = "\<lambda>sp mu td. \<lparr>spot = sp, mutex = mu, flag = True, todo = td\<rparr>"
  have "room_reachable True stop_poller_calls (?r Resolved Waiter [NotifyAll])"
    unfolding stop_poller_calls_def by (rule at_the_door)
  then have "room_reachable True stop_poller_calls (?r Resolved Waiter [])"
    using notifies [of "?r Resolved Waiter [NotifyAll]" NotifyAll "[]" _ True] room_goes_on [of True stop_poller_calls] by fastforce
  then have "room_reachable True stop_poller_calls (?r Asleep Free [])"
    using wait_blocks [of "?r Resolved Waiter []" True] room_goes_on [of True stop_poller_calls] by fastforce
  then show ?thesis by (intro exI [of _ "?r Asleep Free []"]) simp
qed

text \<open>A worker that was about to block when the flag was set.\<close>

lemma wakeups_are_not_lost_witness:
  "\<exists>s. room_reachable False stop_jobs_calls s \<and> todo s = [] \<and> spot s = Woken False \<and> flag s \<and> spot s \<noteq> Asleep"
proof -
  let ?r = "\<lambda>sp mu td. \<lparr>spot = sp, mutex = mu, flag = True, todo = td\<rparr>"
  let ?p = stop_jobs_calls
  have go: "room_reachable False ?p s \<Longrightarrow> room_step False s s' \<Longrightarrow> s' = s'' \<Longrightarrow> room_reachable False ?p s''" for s s' s''
    using room_goes_on by blast
  have "room_reachable False ?p (?r Resolved Waiter [TakeMutex, DropMutex, NotifyAll])"
    unfolding stop_jobs_calls_def by (rule at_the_door)
  from go [OF this wait_blocks] have "room_reachable False ?p (?r Asleep Free [TakeMutex, DropMutex, NotifyAll])" by simp
  from go [OF this notifies] have "room_reachable False ?p (?r Asleep Notifier [DropMutex, NotifyAll])" by simp
  from go [OF this notifies] have "room_reachable False ?p (?r Asleep Free [NotifyAll])" by simp
  from go [OF this notifies] have r: "room_reachable False ?p (?r (Woken False) Free [])" by simp
  show ?thesis using wakeups_are_not_lost [OF r] r by (intro exI [of _ "?r (Woken False) Free []"]) simp
qed

end
