(* ===== verification/Manager.thy ===== *)
theory Manager
  imports Station Server_Config Url
begin

text \<open>
  \<^verbatim>\<open>Manager\<close> of src/manager.h and src/manager.cpp: its state, and the operations the server's
  main thread calls. A \<^verbatim>\<open>shared_ptr<Station>\<close> is the index of the station's object in \<open>m_heap\<close>,
  which keeps an object that a job or a thread still refers to after the station is gone from
  \<^verbatim>\<open>stations_\<close>. Every critical section is one step; the worker, stream and poller threads are
  in \<^verbatim>\<open>Manager_Threads\<close>. \<open>m_pc\<close> says where the main thread waits for threads to end.
  Log lines are left out.
\<close>

section \<open>Jobs and callbacks\<close>

datatype event_kind =
  EvStationRegistered | EvTrackStarted | EvTrackEnded | EvQueueLow | EvQueueUpdated
| EvListenerCount | EvSilenceStarted | EvSilenceEnded | EvStatusUpdate | EvTrackQueued
| EvCommandResult | EvStationList | EvServerInfo | EvError

record pawn_event =
  ev_kind :: event_kind
  ev_station :: int
  ev_request :: int
  ev_flag :: bool
  ev_queue_id :: string
  ev_location :: string
  ev_title :: string
  ev_artist :: string
  ev_cover_art :: string
  ev_text :: string
  ev_text2 :: string
  ev_num1 :: int
  ev_num2 :: int

definition no_event :: pawn_event where
  "no_event = \<lparr>ev_kind = EvError, ev_station = k_invalid_station, ev_request = 0, ev_flag = False,
     ev_queue_id = [], ev_location = [], ev_title = [], ev_artist = [], ev_cover_art = [],
     ev_text = [], ev_text2 = [], ev_num1 = 0, ev_num2 = 0\<rparr>"

datatype job_kind =
  JobRegister | JobUnregister | JobQueueTrack | JobCommand | JobStatus | JobListStations | JobServerInfo

record job =
  j_kind :: job_kind
  j_rpc :: string
  j_body :: string
  j_station_id :: int
  j_request_id :: int
  j_command :: string
  j_result_key :: string
  j_flag_key :: string
  j_station :: "nat option"

definition no_job :: job where
  "no_job = \<lparr>j_kind = JobCommand, j_rpc = [], j_body = [], j_station_id = k_invalid_station,
     j_request_id = 0, j_command = [], j_result_key = [], j_flag_key = [], j_station = None\<rparr>"

section \<open>State\<close>

text \<open>
  A worker between the jobs it takes, or running one; \<open>w_reply\<close> holds the outcome of its call
  until it is handled. When the job is a registration, \<open>w_request\<close> is the body it is about to send and
  \<open>w_backoff\<close> the state of \<^verbatim>\<open>RegisterWithRetry\<close>.
\<close>

record worker =
  w_client :: client
  w_job :: "job option"
  w_request :: "string option"
  w_reply :: "(rpc_error + json) option"
  w_backoff :: int
  w_exited :: bool

text \<open>
  Where a stream thread is in \<^verbatim>\<open>StreamLoop\<close>; each blocking call has a phase of its own, which holds what it
  sends, and is followed by one that holds its outcome.
\<close>

datatype stream_phase =
  Registering int bool
| RegisterCalling int bool string
| RegisterAnswered int bool "rpc_error + json"
| Refreshing bool
| Subscribing
| Opening string
| SubscribeAnswered "rpc_error option"
| Reading
| ReadDone event_read
| Finished

record stream_thread =
  t_client :: client
  t_phase :: stream_phase
  t_backoff :: int

text \<open>The poller sleeps, or is on its way through the ids it read.\<close>

datatype poller = PollerGone | PollerWaiting | PollerAt "int list"

datatype main_pc =
  MainIdle
| StoppingFor manager_config
| StoppingForShutdown
| JoiningStation nat int
| JoiningAll "nat list"

record mgr =
  m_config :: manager_config
  m_url :: url
  m_configured :: bool
  m_running :: bool
  m_version :: string
  m_stations :: "(int, nat) std_map"
  m_heap :: "station list"
  m_threads :: "stream_thread list"
  m_listed :: "station_summary list"
  m_next_station :: int
  m_next_request :: int
  m_jobs :: "job list"
  m_workers :: "worker list"
  m_poller :: poller
  m_dispatch :: "pawn_event list"
  m_pc :: main_pc

definition new_manager :: mgr where
  "new_manager = \<lparr>m_config = default_config,
     m_url = \<lparr>scheme = [], host = [], port = 0, base_path = []\<rparr>, m_configured = False, m_running = False,
     m_version = [], m_stations = om_empty, m_heap = [], m_threads = [], m_listed = [], m_next_station = 0,
     m_next_request = 0, m_jobs = [], m_workers = [], m_poller = PollerGone, m_dispatch = [], m_pc = MainIdle\<rparr>"

definition station_at :: "mgr \<Rightarrow> nat \<Rightarrow> station" where
  "station_at m a = m_heap m ! a"

definition upd_station :: "nat \<Rightarrow> (station \<Rightarrow> station) \<Rightarrow> mgr \<Rightarrow> mgr" where
  "upd_station a f m = m\<lparr>m_heap := (m_heap m)[a := f (m_heap m ! a)]\<rparr>"

section \<open>The two queues\<close>

definition enqueue :: "job \<Rightarrow> mgr \<Rightarrow> mgr" where
  "enqueue j m = m\<lparr>m_jobs := m_jobs m @ [j]\<rparr>"

text \<open>\<^verbatim>\<open>jobs_.front()\<close> and \<^verbatim>\<open>pop_front\<close>.\<close>

definition take_job :: "mgr \<Rightarrow> (job \<times> mgr) option" where
  "take_job m = (case m_jobs m of [] \<Rightarrow> None | j # js \<Rightarrow> Some (j, m\<lparr>m_jobs := js\<rparr>))"

definition push_event :: "pawn_event \<Rightarrow> mgr \<Rightarrow> mgr" where
  "push_event e m = m\<lparr>m_dispatch := m_dispatch m @ [e]\<rparr>"

definition push_error :: "int \<Rightarrow> rpc_error \<Rightarrow> mgr \<Rightarrow> mgr" where
  "push_error i e m =
     push_event (no_event\<lparr>ev_kind := EvError, ev_station := i, ev_text := e_code e, ev_text2 := e_message e\<rparr>) m"

fun tick_loop :: "pawn_event list \<Rightarrow> pawn_event list \<Rightarrow> pawn_event list" where
  "tick_loop out [] = out"
| "tick_loop out (e # es) = tick_loop (out @ [e]) es"

definition tick :: "mgr \<Rightarrow> pawn_event list \<times> mgr" where
  "tick m = (tick_loop [] (m_dispatch m), m\<lparr>m_dispatch := []\<rparr>)"

section \<open>Looking stations up\<close>

definition find_station :: "mgr \<Rightarrow> int \<Rightarrow> nat option" where
  "find_station m i = om_find (m_stations m) i"

definition is_valid_station :: "mgr \<Rightarrow> int \<Rightarrow> bool" where
  "is_valid_station m i \<longleftrightarrow> find_station m i \<noteq> None"

fun slug_loop :: "station list \<Rightarrow> string \<Rightarrow> (int \<times> nat) list \<Rightarrow> int" where
  "slug_loop heap slug [] = k_invalid_station"
| "slug_loop heap slug ((i, a) # m) = (if s_slug (heap ! a) = slug then i else slug_loop heap slug m)"

definition find_station_by_slug :: "mgr \<Rightarrow> string \<Rightarrow> int" where
  "find_station_by_slug m slug = slug_loop (m_heap m) slug (m_stations m)"

definition station_ids :: "mgr \<Rightarrow> int list" where
  "station_ids m = map fst (m_stations m)"

section \<open>Configuring\<close>

definition check_config :: "nat \<Rightarrow> bool \<Rightarrow> manager_config \<Rightarrow> mgr \<Rightarrow> string + url" where
  "check_config lb tls cfg m =
     (if m_stations m \<noteq> [] then
        Inl (''cannot change the audio server while stations exist -- destroy them first, or ''
          @ ''configure it in server.cfg before any station is created'')
      else if cfg_token cfg = [] then
        Inl (''no auth token configured (set goradio_token in server.cfg, or pass one to ''
          @ ''GoRadio_SetServer)'')
      else case parse_url lb (cfg_url cfg) of
        Inl e \<Rightarrow> Inl e
      | Inr u \<Rightarrow>
          if secure u \<and> \<not> tls then
            Inl ''this build has no TLS support, so it cannot use an https:// audio server URL''
          else Inr u)"

text \<open>\<^verbatim>\<open>StopWorkers\<close> up to the joins: a worker that waits for an answer is woken from its socket.\<close>

definition wake_worker :: "worker \<Rightarrow> worker" where
  "wake_worker w = w\<lparr>w_client := client_interrupt (w_client w)\<rparr>"

definition stop_workers :: "mgr \<Rightarrow> mgr" where
  "stop_workers m =
     (if m_running m then m\<lparr>m_running := False, m_jobs := [], m_workers := map wake_worker (m_workers m)\<rparr> else m)"

lemma wake_worker_fields [simp]:
  "w_job (wake_worker w) = w_job w" "w_request (wake_worker w) = w_request w" "w_reply (wake_worker w) = w_reply w" "w_backoff (wake_worker w) = w_backoff w"
  "w_exited (wake_worker w) = w_exited w"
  by (simp_all add: wake_worker_def)

text \<open>The rest of \<^verbatim>\<open>Configure\<close>, once the old threads are gone; worker \<open>i\<close> talks to \<open>net i\<close>.\<close>

definition start_workers :: "bool \<Rightarrow> (nat \<Rightarrow> sock) \<Rightarrow> manager_config \<Rightarrow> mgr \<Rightarrow> mgr" where
  "start_workers tls net cfg m =
     (let n = nat (if workers cfg < 1 then 1 else workers cfg);
          ws = map (\<lambda>i. \<lparr>w_client = new_client tls (m_url m) (cfg_token cfg) (timeout_ms cfg) (net i),
                         w_job = None, w_request = None, w_reply = None, w_backoff = 0, w_exited = False\<rparr>) [0..<n] in
      enqueue (no_job\<lparr>j_kind := JobServerInfo, j_rpc := ''GetServerInfo'', j_body := ''{}''\<rparr>)
        (m\<lparr>m_running := True, m_workers := ws, m_poller := PollerWaiting, m_pc := MainIdle\<rparr>))"

text \<open>\<^verbatim>\<open>Configure\<close>: accepted, it waits for the old threads when there are any.\<close>

definition configure ::
  "nat \<Rightarrow> bool \<Rightarrow> (nat \<Rightarrow> sock) \<Rightarrow> manager_config \<Rightarrow> mgr \<Rightarrow> string option \<times> mgr" where
  "configure lb tls net cfg m =
     (case check_config lb tls cfg m of
        Inl e \<Rightarrow> (Some e, m)
      | Inr u \<Rightarrow>
          (let m1 = m\<lparr>m_config := cfg, m_url := u, m_configured := True\<rparr> in
           if m_running m1 then (None, (stop_workers m1)\<lparr>m_pc := StoppingFor cfg\<rparr>)
           else (None, start_workers tls net cfg m1)))"

datatype reload_result = ReloadFailed | ReloadApplied | ReloadPartial

definition reload ::
  "nat \<Rightarrow> bool \<Rightarrow> (nat \<Rightarrow> sock) \<Rightarrow> manager_config \<Rightarrow> mgr \<Rightarrow> reload_result \<times> string option \<times> mgr" where
  "reload lb tls net cfg m =
     (let via = (\<lambda>m. case configure lb tls net cfg m of
             (None, m') \<Rightarrow> (ReloadApplied, None, m')
           | (Some e, m') \<Rightarrow> (ReloadFailed, Some e, m')) in
      if \<not> m_running m then via m
      else
        let differs = connection_differs (m_config m) cfg;
            m1 = m\<lparr>m_config := (m_config m)\<lparr>poll_interval_ms := poll_interval_ms cfg\<rparr>\<rparr> in
        if \<not> differs then (ReloadApplied, None, m1)
        else if m_stations m \<noteq> [] then
          (ReloadPartial,
           Some (''the audio server URL, token, worker count and timeout were left unchanged because ''
             @ ''stations are registered -- destroy them first, or restart the server''), m1)
        else via m1)"

section \<open>Stations\<close>

definition k_min_backoff :: int where "k_min_backoff = 1000"
definition k_max_backoff :: int where "k_max_backoff = 30000"

text \<open>
  \<^verbatim>\<open>CreateStation\<close>: the station, its event stream and its thread, which starts by registering.
  The stream's peer is \<open>net 0\<close>, that of the thread's own client \<open>net 1\<close>. The thread reads address,
  token and timeout when it starts to run; no step changes them while the station exists.
\<close>

definition create_station ::
  "bool \<Rightarrow> (nat \<Rightarrow> sock) \<Rightarrow> string \<Rightarrow> string \<Rightarrow> string \<Rightarrow> int \<Rightarrow> string \<Rightarrow> mgr \<Rightarrow> (string + int) \<times> mgr" where
  "create_station tls net slug name description threshold logo m =
     (if slug = [] then (Inl ''station slug is empty'', m)
      else if \<not> m_configured m then
        (Inl (''no audio server configured (set goradio_url/goradio_token in server.cfg, or call ''
           @ ''GoRadio_SetServer first)''), m)
      else if find_station_by_slug m slug \<noteq> k_invalid_station then
        (Inl (''a station with slug '' @ [CHR 0x22] @ slug @ [CHR 0x22] @ '' already exists on this server''), m)
      else
        let i = m_next_station m; a = length (m_heap m);
            tok = cfg_token (m_config m); tmo = timeout_ms (m_config m);
            s = new_station\<lparr>s_id := i, s_slug := slug, s_name := (if name = [] then slug else name),
                  s_description := description, s_logo_url := logo, s_low_queue_threshold := threshold,
                  s_stream := Some (new_stream tls (m_url m) tok tmo (net 0))\<rparr>;
            t = \<lparr>t_client = new_client tls (m_url m) tok tmo (net 1), t_phase = Registering k_min_backoff False,
                 t_backoff = k_min_backoff\<rparr> in
        (Inr i, m\<lparr>m_next_station := to_int32 (i + 1), m_stations := om_put i a (m_stations m),
                  m_heap := m_heap m @ [s], m_threads := m_threads m @ [t]\<rparr>))"

text \<open>A station is told to stop, and its thread is woken from the event stream.\<close>

definition halt_station :: "station \<Rightarrow> station" where
  "halt_station s = s\<lparr>s_stopping := True, s_stream := map_option stream_interrupt (s_stream s)\<rparr>"

lemma halt_station_fields [simp]:
  "s_id (halt_station s) = s_id s" "s_slug (halt_station s) = s_slug s" "s_name (halt_station s) = s_name s"
  "s_metadata (halt_station s) = s_metadata s" "s_stopping (halt_station s)" "s_status (halt_station s) = s_status s"
  "s_registered (halt_station s) = s_registered s" "s_stream_url (halt_station s) = s_stream_url s"
  "s_stream (halt_station s) = None \<longleftrightarrow> s_stream s = None"
  by (simp_all add: halt_station_def)

text \<open>
  \<^verbatim>\<open>DestroyStation\<close> up to the join, and from it on. The slug and the id of the request are
  those of the object and of the call.
\<close>

definition destroy_station :: "int \<Rightarrow> mgr \<Rightarrow> bool \<times> mgr" where
  "destroy_station i m =
     (case find_station m i of
        None \<Rightarrow> (False, m)
      | Some a \<Rightarrow>
          (True, (upd_station a halt_station (m\<lparr>m_stations := om_erase i (m_stations m)\<rparr>))
                   \<lparr>m_pc := JoiningStation a i\<rparr>))"

definition unregister_job :: "int \<Rightarrow> string \<Rightarrow> job" where
  "unregister_job i slug =
     no_job\<lparr>j_kind := JobUnregister, j_rpc := ''UnregisterStation'', j_body := jo_build (jo_str ''slug'' slug []),
       j_station_id := i\<rparr>"

definition destroy_joined :: "nat \<Rightarrow> int \<Rightarrow> mgr \<Rightarrow> mgr" where
  "destroy_joined a i m =
     (let m1 = upd_station a (\<lambda>s. s\<lparr>s_stream := None\<rparr>) m in
      (enqueue (unregister_job i (s_slug (station_at m1 a))) m1)\<lparr>m_pc := MainIdle\<rparr>)"

definition set_metadata :: "int \<Rightarrow> string \<Rightarrow> string \<Rightarrow> mgr \<Rightarrow> bool \<times> mgr" where
  "set_metadata i key v m =
     (case find_station m i of
        None \<Rightarrow> (False, m)
      | Some a \<Rightarrow>
          (True, upd_station a (\<lambda>s. s\<lparr>s_metadata :=
             (if v = [] then om_erase key (s_metadata s) else om_put key v (s_metadata s))\<rparr>) m))"

definition clear_metadata :: "int \<Rightarrow> mgr \<Rightarrow> bool \<times> mgr" where
  "clear_metadata i m =
     (case find_station m i of
        None \<Rightarrow> (False, m)
      | Some a \<Rightarrow> (True, upd_station a (\<lambda>s. s\<lparr>s_metadata := om_empty\<rparr>) m))"

definition register_job :: "int \<Rightarrow> nat \<Rightarrow> job" where
  "register_job i a = no_job\<lparr>j_kind := JobRegister, j_station_id := i, j_station := Some a\<rparr>"

definition update_station :: "int \<Rightarrow> string \<Rightarrow> string \<Rightarrow> int \<Rightarrow> string \<Rightarrow> mgr \<Rightarrow> bool \<times> mgr" where
  "update_station i name description threshold logo m =
     (case find_station m i of
        None \<Rightarrow> (False, m)
      | Some a \<Rightarrow>
          (True, enqueue (register_job i a)
             (upd_station a (\<lambda>s. s\<lparr>s_name := (if name = [] then s_slug s else name),
                s_description := description, s_low_queue_threshold := threshold, s_logo_url := logo\<rparr>) m)))"

section \<open>Getters\<close>

definition get_slug :: "mgr \<Rightarrow> int \<Rightarrow> string option" where
  "get_slug m i = map_option (\<lambda>a. s_slug (station_at m a)) (find_station m i)"

definition get_stream_url :: "mgr \<Rightarrow> int \<Rightarrow> string option" where
  "get_stream_url m i = map_option (\<lambda>a. s_stream_url (station_at m a)) (find_station m i)"

definition is_registered :: "mgr \<Rightarrow> int \<Rightarrow> bool" where
  "is_registered m i = (case find_station m i of None \<Rightarrow> False | Some a \<Rightarrow> s_registered (station_at m a))"

text \<open>\<^verbatim>\<open>duration_cast<seconds>\<close> of nanoseconds, towards zero.\<close>

definition whole_seconds :: "int \<Rightarrow> int" where
  "whole_seconds ns = (if 0 \<le> ns then ns div 1000000000 else - ((- ns) div 1000000000))"

definition carry_elapsed :: "int \<Rightarrow> station_status \<Rightarrow> station_status" where
  "carry_elapsed now st =
     (if ss_valid st \<and> ss_has_current st \<and> \<not> ss_is_paused st then
        let secs = whole_seconds (now - ss_updated_at st) in
        if secs > 0 then
          let e = ss_elapsed st + secs in
          st\<lparr>ss_elapsed := (if tr_duration (ss_current st) > 0 \<and> e > tr_duration (ss_current st)
                           then tr_duration (ss_current st) else e)\<rparr>
        else st
      else st)"

definition get_status :: "int \<Rightarrow> mgr \<Rightarrow> int \<Rightarrow> station_status option" where
  "get_status now m i = map_option (\<lambda>a. carry_elapsed now (s_status (station_at m a))) (find_station m i)"

section \<open>Commands\<close>

definition next_request :: "mgr \<Rightarrow> int \<times> mgr" where
  "next_request m = (let r = to_int32 (m_next_request m + 1) in (r, m\<lparr>m_next_request := r\<rparr>))"

text \<open>Gives a job the next request id and queues it.\<close>

definition enqueue_request :: "job \<Rightarrow> mgr \<Rightarrow> int \<times> mgr" where
  "enqueue_request j m = (case next_request m of (r, m1) \<Rightarrow> (r, enqueue (j\<lparr>j_request_id := r\<rparr>) m1))"

definition enqueue_command ::
  "int \<Rightarrow> string \<Rightarrow> string \<Rightarrow> string \<Rightarrow> string \<Rightarrow> string \<Rightarrow> mgr \<Rightarrow> int \<times> mgr" where
  "enqueue_command i rpc command body flag_key result_key m =
     (case find_station m i of
        None \<Rightarrow> (0, m)
      | Some a \<Rightarrow>
          enqueue_request (no_job\<lparr>j_kind := JobCommand, j_rpc := rpc, j_command := command, j_body := body,
            j_station_id := i, j_station := Some a, j_flag_key := flag_key, j_result_key := result_key\<rparr>) m)"

definition source_type_for :: "string \<Rightarrow> string" where
  "source_type_for location =
     (if starts_with ''http://'' location \<or> starts_with ''https://'' location
      then ''TRACK_SOURCE_TYPE_HTTP_URL'' else ''TRACK_SOURCE_TYPE_LOCAL_FILE'')"

definition source_json :: "string \<Rightarrow> string \<Rightarrow> string \<Rightarrow> string \<Rightarrow> string" where
  "source_json location title artist cover_art =
     jo_build (jo_str_if_set ''coverArtUrl'' cover_art (jo_str_if_set ''displayArtist'' artist
       (jo_str_if_set ''displayTitle'' title (jo_str ''location'' location
         (jo_str ''type'' (source_type_for location) [])))))"

definition queue_track_json :: "string \<Rightarrow> string \<Rightarrow> string \<Rightarrow> string \<Rightarrow> string \<Rightarrow> int \<Rightarrow> string" where
  "queue_track_json slug location title artist cover_art mode =
     jo_build (jo_str ''mode'' (queue_mode_to_proto mode)
       (jo_raw ''source'' (source_json location title artist cover_art) (jo_str ''slug'' slug [])))"

definition queue_track :: "int \<Rightarrow> string \<Rightarrow> string \<Rightarrow> string \<Rightarrow> string \<Rightarrow> int \<Rightarrow> mgr \<Rightarrow> int \<times> mgr" where
  "queue_track i location title artist cover_art mode m =
     (case find_station m i of
        None \<Rightarrow> (0, m)
      | Some a \<Rightarrow>
          enqueue_request (no_job\<lparr>j_kind := JobQueueTrack, j_rpc := ''QueueTrack'', j_command := ''QueueTrack'',
            j_body := queue_track_json (s_slug (station_at m a)) location title artist cover_art mode,
            j_station_id := i, j_station := Some a\<rparr>) m)"

text \<open>\<^verbatim>\<open>GetSlug\<close>, then a request built from the slug, then \<^verbatim>\<open>EnqueueCommand\<close>.\<close>

definition slug_command ::
  "int \<Rightarrow> string \<Rightarrow> (string \<Rightarrow> string) \<Rightarrow> string \<Rightarrow> string \<Rightarrow> mgr \<Rightarrow> int \<times> mgr" where
  "slug_command i rpc body flag_key result_key m =
     (case get_slug m i of
        None \<Rightarrow> (0, m)
      | Some slug \<Rightarrow> enqueue_command i rpc rpc (jo_build (body (jo_str ''slug'' slug []))) flag_key result_key m)"

definition dequeue :: "int \<Rightarrow> string \<Rightarrow> mgr \<Rightarrow> int \<times> mgr" where
  "dequeue i queue_id = slug_command i ''RemoveFromQueue'' (jo_str ''queueId'' queue_id) ''removed'' []"

definition clear_queue :: "int \<Rightarrow> bool \<Rightarrow> mgr \<Rightarrow> int \<times> mgr" where
  "clear_queue i stop_current =
     slug_command i ''ClearQueue'' (if stop_current then jo_bool ''stopCurrent'' True else id) [] ''removedCount''"

definition skip :: "int \<Rightarrow> mgr \<Rightarrow> int \<times> mgr" where
  "skip i = slug_command i ''Skip'' id ''skipped'' []"

definition skip_to :: "int \<Rightarrow> string \<Rightarrow> mgr \<Rightarrow> int \<times> mgr" where
  "skip_to i queue_id = slug_command i ''SkipTo'' (jo_str ''queueId'' queue_id) [] ''removedCount''"

definition pause :: "int \<Rightarrow> mgr \<Rightarrow> int \<times> mgr" where
  "pause i = slug_command i ''Pause'' id ''paused'' []"

definition resume :: "int \<Rightarrow> mgr \<Rightarrow> int \<times> mgr" where
  "resume i = slug_command i ''Resume'' id ''resumed'' []"

definition seek :: "int \<Rightarrow> int \<Rightarrow> mgr \<Rightarrow> int \<times> mgr" where
  "seek i pos = slug_command i ''Seek'' (jo_int ''positionSeconds'' pos) ''seeked'' ''positionSeconds''"

definition seek_by :: "int \<Rightarrow> int \<Rightarrow> mgr \<Rightarrow> int \<times> mgr" where
  "seek_by i delta = slug_command i ''SeekBy'' (jo_int ''deltaSeconds'' delta) ''seeked'' ''positionSeconds''"

definition refresh_status :: "int \<Rightarrow> mgr \<Rightarrow> int \<times> mgr" where
  "refresh_status i m =
     (case find_station m i of
        None \<Rightarrow> (0, m)
      | Some a \<Rightarrow>
          enqueue_request (no_job\<lparr>j_kind := JobStatus, j_rpc := ''GetStatus'',
            j_body := jo_build (jo_str ''slug'' (s_slug (station_at m a)) []), j_station_id := i,
            j_station := Some a\<rparr>) m)"

definition request_station_list :: "mgr \<Rightarrow> int \<times> mgr" where
  "request_station_list m =
     (if \<not> m_configured m then (0, m)
      else enqueue_request (no_job\<lparr>j_kind := JobListStations, j_rpc := ''ListStations'', j_body := ''{}''\<rparr>) m)"

section \<open>Shutting down\<close>

text \<open>\<^verbatim>\<open>Shutdown\<close> up to the joins of the stream threads, from there to \<^verbatim>\<open>StopWorkers\<close>, and its end.\<close>

definition shutdown :: "mgr \<Rightarrow> mgr" where
  "shutdown m =
     (if \<not> m_running m then m
      else let as = map snd (m_stations m) in
        (fold (\<lambda>a. upd_station a halt_station) as m)
          \<lparr>m_stations := om_empty, m_pc := JoiningAll as\<rparr>)"

definition shutdown_joined :: "nat list \<Rightarrow> mgr \<Rightarrow> mgr" where
  "shutdown_joined as m =
     (stop_workers (fold (\<lambda>a. upd_station a (\<lambda>s. s\<lparr>s_stream := None\<rparr>)) as m))\<lparr>m_pc := StoppingForShutdown\<rparr>"

definition shutdown_finished :: "mgr \<Rightarrow> mgr" where
  "shutdown_finished m = m\<lparr>m_workers := [], m_poller := PollerGone, m_configured := False, m_pc := MainIdle\<rparr>"

end
