(* ===== verification/Manager_Threads.thy ===== *)
theory Manager_Threads
  imports Manager
begin

text \<open>
  The threads of src/manager.cpp: the workers with the handling of responses, registration
  with its retries, the stream thread of a station with the events it dispatches, and the
  status poller. A step of a thread goes from one blocking call to the next: looking at the stopping flag
  and making up a request is one step, the remote call or the read of the event stream another, handling
  its outcome a third, so that the other threads and the main thread come in between. A wait that only lets
  time pass is no step.
\<close>

definition next_backoff :: "int \<Rightarrow> int" where
  "next_backoff current = (let next = current * 2 in if next > k_max_backoff then k_max_backoff else next)"

section \<open>Responses\<close>

definition tracks_from :: "json \<Rightarrow> track_info list" where
  "tracks_from arr = map (\<lambda>i. track_from_json (json_at arr i) no_track) [0..<json_size arr]"

definition history_from :: "json \<Rightarrow> track_info list" where
  "history_from arr =
     map (\<lambda>i. (track_from_json (json_at arr i) no_track)\<lparr>tr_reason := get_str (json_at arr i) ''reason'' []\<rparr>)
       [0..<json_size arr]"

definition status_from_json :: "int \<Rightarrow> json \<Rightarrow> station_status" where
  "status_from_json now resp =
     (let current = get resp ''currentTrack''; q = tracks_from (get resp ''queue'') in
      \<lparr>ss_valid = True,
       ss_name = get_str resp ''name'' [],
       ss_is_registered = get_bool resp ''isRegistered'' False,
       ss_is_silence = get_bool resp ''isSilence'' False,
       ss_is_paused = get_bool resp ''isPaused'' False,
       ss_listener_count = get_int resp ''listenerCount'' 0,
       ss_uptime = get_int resp ''uptimeSeconds'' 0,
       ss_elapsed = get_int resp ''currentTrackElapsedSeconds'' 0,
       ss_has_current = (\<not> is_null current),
       ss_current = (if is_null current then no_track else track_from_json current no_track),
       ss_queue = q,
       ss_queue_length = int (length q),
       ss_history = history_from (get resp ''history''),
       ss_logo_url = get_str resp ''logoUrl'' [],
       ss_updated_at = now\<rparr>)"

definition apply_status :: "int \<Rightarrow> nat \<Rightarrow> json \<Rightarrow> mgr \<Rightarrow> mgr" where
  "apply_status now a resp = upd_station a (\<lambda>s. s\<lparr>s_status := status_from_json now resp\<rparr>)"

definition summaries_from :: "json \<Rightarrow> station_summary list" where
  "summaries_from arr =
     map (\<lambda>i. let item = json_at arr i in
            \<lparr>sm_slug = get_str item ''slug'' [], sm_name = get_str item ''name'' [],
             sm_logo_url = get_str item ''logoUrl'' [], sm_listener_count = get_int item ''listenerCount'' 0\<rparr>)
       [0..<json_size arr]"

definition handle_job_response :: "int \<Rightarrow> job \<Rightarrow> json \<Rightarrow> mgr \<Rightarrow> mgr" where
  "handle_job_response now j resp m =
     (case j_kind j of
        JobQueueTrack \<Rightarrow>
          push_event (no_event\<lparr>ev_kind := EvTrackQueued, ev_station := j_station_id j, ev_request := j_request_id j,
            ev_queue_id := get_str resp ''queueId'' [], ev_text := get_str resp ''status'' [],
            ev_num2 := get_int resp ''queuePosition'' 0, ev_flag := True\<rparr>) m
      | JobCommand \<Rightarrow>
          (let flag = (if j_flag_key j = [] then True else get_bool resp (j_flag_key j) False) in
           push_event (no_event\<lparr>ev_kind := EvCommandResult, ev_station := j_station_id j,
             ev_request := j_request_id j, ev_text := j_command j, ev_flag := flag,
             ev_num1 := (if j_result_key j = [] then (if flag then 1 else 0)
                         else get_int resp (j_result_key j) 0)\<rparr>) m)
      | JobStatus \<Rightarrow>
          push_event (no_event\<lparr>ev_kind := EvStatusUpdate, ev_station := j_station_id j,
              ev_request := j_request_id j\<rparr>)
            (case j_station j of Some a \<Rightarrow> apply_status now a resp m | None \<Rightarrow> m)
      | JobListStations \<Rightarrow>
          (let listed = summaries_from (get resp ''stations'') in
           push_event (no_event\<lparr>ev_kind := EvStationList, ev_request := j_request_id j,
               ev_num1 := int (length listed)\<rparr>) (m\<lparr>m_listed := listed\<rparr>))
      | JobServerInfo \<Rightarrow>
          (let version = get_str resp ''version'' [] in
           push_event (no_event\<lparr>ev_kind := EvServerInfo, ev_text := version\<rparr>) (m\<lparr>m_version := version\<rparr>))
      | JobUnregister \<Rightarrow> m
      | JobRegister \<Rightarrow> m)"

text \<open>The branch of \<^verbatim>\<open>WorkerLoop\<close> for a failed call.\<close>

definition job_failed :: "job \<Rightarrow> rpc_error \<Rightarrow> mgr \<Rightarrow> mgr" where
  "job_failed j e m =
     (if j_kind j = JobUnregister then m
      else push_error (j_station_id j) e
        (if j_kind j = JobCommand \<or> j_kind j = JobQueueTrack then
           push_event (no_event\<lparr>ev_kind := EvCommandResult, ev_station := j_station_id j,
             ev_request := j_request_id j, ev_text := j_command j, ev_flag := False\<rparr>) m
         else m))"

definition finish_job :: "int \<Rightarrow> job \<Rightarrow> (rpc_error + json) \<Rightarrow> mgr \<Rightarrow> mgr" where
  "finish_job now j r m =
     (case r of Inl e \<Rightarrow> job_failed j e m | Inr resp \<Rightarrow> handle_job_response now j resp m)"

section \<open>Registering\<close>

text \<open>One turn of \<^verbatim>\<open>RegisterWithRetry\<close>: given up, registered, or to be tried again.\<close>

datatype registration = GivenUp | Registered | TryAgain

definition registration_done :: "nat \<Rightarrow> bool \<Rightarrow> (rpc_error + json) \<Rightarrow> mgr \<Rightarrow> registration \<times> mgr" where
  "registration_done a reconnect r m =
     (let i = s_id (station_at m a) in
      case r of
        Inr resp \<Rightarrow>
          (let url = get_str resp ''streamUrl'' [] in
           (Registered,
            push_event (no_event\<lparr>ev_kind := EvStationRegistered, ev_station := i, ev_text := url,
                ev_flag := get_bool resp ''reRegistered'' False, ev_num1 := (if reconnect then 1 else 0)\<rparr>)
              (upd_station a (\<lambda>s. s\<lparr>s_registered := True, s_stream_url := url\<rparr>) m)))
      | Inl e \<Rightarrow>
          (let m1 = upd_station a (\<lambda>s. s\<lparr>s_registered := False\<rparr>) m in
           if permanent e then (GivenUp, push_error i e m1) else (TryAgain, m1)))"

text \<open>What will be sent, unless the station or the plugin is stopping; the call comes after it.\<close>

definition quitting :: "nat \<Rightarrow> mgr \<Rightarrow> bool" where
  "quitting a m \<longleftrightarrow> s_stopping (station_at m a) \<or> \<not> m_running m"

definition register_body :: "nat \<Rightarrow> mgr \<Rightarrow> string option" where
  "register_body a m = (if quitting a m then None else Some (register_request_json (station_at m a)))"

section \<open>Workers\<close>

definition upd_worker :: "nat \<Rightarrow> (worker \<Rightarrow> worker) \<Rightarrow> mgr \<Rightarrow> mgr" where
  "upd_worker i f m = m\<lparr>m_workers := (m_workers m)[i := f (m_workers m ! i)]\<rparr>"

text \<open>Waiting for a job: the next one is taken; with none left a stopped pool's worker returns.\<close>

definition worker_take :: "nat \<Rightarrow> mgr \<Rightarrow> mgr" where
  "worker_take i m =
     (case take_job m of
        Some (j, m1) \<Rightarrow> upd_worker i (\<lambda>w. w\<lparr>w_job := Some j, w_backoff := k_min_backoff\<rparr>) m1
      | None \<Rightarrow> if m_running m then m else upd_worker i (\<lambda>w. w\<lparr>w_exited := True\<rparr>) m)"

text \<open>A registration for a station that is stopping is dropped; otherwise it is called next.\<close>

definition worker_register :: "nat \<Rightarrow> job \<Rightarrow> mgr \<Rightarrow> mgr" where
  "worker_register i j m =
     (case Option.bind (j_station j) (\<lambda>a. register_body a m) of
        None \<Rightarrow> upd_worker i (\<lambda>w. w\<lparr>w_job := None\<rparr>) m
      | Some body \<Rightarrow> upd_worker i (\<lambda>w. w\<lparr>w_request := Some body\<rparr>) m)"

definition worker_call :: "nat \<Rightarrow> nat \<Rightarrow> string \<Rightarrow> string \<Rightarrow> mgr \<Rightarrow> mgr" where
  "worker_call lb i rpc body m =
     (case call_rpc lb rpc body (w_client (m_workers m ! i)) of
        (r, cl) \<Rightarrow> upd_worker i (\<lambda>w. w\<lparr>w_client := cl, w_request := None, w_reply := Some r\<rparr>) m)"

text \<open>What the worker does with the answer; only a registration that failed is called again.\<close>

definition worker_handle :: "int \<Rightarrow> nat \<Rightarrow> job \<Rightarrow> (rpc_error + json) \<Rightarrow> mgr \<Rightarrow> mgr" where
  "worker_handle now i j r m =
     (let finished = upd_worker i (\<lambda>w. w\<lparr>w_job := None, w_reply := None\<rparr>) in
      if j_kind j = JobRegister then
        (case j_station j of
           None \<Rightarrow> finished m
         | Some a \<Rightarrow>
             (case registration_done a False r m of
                (TryAgain, m1) \<Rightarrow>
                  upd_worker i (\<lambda>w. w\<lparr>w_reply := None, w_backoff := next_backoff (w_backoff w)\<rparr>) m1
              | (_, m1) \<Rightarrow> finished m1))
      else finish_job now j r (finished m))"

definition worker_step :: "nat \<Rightarrow> int \<Rightarrow> nat \<Rightarrow> mgr \<Rightarrow> mgr" where
  "worker_step lb now i m =
     (let w = m_workers m ! i in
      if w_exited w then m
      else case (w_job w, w_reply w) of
        (None, _) \<Rightarrow> worker_take i m
      | (Some j, Some r) \<Rightarrow> worker_handle now i j r m
      | (Some j, None) \<Rightarrow>
          if j_kind j \<noteq> JobRegister then worker_call lb i (j_rpc j) (j_body j) m
          else (case w_request w of
                  None \<Rightarrow> worker_register i j m
                | Some body \<Rightarrow> worker_call lb i ''RegisterStation'' body m))"

section \<open>Events of a station\<close>

definition upd_status :: "nat \<Rightarrow> (station_status \<Rightarrow> station_status) \<Rightarrow> mgr \<Rightarrow> mgr" where
  "upd_status a f = upd_station a (\<lambda>s. s\<lparr>s_status := f (s_status s)\<rparr>)"

definition refresh :: "int \<Rightarrow> mgr \<Rightarrow> mgr" where
  "refresh i m = snd (refresh_status i m)"

definition dispatch_station_event :: "int \<Rightarrow> nat \<Rightarrow> json \<Rightarrow> mgr \<Rightarrow> mgr" where
  "dispatch_station_event now a event m =
     (let type = get_str event ''type'' [];
          i = s_id (station_at m a);
          ev = no_event\<lparr>ev_station := i\<rparr> in
      if type = ''EVENT_TYPE_TRACK_STARTED'' then
        (let track = track_from_json (get event ''trackStarted'') no_track in
         refresh i (push_event
           (ev\<lparr>ev_kind := EvTrackStarted, ev_queue_id := tr_queue_id track, ev_location := tr_location track,
               ev_title := tr_title track, ev_artist := tr_artist track, ev_cover_art := tr_cover_art track,
               ev_num1 := tr_duration track\<rparr>)
           (upd_status a (\<lambda>st. st\<lparr>ss_valid := True, ss_has_current := True, ss_current := track,
              ss_is_silence := False, ss_is_paused := False, ss_elapsed := 0, ss_updated_at := now\<rparr>) m)))
      else if type = ''EVENT_TYPE_TRACK_ENDED'' then
        (let p = get event ''trackEnded'' in
         refresh i (push_event
           (ev\<lparr>ev_kind := EvTrackEnded, ev_queue_id := get_str p ''queueId'' [], ev_text := get_str p ''reason'' []\<rparr>)
           (upd_status a (\<lambda>st. st\<lparr>ss_has_current := False, ss_current := no_track, ss_elapsed := 0\<rparr>) m)))
      else if type = ''EVENT_TYPE_QUEUE_UPDATED'' then
        (let n = get_int (get event ''queueUpdated'') ''queueLength'' 0 in
         push_event (ev\<lparr>ev_kind := EvQueueUpdated, ev_num1 := n\<rparr>)
           (upd_status a (\<lambda>st. st\<lparr>ss_queue_length := n\<rparr>) m))
      else if type = ''EVENT_TYPE_LISTENER_COUNT_CHANGED'' then
        (let n = get_int (get event ''listenerCountChanged'') ''listenerCount'' 0 in
         push_event (ev\<lparr>ev_kind := EvListenerCount, ev_num1 := n\<rparr>)
           (upd_status a (\<lambda>st. st\<lparr>ss_listener_count := n\<rparr>) m))
      else if type = ''EVENT_TYPE_QUEUE_LOW'' then
        (let p = get event ''queueLow'' in
         push_event (ev\<lparr>ev_kind := EvQueueLow, ev_num1 := get_int p ''queueLength'' 0,
           ev_num2 := get_int p ''threshold'' 0\<rparr>) m)
      else if type = ''EVENT_TYPE_SILENCE_STARTED'' \<or> type = ''EVENT_TYPE_SILENCE_ENDED'' then
        (let silence = (type = ''EVENT_TYPE_SILENCE_STARTED'') in
         push_event (ev\<lparr>ev_kind := (if silence then EvSilenceStarted else EvSilenceEnded)\<rparr>)
           (upd_status a (\<lambda>st. st\<lparr>ss_is_silence := silence\<rparr>) m))
      else if type = ''EVENT_TYPE_ERROR'' then
        (let p = get event ''error'' in
         push_event (ev\<lparr>ev_kind := EvError, ev_text := get_str p ''code'' [], ev_text2 := get_str p ''message'' []\<rparr>) m)
      else m)"

section \<open>Stream threads\<close>

definition upd_thread :: "nat \<Rightarrow> (stream_thread \<Rightarrow> stream_thread) \<Rightarrow> mgr \<Rightarrow> mgr" where
  "upd_thread a f m = m\<lparr>m_threads := (m_threads m)[a := f (m_threads m ! a)]\<rparr>"

definition go :: "nat \<Rightarrow> stream_phase \<Rightarrow> mgr \<Rightarrow> mgr" where
  "go a p = upd_thread a (\<lambda>t. t\<lparr>t_phase := p\<rparr>)"

definition set_stream :: "nat \<Rightarrow> stream \<Rightarrow> mgr \<Rightarrow> mgr" where
  "set_stream a st = upd_station a (\<lambda>s. s\<lparr>s_stream := Some st\<rparr>)"

text \<open>\<^verbatim>\<open>RegisterWithRetry\<close> in the stream thread.\<close>

definition thread_register :: "nat \<Rightarrow> int \<Rightarrow> bool \<Rightarrow> mgr \<Rightarrow> mgr" where
  "thread_register a backoff reconnect m =
     go a (case register_body a m of None \<Rightarrow> Finished | Some body \<Rightarrow> RegisterCalling backoff reconnect body) m"

definition thread_call :: "nat \<Rightarrow> nat \<Rightarrow> int \<Rightarrow> bool \<Rightarrow> string \<Rightarrow> mgr \<Rightarrow> mgr" where
  "thread_call lb a backoff reconnect body m =
     (case call_rpc lb ''RegisterStation'' body (t_client (m_threads m ! a)) of
        (r, cl) \<Rightarrow> upd_thread a (\<lambda>t. t\<lparr>t_client := cl, t_phase := RegisterAnswered backoff reconnect r\<rparr>) m)"

definition thread_registered :: "nat \<Rightarrow> int \<Rightarrow> bool \<Rightarrow> (rpc_error + json) \<Rightarrow> mgr \<Rightarrow> mgr" where
  "thread_registered a backoff reconnect r m =
     (case registration_done a reconnect r m of (outcome, m1) \<Rightarrow>
        go a (case outcome of GivenUp \<Rightarrow> Finished | Registered \<Rightarrow> Refreshing reconnect
                            | TryAgain \<Rightarrow> Registering (next_backoff backoff) reconnect) m1)"

text \<open>After registering: \<^verbatim>\<open>RefreshStatus\<close>, and the backoff the loop goes on with.\<close>

definition thread_refresh :: "nat \<Rightarrow> bool \<Rightarrow> mgr \<Rightarrow> mgr" where
  "thread_refresh a reconnect m =
     go a Subscribing
       (upd_thread a (\<lambda>t. t\<lparr>t_backoff := (if reconnect then next_backoff (t_backoff t) else k_min_backoff)\<rparr>)
         (refresh (s_id (station_at m a)) m))"

definition thread_subscribe :: "nat \<Rightarrow> mgr \<Rightarrow> mgr" where
  "thread_subscribe a m = go a (if quitting a m then Finished else Opening (s_slug (station_at m a))) m"

definition thread_open :: "nat \<Rightarrow> nat \<Rightarrow> string \<Rightarrow> stream \<Rightarrow> mgr \<Rightarrow> mgr" where
  "thread_open lb a slug st m =
     (case stream_open lb slug st of (r, st') \<Rightarrow> go a (SubscribeAnswered r) (set_stream a st' m))"

definition thread_subscribed :: "nat \<Rightarrow> rpc_error option \<Rightarrow> mgr \<Rightarrow> mgr" where
  "thread_subscribed a r m =
     (case r of
        None \<Rightarrow> go a Reading (upd_thread a (\<lambda>t. t\<lparr>t_backoff := k_min_backoff\<rparr>) m)
      | Some e \<Rightarrow>
          if s_stopping (station_at m a) then go a Finished m
          else if permanent e then go a Finished (push_error (s_id (station_at m a)) e m)
          else go a Subscribing (upd_thread a (\<lambda>t. t\<lparr>t_backoff := next_backoff (t_backoff t)\<rparr>) m))"

text \<open>Leaving the inner loop: the stream is closed, and the station registers again unless it stops.\<close>

definition thread_dropped :: "nat \<Rightarrow> stream \<Rightarrow> mgr \<Rightarrow> mgr" where
  "thread_dropped a st m =
     (let m1 = set_stream a (st\<lparr>st_conn := conn_close (st_conn st)\<rparr>) m in
      if quitting a m then go a Finished m1
      else go a (Registering k_min_backoff True) (upd_station a (\<lambda>s. s\<lparr>s_registered := False\<rparr>) m1))"

definition k_stream_read_timeout :: int where "k_stream_read_timeout = 1000"

definition thread_read :: "nat \<Rightarrow> nat \<Rightarrow> stream \<Rightarrow> mgr \<Rightarrow> mgr" where
  "thread_read lb a st m =
     (case stream_read lb k_stream_read_timeout st of (r, st') \<Rightarrow> go a (ReadDone r) (set_stream a st' m))"

definition thread_read_done :: "int \<Rightarrow> nat \<Rightarrow> stream \<Rightarrow> event_read \<Rightarrow> mgr \<Rightarrow> mgr" where
  "thread_read_done now a st r m =
     (case r of
        Quiet \<Rightarrow> if quitting a m then thread_dropped a st m else go a Reading m
      | Lost e \<Rightarrow> thread_dropped a st m
      | Event v \<Rightarrow> go a Reading (dispatch_station_event now a v m))"

definition stream_step :: "nat \<Rightarrow> int \<Rightarrow> nat \<Rightarrow> mgr \<Rightarrow> mgr" where
  "stream_step lb now a m =
     (case (t_phase (m_threads m ! a), s_stream (station_at m a)) of
        (Registering b rc, _) \<Rightarrow> thread_register a b rc m
      | (RegisterCalling b rc body, _) \<Rightarrow> thread_call lb a b rc body m
      | (RegisterAnswered b rc r, _) \<Rightarrow> thread_registered a b rc r m
      | (Refreshing rc, _) \<Rightarrow> thread_refresh a rc m
      | (Subscribing, _) \<Rightarrow> thread_subscribe a m
      | (Opening slug, Some st) \<Rightarrow> thread_open lb a slug st m
      | (SubscribeAnswered r, _) \<Rightarrow> thread_subscribed a r m
      | (Reading, Some st) \<Rightarrow> thread_read lb a st m
      | (ReadDone r, Some st) \<Rightarrow> thread_read_done now a st r m
      | _ \<Rightarrow> m)"

section \<open>The poller\<close>

definition poller_step :: "mgr \<Rightarrow> mgr" where
  "poller_step m =
     (case m_poller m of
        PollerGone \<Rightarrow> m
      | PollerWaiting \<Rightarrow>
          if \<not> m_running m then m\<lparr>m_poller := PollerGone\<rparr>
          else if poll_interval_ms (m_config m) \<le> 0 then m
          else m\<lparr>m_poller := PollerAt (station_ids m)\<rparr>
      | PollerAt [] \<Rightarrow> m\<lparr>m_poller := PollerWaiting\<rparr>
      | PollerAt (i # is) \<Rightarrow> refresh i (m\<lparr>m_poller := PollerAt is\<rparr>))"

section \<open>The main thread's waits\<close>

text \<open>What a join lets through: the thread it waits for has ended.\<close>

definition workers_gone :: "mgr \<Rightarrow> bool" where
  "workers_gone m \<longleftrightarrow> (\<forall>w \<in> set (m_workers m). w_exited w) \<and> m_poller m = PollerGone"

definition thread_gone :: "mgr \<Rightarrow> nat \<Rightarrow> bool" where
  "thread_gone m a \<longleftrightarrow> t_phase (m_threads m ! a) = Finished"

definition main_resume :: "bool \<Rightarrow> (nat \<Rightarrow> sock) \<Rightarrow> mgr \<Rightarrow> mgr" where
  "main_resume tls net m =
     (case m_pc m of
        MainIdle \<Rightarrow> m
      | StoppingFor cfg \<Rightarrow> if workers_gone m then start_workers tls net cfg m else m
      | StoppingForShutdown \<Rightarrow> if workers_gone m then shutdown_finished m else m
      | JoiningStation a i \<Rightarrow> if thread_gone m a then destroy_joined a i m else m
      | JoiningAll as \<Rightarrow> if \<forall>a \<in> set as. thread_gone m a then shutdown_joined as m else m)"

end
