(* ===== verification/Manager_System.thy ===== *)
theory Manager_System
  imports Manager_Threads
begin

text \<open>
  The manager as a system: the main thread's calls, its waits, and the steps of the worker,
  stream and poller threads in any order. The invariant ties station ids, slugs, objects and
  threads together; it is proved from a frame: what a thread may not touch.
\<close>

section \<open>Steps\<close>

text \<open>A call of the main thread is made when it is not waiting; \<open>tls\<close> and \<open>lb\<close> are the build's.\<close>

inductive main_call :: "nat \<Rightarrow> bool \<Rightarrow> mgr \<Rightarrow> mgr \<Rightarrow> bool" for lb tls where
  call_configure: "main_call lb tls m (snd (configure lb tls net cfg m))"
| call_reload: "main_call lb tls m (snd (snd (reload lb tls net cfg m)))"
| call_create: "main_call lb tls m (snd (create_station tls net slug name description threshold logo m))"
| call_destroy: "main_call lb tls m (snd (destroy_station i m))"
| call_set_metadata: "main_call lb tls m (snd (set_metadata i key v m))"
| call_clear_metadata: "main_call lb tls m (snd (clear_metadata i m))"
| call_update: "main_call lb tls m (snd (update_station i name description threshold logo m))"
| call_queue_track: "main_call lb tls m (snd (queue_track i location title artist cover mode m))"
| call_command: "main_call lb tls m (snd (slug_command i rpc body flag_key result_key m))"
| call_refresh: "main_call lb tls m (refresh i m)"
| call_list: "main_call lb tls m (snd (request_station_list m))"
| call_tick: "main_call lb tls m (snd (tick m))"
| call_shutdown: "main_call lb tls m (shutdown m)"

inductive mgr_step :: "nat \<Rightarrow> bool \<Rightarrow> mgr \<Rightarrow> mgr \<Rightarrow> bool" for lb tls where
  step_main: "m_pc m = MainIdle \<Longrightarrow> main_call lb tls m m' \<Longrightarrow> mgr_step lb tls m m'"
| step_resume: "mgr_step lb tls m (main_resume tls net m)"
| step_worker: "i < length (m_workers m) \<Longrightarrow> mgr_step lb tls m (worker_step lb now i m)"
| step_stream: "a < length (m_threads m) \<Longrightarrow> mgr_step lb tls m (stream_step lb now a m)"
| step_poller: "mgr_step lb tls m (poller_step m)"

text \<open>
  Runs in which the two counters stay below the largest \<^verbatim>\<open>int\<close>: past it \<^verbatim>\<open>++\<close> is undefined.
\<close>

inductive reachable :: "nat \<Rightarrow> bool \<Rightarrow> mgr \<Rightarrow> bool" for lb tls where
  reach_new: "reachable lb tls new_manager"
| reach_step: "reachable lb tls m \<Longrightarrow> m_next_station m < int_max \<Longrightarrow> m_next_request m < int_max \<Longrightarrow>
    mgr_step lb tls m m' \<Longrightarrow> reachable lb tls m'"

section \<open>What threads leave alone\<close>

definition same_identity :: "station \<Rightarrow> station \<Rightarrow> bool" where
  "same_identity s s' \<longleftrightarrow> s_id s' = s_id s \<and> s_slug s' = s_slug s \<and> s_name s' = s_name s
     \<and> s_metadata s' = s_metadata s \<and> s_stopping s' = s_stopping s
     \<and> (s_stream s' = None \<longleftrightarrow> s_stream s = None)"

definition thread_frame :: "mgr \<Rightarrow> mgr \<Rightarrow> bool" where
  "thread_frame m m' \<longleftrightarrow> m_stations m' = m_stations m \<and> m_config m' = m_config m \<and> m_url m' = m_url m
     \<and> m_configured m' = m_configured m \<and> m_running m' = m_running m \<and> m_pc m' = m_pc m
     \<and> m_next_station m' = m_next_station m \<and> length (m_heap m') = length (m_heap m)
     \<and> length (m_threads m') = length (m_threads m)
     \<and> (\<forall>a < length (m_heap m). same_identity (m_heap m ! a) (m_heap m' ! a))"

lemma same_identity_refl [simp]: "same_identity s s"
  by (simp add: same_identity_def)

lemma thread_frame_refl [simp]: "thread_frame m m"
  by (simp add: thread_frame_def)

lemma thread_frame_trans [trans]: "thread_frame a b \<Longrightarrow> thread_frame b c \<Longrightarrow> thread_frame a c"
  by (auto simp: thread_frame_def same_identity_def)

lemma frame_upd_at:
  assumes "same_identity (m_heap m ! a) (f (m_heap m ! a))"
  shows "thread_frame m (upd_station a f m)"
proof -
  have "same_identity (m_heap m ! b) ((m_heap m)[a := f (m_heap m ! a)] ! b)" if "b < length (m_heap m)" for b
    using assms that by (cases "b = a") simp_all
  then show ?thesis by (simp add: thread_frame_def upd_station_def)
qed

lemma frame_upd_station [mgr_frame]:
  "(\<And>s. same_identity s (f s)) \<Longrightarrow> thread_frame m0 m \<Longrightarrow> thread_frame m0 (upd_station a f m)"
  by (rule thread_frame_trans [OF _ frame_upd_at])

lemma frame_queues [mgr_frame]:
  "thread_frame m0 m \<Longrightarrow> thread_frame m0 (enqueue j m)"
  "thread_frame m0 m \<Longrightarrow> thread_frame m0 (push_event e m)"
  "thread_frame m0 m \<Longrightarrow> thread_frame m0 (push_error i err m)"
  "thread_frame m0 m \<Longrightarrow> thread_frame m0 (upd_worker w f m)"
  "thread_frame m0 m \<Longrightarrow> thread_frame m0 (upd_thread a g m)"
  "thread_frame m0 m \<Longrightarrow> thread_frame m0 (m\<lparr>m_listed := l\<rparr>)"
  "thread_frame m0 m \<Longrightarrow> thread_frame m0 (m\<lparr>m_version := v\<rparr>)"
  "thread_frame m0 m \<Longrightarrow> thread_frame m0 (m\<lparr>m_jobs := js\<rparr>)"
  "thread_frame m0 m \<Longrightarrow> thread_frame m0 (m\<lparr>m_poller := p\<rparr>)"
  "thread_frame m0 m \<Longrightarrow> thread_frame m0 (m\<lparr>m_next_request := r\<rparr>)"
  "thread_frame m0 m \<Longrightarrow> thread_frame m0 (m\<lparr>m_dispatch := d\<rparr>)"
  by (simp_all add: thread_frame_def enqueue_def push_event_def push_error_def upd_worker_def upd_thread_def)

lemma frame_enqueue_request [mgr_frame]:
  "thread_frame m0 m \<Longrightarrow> thread_frame m0 (snd (enqueue_request j m))"
  by (simp add: enqueue_request_def next_request_def Let_def mgr_frame)

lemma frame_refresh [mgr_frame]: "thread_frame m0 m \<Longrightarrow> thread_frame m0 (refresh i m)"
  by (auto simp: refresh_def refresh_status_def mgr_frame split: option.splits)

lemma frame_upd_status [mgr_frame]: "thread_frame m0 m \<Longrightarrow> thread_frame m0 (upd_status a f m)"
  unfolding upd_status_def by (rule mgr_frame) (simp_all add: same_identity_def)

lemma frame_go [mgr_frame]: "thread_frame m0 m \<Longrightarrow> thread_frame m0 (go a p m)"
  by (simp add: go_def mgr_frame)

lemma frame_dispatch [mgr_frame]:
  "thread_frame m0 m \<Longrightarrow> thread_frame m0 (dispatch_station_event now a v m)"
  by (simp add: dispatch_station_event_def Let_def mgr_frame)

lemma frame_finish_job [mgr_frame]: "thread_frame m0 m \<Longrightarrow> thread_frame m0 (finish_job now j r m)"
  by (auto simp: finish_job_def job_failed_def handle_job_response_def apply_status_def Let_def same_identity_def
      intro!: mgr_frame split: sum.splits job_kind.splits option.splits)

lemma frame_registration:
  "thread_frame m0 m \<Longrightarrow> registration_done a rc r m = (x, m') \<Longrightarrow> thread_frame m0 m'"
  by (auto simp: registration_done_def Let_def same_identity_def intro!: mgr_frame split: sum.splits if_splits)

lemma frame_worker_take [mgr_frame]: "thread_frame m (worker_take i m)"
  by (simp add: worker_take_def take_job_def mgr_frame split: list.split)

lemma frame_worker_register [mgr_frame]: "thread_frame m (worker_register i j m)"
  by (simp add: worker_register_def mgr_frame split: option.split)

lemma frame_worker_call [mgr_frame]: "thread_frame m (worker_call lb i rpc body m)"
  by (simp add: worker_call_def mgr_frame split: prod.split)

lemma frame_worker_handle [mgr_frame]: "thread_frame m (worker_handle now i j r m)"
proof (cases "j_kind j = JobRegister")
  case True
  show ?thesis
  proof (cases "j_station j")
    case (Some a)
    obtain x m1 where r: "registration_done a False r m = (x, m1)" by fastforce
    with frame_registration [OF thread_frame_refl r] True Some show ?thesis
      by (cases x) (simp_all add: worker_handle_def Let_def mgr_frame)
  qed (use True in \<open>simp add: worker_handle_def Let_def mgr_frame\<close>)
qed (simp add: worker_handle_def Let_def mgr_frame)

lemma frame_worker_step [mgr_frame]: "thread_frame m (worker_step lb now i m)"
  by (simp add: worker_step_def Let_def mgr_frame split: option.split)

lemma frame_poller_step [mgr_frame]: "thread_frame m (poller_step m)"
  by (simp add: poller_step_def mgr_frame split: poller.split list.split)

lemma frame_set_stream:
  "s_stream (m_heap m ! a) \<noteq> None \<Longrightarrow> thread_frame m (set_stream a st m)"
  unfolding set_stream_def by (rule frame_upd_at) (simp add: same_identity_def)

lemma frame_thread_dropped:
  assumes "s_stream (m_heap m ! a) \<noteq> None"
  shows "thread_frame m (thread_dropped a st m)"
  using frame_set_stream [OF assms, of "st\<lparr>st_conn := conn_close (st_conn st)\<rparr>"]
  by (simp add: thread_dropped_def Let_def mgr_frame same_identity_def)

lemma frame_stream_step [mgr_frame]: "thread_frame m (stream_step lb now a m)"
proof (cases "t_phase (m_threads m ! a)")
  case (Registering b rc)
  then show ?thesis by (simp add: stream_step_def thread_register_def mgr_frame)
next
  case (RegisterCalling b rc body)
  then show ?thesis by (simp add: stream_step_def thread_call_def mgr_frame split: prod.split)
next
  case (RegisterAnswered b rc r)
  obtain x m1 where r: "registration_done a rc r m = (x, m1)" by fastforce
  with frame_registration [OF thread_frame_refl r] RegisterAnswered show ?thesis
    by (simp add: stream_step_def thread_registered_def mgr_frame)
next
  case (Refreshing rc)
  then show ?thesis by (simp add: stream_step_def thread_refresh_def mgr_frame)
next
  case (SubscribeAnswered r)
  then show ?thesis by (simp add: stream_step_def thread_subscribed_def mgr_frame split: option.split)
next
  case Finished
  then show ?thesis by (simp add: stream_step_def)
next
  case Subscribing
  then show ?thesis by (simp add: stream_step_def thread_subscribe_def mgr_frame)
next
  case (Opening slug)
  have "thread_frame m (go a p (set_stream a st' m))" if "s_stream (m_heap m ! a) \<noteq> None" for p st'
    using that by (intro mgr_frame frame_set_stream)
  with Opening show ?thesis
    by (simp add: stream_step_def station_at_def thread_open_def mgr_frame split: option.split prod.split)
next
  case Reading
  have "thread_frame m (go a p (set_stream a st' m))" if "s_stream (m_heap m ! a) \<noteq> None" for p st'
    using that by (intro mgr_frame frame_set_stream)
  with Reading show ?thesis
    by (simp add: stream_step_def station_at_def thread_read_def split: option.split prod.split)
next
  case (ReadDone r)
  have "thread_frame m (thread_dropped a st m)" if "s_stream (m_heap m ! a) \<noteq> None" for st
    using that by (rule frame_thread_dropped)
  with ReadDone show ?thesis
    by (simp add: stream_step_def station_at_def thread_read_done_def mgr_frame
        split: option.split event_read.split)
qed

end
