(* ===== verification/Manager_Invariant.thy ===== *)
theory Manager_Invariant
  imports Manager_System
begin

text \<open>
  The invariant of the manager: ids and slugs name one station each, every object is well
  formed, the configuration that stations were made under is a usable one, and the stream of a
  station outlives the thread that reads it. Each call and each thread step keeps it.
\<close>

section \<open>The invariant\<close>

definition station_ok :: "station \<Rightarrow> bool" where
  "station_ok s \<longleftrightarrow> s_slug s \<noteq> [] \<and> s_name s \<noteq> [] \<and> om_ok (s_metadata s)
     \<and> (\<forall>kv \<in> set (s_metadata s). snd kv \<noteq> [])"

definition objects_ok :: "mgr \<Rightarrow> bool" where
  "objects_ok m \<longleftrightarrow> length (m_threads m) = length (m_heap m) \<and> m_next_station m = int (length (m_heap m))
     \<and> (\<forall>a < length (m_heap m). station_ok (m_heap m ! a) \<and> s_id (m_heap m ! a) = int a)"

definition stations_ok :: "mgr \<Rightarrow> bool" where
  "stations_ok m \<longleftrightarrow> om_ok (m_stations m)
     \<and> (\<forall>i a. om_find (m_stations m) i = Some a \<longrightarrow>
           a < length (m_heap m) \<and> i = int a \<and> \<not> s_stopping (m_heap m ! a))
     \<and> (\<forall>i j a b. om_find (m_stations m) i = Some a \<longrightarrow> om_find (m_stations m) j = Some b \<longrightarrow>
           s_slug (m_heap m ! a) = s_slug (m_heap m ! b) \<longrightarrow> i = j)"

definition config_ok :: "nat \<Rightarrow> bool \<Rightarrow> mgr \<Rightarrow> bool" where
  "config_ok lb tls m \<longleftrightarrow>
     (m_configured m \<longrightarrow> parse_url lb (cfg_url (m_config m)) = Inr (m_url m) \<and> cfg_token (m_config m) \<noteq> []
        \<and> (secure (m_url m) \<longrightarrow> tls))
     \<and> (m_stations m \<noteq> [] \<longrightarrow> m_configured m \<and> m_running m)
     \<and> (m_configured m \<and> m_pc m = MainIdle \<longrightarrow> m_running m)
     \<and> (case m_pc m of
          MainIdle \<Rightarrow> True
        | JoiningStation a i \<Rightarrow> a < length (m_heap m) \<and> i = int a \<and> m_configured m \<and> m_running m
        | JoiningAll as \<Rightarrow> m_stations m = [] \<and> m_running m
        | StoppingFor cfg \<Rightarrow> m_stations m = [] \<and> cfg = m_config m \<and> m_configured m
        | StoppingForShutdown \<Rightarrow> m_stations m = [])"

definition streams_ok :: "mgr \<Rightarrow> bool" where
  "streams_ok m \<longleftrightarrow> (\<forall>a < length (m_heap m). s_stream (m_heap m ! a) = None \<longrightarrow> thread_gone m a)"

definition mgr_ok :: "nat \<Rightarrow> bool \<Rightarrow> mgr \<Rightarrow> bool" where
  "mgr_ok lb tls m \<longleftrightarrow> objects_ok m \<and> stations_ok m \<and> config_ok lb tls m \<and> streams_ok m"

lemma new_manager_ok: "mgr_ok lb tls new_manager"
  by (simp add: mgr_ok_def objects_ok_def stations_ok_def config_ok_def streams_ok_def new_manager_def
      om_empty_def om_ok_def)

section \<open>Thread steps\<close>

lemma frame_objects: "thread_frame m m' \<Longrightarrow> objects_ok m \<Longrightarrow> objects_ok m'"
  by (auto simp: objects_ok_def thread_frame_def same_identity_def station_ok_def)

lemma frame_stations: "thread_frame m m' \<Longrightarrow> stations_ok m \<Longrightarrow> stations_ok m'"
  unfolding stations_ok_def thread_frame_def same_identity_def by metis

lemma frame_config: "thread_frame m m' \<Longrightarrow> config_ok lb tls m \<Longrightarrow> config_ok lb tls m'"
  by (simp add: config_ok_def thread_frame_def split: main_pc.splits)

lemma frame_streams:
  "thread_frame m m' \<Longrightarrow> (\<And>a. thread_gone m a \<Longrightarrow> thread_gone m' a) \<Longrightarrow> streams_ok m \<Longrightarrow> streams_ok m'"
  by (auto simp: streams_ok_def thread_frame_def same_identity_def)

lemma frame_ok:
  "thread_frame m m' \<Longrightarrow> (\<And>a. thread_gone m a \<Longrightarrow> thread_gone m' a) \<Longrightarrow> mgr_ok lb tls m \<Longrightarrow> mgr_ok lb tls m'"
  unfolding mgr_ok_def by (blast intro: frame_objects frame_stations frame_config frame_streams)

text \<open>A thread that has ended stays so.\<close>

lemma threads_kept [simp]:
  "m_threads (enqueue j m) = m_threads m" "m_threads (push_event e m) = m_threads m"
  "m_threads (push_error i err m) = m_threads m" "m_threads (upd_worker w f m) = m_threads m"
  "m_threads (upd_station a g m) = m_threads m" "m_threads (upd_status a h m) = m_threads m"
  "m_threads (set_stream a st m) = m_threads m" "m_threads (snd (enqueue_request j m)) = m_threads m"
  by (simp_all add: enqueue_def push_event_def push_error_def upd_worker_def upd_station_def upd_status_def
      set_stream_def enqueue_request_def next_request_def Let_def)

lemma threads_refresh [simp]: "m_threads (refresh i m) = m_threads m"
  by (simp add: refresh_def refresh_status_def split: option.split)

lemma threads_registration:
  "registration_done a rc r m = (x, m') \<Longrightarrow> m_threads m' = m_threads m"
  by (auto simp: registration_done_def Let_def split: sum.splits if_splits)

lemma threads_finish_job [simp]: "m_threads (finish_job now j r m) = m_threads m"
  by (simp add: finish_job_def job_failed_def handle_job_response_def apply_status_def Let_def
      split: sum.split job_kind.split option.split)

lemma threads_dispatch [simp]: "m_threads (dispatch_station_event now a v m) = m_threads m"
  by (simp add: dispatch_station_event_def Let_def)

lemma threads_worker_step [simp]: "m_threads (worker_step lb now i m) = m_threads m"
proof -
  have "m_threads (worker_call lb i rpc body m) = m_threads m" for rpc body
    by (simp add: worker_call_def split: prod.split)
  moreover have "m_threads (worker_register i j m) = m_threads m" for j
    by (simp add: worker_register_def split: option.split)
  moreover have "m_threads (worker_handle now i j r m) = m_threads m" for j r
    by (auto simp: worker_handle_def Let_def dest: threads_registration
        split: option.split prod.split registration.split)
  ultimately show ?thesis
    by (simp add: worker_step_def worker_take_def take_job_def Let_def split: option.split list.split)
qed

lemma threads_poller_step [simp]: "m_threads (poller_step m) = m_threads m"
  by (simp add: poller_step_def split: poller.split list.split)

lemma gone_upd_thread:
  "b \<noteq> a \<Longrightarrow> m_threads (upd_thread a f m) ! b = m_threads m ! b"
  by (simp add: upd_thread_def)

lemma other_thread_kept: "b \<noteq> a \<Longrightarrow> m_threads (stream_step lb now a m) ! b = m_threads m ! b"
proof -
  assume ne: "b \<noteq> a"
  note keep = gone_upd_thread [OF ne]
  have reg: "m_threads (thread_registered a bo rc r m) ! b = m_threads m ! b" for bo rc r
    by (auto simp: thread_registered_def go_def keep dest: threads_registration split: prod.split)
  have drop: "m_threads (thread_dropped a st m) ! b = m_threads m ! b" for st
    by (simp add: thread_dropped_def Let_def go_def keep)
  show ?thesis
    by (auto simp: stream_step_def reg drop thread_register_def thread_call_def thread_refresh_def thread_subscribe_def
        thread_open_def thread_subscribed_def thread_read_def thread_read_done_def go_def Let_def keep
        split: stream_phase.split option.split prod.split event_read.split)
qed

lemma gone_stream_step: "thread_gone m b \<Longrightarrow> thread_gone (stream_step lb now a m) b"
  by (cases "b = a") (simp add: stream_step_def thread_gone_def, simp add: thread_gone_def other_thread_kept)

lemma worker_step_ok: "mgr_ok lb tls m \<Longrightarrow> mgr_ok lb tls (worker_step lb now i m)"
  by (rule frame_ok [OF frame_worker_step]) (simp_all add: thread_gone_def)

lemma poller_step_ok: "mgr_ok lb tls m \<Longrightarrow> mgr_ok lb tls (poller_step m)"
  by (rule frame_ok [OF frame_poller_step]) (simp_all add: thread_gone_def)

lemma stream_step_ok: "mgr_ok lb tls m \<Longrightarrow> mgr_ok lb tls (stream_step lb now a m)"
  by (rule frame_ok [OF frame_stream_step gone_stream_step])

section \<open>Slugs and new stations\<close>

lemma slug_loop_found:
  "slug_loop h slug st \<noteq> k_invalid_station \<Longrightarrow>
     \<exists>a. (slug_loop h slug st, a) \<in> set st \<and> s_slug (h ! a) = slug"
  by (induction h slug st rule: slug_loop.induct) (auto split: if_splits)

lemma slug_loop_absent:
  "(\<And>i a. (i, a) \<in> set st \<Longrightarrow> s_slug (h ! a) \<noteq> slug) \<Longrightarrow> slug_loop h slug st = k_invalid_station"
  by (induction h slug st rule: slug_loop.induct) (simp, auto split: if_splits)

lemma slug_loop_none:
  "slug_loop h slug st = k_invalid_station \<Longrightarrow> (\<And>i a. (i, a) \<in> set st \<Longrightarrow> i \<noteq> k_invalid_station) \<Longrightarrow>
   (i, a) \<in> set st \<Longrightarrow> s_slug (h ! a) \<noteq> slug"
proof (induction h slug st rule: slug_loop.induct)
  case (2 h slug j b m)
  have "j \<noteq> k_invalid_station" using "2.prems"(2) [of j b] by simp
  with "2.prems"(1) have b: "s_slug (h ! b) \<noteq> slug" "slug_loop h slug m = k_invalid_station"
    by (auto split: if_splits)
  show ?case
  proof (cases "(i, a) = (j, b)")
    case False
    with "2.prems"(3) have "(i, a) \<in> set m" by auto
    with "2.IH" [OF b(1,2)] "2.prems"(2) show ?thesis by (meson list.set_intros(2))
  qed (use b in simp)
qed simp

lemma stations_ok_entry:
  "stations_ok m \<Longrightarrow> (i, a) \<in> set (m_stations m) \<longleftrightarrow> om_find (m_stations m) i = Some a"
  by (rule om_find_mem) (simp add: stations_ok_def)

lemma station_entry_id:
  "stations_ok m \<Longrightarrow> (i, a) \<in> set (m_stations m) \<Longrightarrow> i = int a \<and> a < length (m_heap m) \<and> i \<noteq> k_invalid_station"
proof -
  assume m: "stations_ok m" "(i, a) \<in> set (m_stations m)"
  then have "om_find (m_stations m) i = Some a" using stations_ok_entry by blast
  with m(1) have "i = int a" "a < length (m_heap m)" by (simp_all add: stations_ok_def)
  then show ?thesis by (simp add: k_invalid_station_def)
qed

lemma no_station_with_slug:
  assumes "stations_ok m"
  shows "find_station_by_slug m slug = k_invalid_station \<longleftrightarrow>
    (\<forall>i a. find_station m i = Some a \<longrightarrow> s_slug (station_at m a) \<noteq> slug)"
proof
  assume n: "find_station_by_slug m slug = k_invalid_station"
  show "\<forall>i a. find_station m i = Some a \<longrightarrow> s_slug (station_at m a) \<noteq> slug"
  proof (intro allI impI)
    fix i a assume "find_station m i = Some a"
    then have "(i, a) \<in> set (m_stations m)" using stations_ok_entry [OF assms] by (simp add: find_station_def)
    with slug_loop_none [of "m_heap m" slug "m_stations m" i a] n station_entry_id [OF assms]
    show "s_slug (station_at m a) \<noteq> slug" by (simp add: find_station_by_slug_def station_at_def)
  qed
next
  assume "\<forall>i a. find_station m i = Some a \<longrightarrow> s_slug (station_at m a) \<noteq> slug"
  then have "s_slug (m_heap m ! a) \<noteq> slug" if "(i, a) \<in> set (m_stations m)" for i a
    using stations_ok_entry [OF assms, of i a] that by (simp add: find_station_def station_at_def)
  then show "find_station_by_slug m slug = k_invalid_station"
    unfolding find_station_by_slug_def by (rule slug_loop_absent)
qed

lemma station_with_slug:
  assumes "stations_ok m" "find_station m i = Some a"
  shows "find_station_by_slug m (s_slug (station_at m a)) = i"
proof -
  let ?f = "find_station_by_slug m (s_slug (station_at m a))"
  have "?f \<noteq> k_invalid_station" using no_station_with_slug [OF assms(1)] assms(2) by blast
  then obtain b where b: "(?f, b) \<in> set (m_stations m)" "s_slug (m_heap m ! b) = s_slug (station_at m a)"
    using slug_loop_found [of "m_heap m"] unfolding find_station_by_slug_def by blast
  have "om_find (m_stations m) ?f = Some b" using b(1) stations_ok_entry [OF assms(1)] by simp
  with assms b(2) show ?thesis unfolding stations_ok_def find_station_def station_at_def by metis
qed

lemma station_upd_ok:
  assumes "mgr_ok lb tls m"
    and "\<And>s. station_ok s \<Longrightarrow> station_ok (f s)" "\<And>s. s_id (f s) = s_id s \<and> s_slug (f s) = s_slug s
       \<and> s_stopping (f s) = s_stopping s \<and> s_stream (f s) = s_stream s"
  shows "mgr_ok lb tls (upd_station a f m)"
proof -
  have nth: "station_ok ((m_heap m)[a := f (m_heap m ! a)] ! b) \<and> s_id ((m_heap m)[a := f (m_heap m ! a)] ! b) = s_id (m_heap m ! b)
     \<and> s_slug ((m_heap m)[a := f (m_heap m ! a)] ! b) = s_slug (m_heap m ! b)
     \<and> s_stopping ((m_heap m)[a := f (m_heap m ! a)] ! b) = s_stopping (m_heap m ! b)
     \<and> s_stream ((m_heap m)[a := f (m_heap m ! a)] ! b) = s_stream (m_heap m ! b)"
    if "b < length (m_heap m)" for b
    using that assms by (cases "b = a") (simp_all add: mgr_ok_def objects_ok_def)
  show ?thesis
    using assms(1) nth
    unfolding mgr_ok_def objects_ok_def stations_ok_def config_ok_def streams_ok_def thread_gone_def upd_station_def
    by (simp split: main_pc.splits)
qed

section \<open>Calls of the main thread\<close>

lemma queue_calls_ok:
  "mgr_ok lb tls m \<Longrightarrow> mgr_ok lb tls (snd (queue_track i location title artist cover mode m))"
  "mgr_ok lb tls m \<Longrightarrow> mgr_ok lb tls (snd (slug_command i rpc body flag_key result_key m))"
  "mgr_ok lb tls m \<Longrightarrow> mgr_ok lb tls (refresh i m)"
  "mgr_ok lb tls m \<Longrightarrow> mgr_ok lb tls (snd (request_station_list m))"
  "mgr_ok lb tls m \<Longrightarrow> mgr_ok lb tls (snd (tick m))"
  by (rule frame_ok, auto simp: queue_track_def slug_command_def enqueue_command_def request_station_list_def
      tick_def thread_gone_def mgr_frame split: option.splits)+

lemma set_metadata_ok: "mgr_ok lb tls m \<Longrightarrow> mgr_ok lb tls (snd (set_metadata i key v m))"
proof -
  assume m: "mgr_ok lb tls m"
  let ?f = "\<lambda>s. s\<lparr>s_metadata := (if v = [] then om_erase key (s_metadata s) else om_put key v (s_metadata s))\<rparr>"
  have "station_ok (?f s)" if "station_ok s" for s
    using that om_put_entries [of key v "s_metadata s"] om_erase_entries [of key "s_metadata s"]
    by (auto simp: station_ok_def om_put_ok om_erase_ok)
  from station_upd_ok [OF m this] m show ?thesis by (simp add: set_metadata_def split: option.split)
qed

lemma clear_metadata_ok: "mgr_ok lb tls m \<Longrightarrow> mgr_ok lb tls (snd (clear_metadata i m))"
  using station_upd_ok [of lb tls m "\<lambda>s. s\<lparr>s_metadata := om_empty\<rparr>"]
  by (auto simp: clear_metadata_def station_ok_def om_empty_def om_ok_def split: option.split)

lemma enqueue_ok: "mgr_ok lb tls m \<Longrightarrow> mgr_ok lb tls (enqueue j m)"
  by (rule frame_ok) (auto simp: mgr_frame thread_gone_def)

lemma update_station_ok:
  "mgr_ok lb tls m \<Longrightarrow> mgr_ok lb tls (snd (update_station i name description threshold logo m))"
  using station_upd_ok [of lb tls m "\<lambda>s. s\<lparr>s_name := (if name = [] then s_slug s else name),
                s_description := description, s_low_queue_threshold := threshold, s_logo_url := logo\<rparr>"]
  by (auto simp: update_station_def station_ok_def intro: enqueue_ok split: option.split)

lemma create_station_ok:
  assumes "mgr_ok lb tls m" "m_pc m = MainIdle" "m_next_station m < int_max"
  shows "mgr_ok lb tls (snd (create_station tls net slug name description threshold logo m))"
proof (cases "slug = [] \<or> \<not> m_configured m \<or> find_station_by_slug m slug \<noteq> k_invalid_station")
  case False
  let ?m' = "snd (create_station tls net slug name description threshold logo m)"
  have ok: "objects_ok m" "stations_ok m" "config_ok lb tls m" "streams_ok m"
    using assms(1) by (simp_all add: mgr_ok_def)
  let ?n = "length (m_heap m)"
  have n: "m_next_station m = int ?n" "length (m_threads m) = ?n" using ok(1) by (simp_all add: objects_ok_def)
  have st: "om_ok (m_stations m)" using ok(2) by (simp add: stations_ok_def)
  have eqs: "m_stations ?m' = om_put (int ?n) ?n (m_stations m)" "m_next_station ?m' = int ?n + 1"
    "length (m_heap ?m') = ?n + 1" "length (m_threads ?m') = ?n + 1"
    "\<And>a. a < ?n \<Longrightarrow> m_heap ?m' ! a = m_heap m ! a" "\<And>a. a < ?n \<Longrightarrow> m_threads ?m' ! a = m_threads m ! a"
    using False n assms(3) by (simp_all add: create_station_def Let_def nth_append to_int32_id)
  have new: "s_id (m_heap ?m' ! ?n) = int ?n" "s_slug (m_heap ?m' ! ?n) = slug" "station_ok (m_heap ?m' ! ?n)"
    "\<not> s_stopping (m_heap ?m' ! ?n)" "s_stream (m_heap ?m' ! ?n) \<noteq> None"
    using False n by (simp_all add: create_station_def Let_def station_ok_def new_station_def om_empty_def om_ok_def)
  have find: "om_find (m_stations ?m') i = (if i = int ?n then Some ?n else om_find (m_stations m) i)" for i
    using om_find_put [OF st, of "int ?n" ?n i] eqs(1) by simp
  have fresh: "s_slug (m_heap m ! a) \<noteq> slug" if "om_find (m_stations m) i = Some a" for i a
    using no_station_with_slug [OF ok(2), of slug] False that by (simp add: find_station_def station_at_def)
  have old: "a < ?n \<and> i = int a \<and> \<not> s_stopping (m_heap m ! a)" if "om_find (m_stations m) i = Some a" for i a
    using ok(2) that by (simp add: stations_ok_def)
  have uniq: "i = j" if "om_find (m_stations m) i = Some a" "om_find (m_stations m) j = Some b"
      "s_slug (m_heap m ! a) = s_slug (m_heap m ! b)" for i j a b
    using ok(2) that unfolding stations_ok_def by blast
  have o: "objects_ok ?m'"
    unfolding objects_ok_def eqs(2-4)
    using ok(1) new eqs(5) by (auto simp: objects_ok_def less_Suc_eq)
  have s: "stations_ok ?m'"
    unfolding stations_ok_def eqs(3)
  proof (intro conjI allI impI)
    show "om_ok (m_stations ?m')" using st eqs(1) by (simp add: om_put_ok)
    fix i a assume f: "om_find (m_stations ?m') i = Some a"
    show "a < ?n + 1" "i = int a" "\<not> s_stopping (m_heap ?m' ! a)"
      using f find [of i] old [of i a] new eqs(5) [of a] by (auto split: if_splits)
    fix j b assume g: "om_find (m_stations ?m') j = Some b" "s_slug (m_heap ?m' ! a) = s_slug (m_heap ?m' ! b)"
    have slugs: "s_slug (m_heap ?m' ! d) \<noteq> slug \<and> s_slug (m_heap ?m' ! d) = s_slug (m_heap m ! d)"
      if "om_find (m_stations m) k = Some d" for k d
      using old [OF that] fresh [OF that] eqs(5) [of d] by simp
    show "i = j"
    proof (cases "i = int ?n \<or> j = int ?n")
      case True
      then show ?thesis
        using f g find [of i] find [of j] slugs [of i a] slugs [of j b] new(2) by (metis option.inject)
    next
      case False
      then have "om_find (m_stations m) i = Some a" "om_find (m_stations m) j = Some b"
        using f g(1) find by simp_all
      with uniq [OF this] slugs [OF this(1)] slugs [OF this(2)] g(2) show ?thesis by simp
    qed
  qed
  have c: "config_ok lb tls ?m'"
    using False ok(3) assms(2) by (simp add: create_station_def Let_def config_ok_def)
  have "streams_ok ?m'"
    unfolding streams_ok_def eqs(3) thread_gone_def
    using ok(4) new eqs(5,6) by (auto simp: streams_ok_def thread_gone_def less_Suc_eq)
  with o s c show ?thesis by (simp add: mgr_ok_def)
qed (use assms(1) in \<open>auto simp: create_station_def\<close>)

lemma upd_fields_kept:
  "(\<And>s. g (f s) = g s) \<Longrightarrow> g (m_heap (upd_station a f m) ! b) = g (m_heap m ! b)"
  by (cases "a < length (m_heap m)"; cases "b = a") (simp_all add: upd_station_def not_less list_update_beyond)

lemma upd_other [simp]: "b \<noteq> a \<Longrightarrow> m_heap (upd_station a f m) ! b = m_heap m ! b"
  by (simp add: upd_station_def)

lemma upd_rest [simp]:
  "m_stations (upd_station a f m) = m_stations m" "length (m_heap (upd_station a f m)) = length (m_heap m)"
  by (simp_all add: upd_station_def)

text \<open>Updates of objects that only mark them as stopping or take their stream away.\<close>

lemma objects_mark:
  assumes "\<And>s. s_id (f s) = s_id s \<and> s_slug (f s) = s_slug s \<and> s_name (f s) = s_name s
      \<and> s_metadata (f s) = s_metadata s" "objects_ok m"
  shows "objects_ok (upd_station a f m)"
proof -
  have "station_ok ((m_heap m)[a := f (m_heap m ! a)] ! b) \<and> s_id ((m_heap m)[a := f (m_heap m ! a)] ! b) = int b"
    if "b < length (m_heap m)" for b
    using that assms by (cases "b = a") (simp_all add: objects_ok_def station_ok_def)
  then show ?thesis using assms(2) by (simp add: objects_ok_def upd_station_def)
qed

lemma streams_mark:
  assumes "\<And>s. s_stream (f s) = None \<Longrightarrow> s_stream s = None \<or> thread_gone m a" "streams_ok m"
  shows "streams_ok (upd_station a f m)"
proof -
  have "s_stream ((m_heap m)[a := f (m_heap m ! a)] ! b) = None \<longrightarrow> thread_gone m b"
    if "b < length (m_heap m)" for b
    using that assms by (cases "b = a") (auto simp: streams_ok_def)
  then show ?thesis by (simp add: streams_ok_def upd_station_def thread_gone_def)
qed

lemma destroy_station_ok:
  assumes "mgr_ok lb tls m" "m_pc m = MainIdle"
  shows "mgr_ok lb tls (snd (destroy_station i m))"
proof (cases "find_station m i")
  case (Some a)
  let ?f = halt_station and ?m1 = "m\<lparr>m_stations := om_erase i (m_stations m)\<rparr>"
  let ?m2 = "upd_station a ?f ?m1"
  have ok: "objects_ok m" "stations_ok m" "config_ok lb tls m" "streams_ok m"
    using assms(1) by (simp_all add: mgr_ok_def)
  have a: "a < length (m_heap m)" "i = int a" using ok(2) Some by (simp_all add: stations_ok_def find_station_def)
  have st: "om_ok (m_stations m)" using ok(2) by (simp add: stations_ok_def)
  have "objects_ok ?m2" using ok(1) by (intro objects_mark) (simp_all add: objects_ok_def)
  moreover have "streams_ok ?m2" using ok(4) by (intro streams_mark) (simp_all add: streams_ok_def thread_gone_def)
  moreover have "stations_ok ?m2"
  proof -
    have f: "om_find (om_erase i (m_stations m)) j = (if j = i then None else om_find (m_stations m) j)" for j
      using om_find_erase [OF st, of i j] by simp
    have ne: "b \<noteq> a" if "om_find (m_stations m) j = Some b" "j \<noteq> i" for j b
      using ok(2) that a(2) by (auto simp: stations_ok_def)
    have same: "s_slug (m_heap ?m2 ! b) = s_slug (m_heap m ! b)" for b
      using upd_fields_kept [of s_slug ?f a ?m1 b] by simp
    have old: "b < length (m_heap m) \<and> j = int b \<and> \<not> s_stopping (m_heap m ! b)"
      if "om_find (m_stations m) j = Some b" for j b using ok(2) that by (simp add: stations_ok_def)
    have kept: "om_find (m_stations m) j = Some b \<and> b \<noteq> a" if "om_find (m_stations ?m2) j = Some b" for j b
      using that f [of j] ne [of j b] by (auto split: if_splits)
    show ?thesis
      unfolding stations_ok_def
    proof (intro conjI allI impI)
      show "om_ok (m_stations ?m2)" using st by (simp add: om_erase_ok)
      fix j b assume g: "om_find (m_stations ?m2) j = Some b"
      with kept old show "b < length (m_heap ?m2)" "j = int b" "\<not> s_stopping (m_heap ?m2 ! b)" by auto
      fix k c assume "om_find (m_stations ?m2) k = Some c" "s_slug (m_heap ?m2 ! b) = s_slug (m_heap ?m2 ! c)"
      with g kept same show "j = k" using ok(2) unfolding stations_ok_def by metis
    qed
  qed
  moreover have "config_ok lb tls (?m2\<lparr>m_pc := JoiningStation a i\<rparr>)"
    using ok(3) a assms(2) Some
    by (auto simp: config_ok_def upd_station_def find_station_def)
  ultimately show ?thesis
    using Some by (simp add: destroy_station_def mgr_ok_def objects_ok_def stations_ok_def streams_ok_def thread_gone_def)
qed (use assms in \<open>simp add: destroy_station_def\<close>)

lemma no_stations_ok: "m_stations m = [] \<Longrightarrow> stations_ok m"
  by (simp add: stations_ok_def om_ok_def)

lemma objects_fold:
  assumes "\<And>s. s_id (f s) = s_id s \<and> s_slug (f s) = s_slug s \<and> s_name (f s) = s_name s
      \<and> s_metadata (f s) = s_metadata s"
  shows "objects_ok m \<Longrightarrow> objects_ok (fold (\<lambda>a. upd_station a f) as m)"
  by (induction as arbitrary: m) (simp_all add: objects_mark [OF assms])

lemma streams_fold:
  assumes "\<And>s. s_stream (f s) = None \<longleftrightarrow> s_stream s = None"
  shows "streams_ok m \<Longrightarrow> streams_ok (fold (\<lambda>a. upd_station a f) as m)"
proof (induction as arbitrary: m)
  case (Cons a as)
  have "streams_ok (upd_station a f m)" using Cons.prems assms by (intro streams_mark) simp_all
  then show ?case using Cons.IH by simp
qed simp

lemma fold_upd_fields [simp]:
  "m_stations (fold (\<lambda>a. upd_station a f) as m) = m_stations m" "m_config (fold (\<lambda>a. upd_station a f) as m) = m_config m"
  "m_url (fold (\<lambda>a. upd_station a f) as m) = m_url m" "m_configured (fold (\<lambda>a. upd_station a f) as m) = m_configured m"
  "m_running (fold (\<lambda>a. upd_station a f) as m) = m_running m" "m_threads (fold (\<lambda>a. upd_station a f) as m) = m_threads m"
  by (induction as arbitrary: m) (simp_all add: upd_station_def)

lemma objects_fields [simp]:
  "objects_ok (m\<lparr>m_stations := s\<rparr>) = objects_ok m" "objects_ok (m\<lparr>m_pc := p\<rparr>) = objects_ok m"
  "objects_ok (m\<lparr>m_config := c\<rparr>) = objects_ok m" "objects_ok (m\<lparr>m_url := u\<rparr>) = objects_ok m"
  "objects_ok (m\<lparr>m_configured := b\<rparr>) = objects_ok m" "objects_ok (m\<lparr>m_running := r\<rparr>) = objects_ok m"
  "objects_ok (m\<lparr>m_jobs := js\<rparr>) = objects_ok m" "objects_ok (m\<lparr>m_workers := ws\<rparr>) = objects_ok m"
  "objects_ok (m\<lparr>m_poller := q\<rparr>) = objects_ok m"
  by (simp_all add: objects_ok_def)

lemma streams_fields [simp]:
  "streams_ok (m\<lparr>m_stations := s\<rparr>) = streams_ok m" "streams_ok (m\<lparr>m_pc := p\<rparr>) = streams_ok m"
  "streams_ok (m\<lparr>m_config := c\<rparr>) = streams_ok m" "streams_ok (m\<lparr>m_url := u\<rparr>) = streams_ok m"
  "streams_ok (m\<lparr>m_configured := b\<rparr>) = streams_ok m" "streams_ok (m\<lparr>m_running := r\<rparr>) = streams_ok m"
  "streams_ok (m\<lparr>m_jobs := js\<rparr>) = streams_ok m" "streams_ok (m\<lparr>m_workers := ws\<rparr>) = streams_ok m"
  "streams_ok (m\<lparr>m_poller := q\<rparr>) = streams_ok m"
  by (simp_all add: streams_ok_def thread_gone_def)

lemma streams_taken:
  "(\<And>a. a \<in> set as \<Longrightarrow> thread_gone m a) \<Longrightarrow> streams_ok m \<Longrightarrow>
   streams_ok (fold (\<lambda>a. upd_station a (\<lambda>s. s\<lparr>s_stream := None\<rparr>)) as m)"
proof (induction as arbitrary: m)
  case (Cons a as)
  let ?u = "upd_station a (\<lambda>s. s\<lparr>s_stream := None\<rparr>) m"
  have "streams_ok ?u" using Cons.prems by (intro streams_mark) simp_all
  moreover have "thread_gone ?u b" if "b \<in> set as" for b using Cons.prems(1) [of b] that by (simp add: thread_gone_def)
  ultimately show ?case using Cons.IH [of ?u] by simp
qed simp

lemma shutdown_ok: "mgr_ok lb tls m \<Longrightarrow> mgr_ok lb tls (shutdown m)"
proof (cases "m_running m")
  case True
  assume m: "mgr_ok lb tls m"
  let ?m1 = "fold (\<lambda>a. upd_station a halt_station) (map snd (m_stations m)) m"
  have "objects_ok ?m1" using m by (intro objects_fold) (simp_all add: mgr_ok_def)
  moreover have "streams_ok ?m1" using m by (intro streams_fold) (simp_all add: mgr_ok_def)
  moreover have "config_ok lb tls (?m1\<lparr>m_stations := om_empty, m_pc := JoiningAll (map snd (m_stations m))\<rparr>)"
    using m True by (simp add: mgr_ok_def config_ok_def om_empty_def)
  ultimately show ?thesis
    using True by (simp add: shutdown_def mgr_ok_def Let_def no_stations_ok om_empty_def)
qed (simp add: shutdown_def)

lemma configure_ok:
  assumes "mgr_ok lb tls m" "m_pc m = MainIdle"
  shows "mgr_ok lb tls (snd (configure lb tls net cfg m))"
proof (cases "check_config lb tls cfg m")
  case (Inr u)
  then have c: "m_stations m = []" "cfg_token cfg \<noteq> []" "parse_url lb (cfg_url cfg) = Inr u" "secure u \<longrightarrow> tls"
    by (auto simp: check_config_def split: if_splits sum.splits)
  show ?thesis
    using assms c Inr
    by (simp add: configure_def Let_def mgr_ok_def stop_workers_def start_workers_def enqueue_def no_stations_ok config_ok_def)
qed (use assms in \<open>simp add: configure_def\<close>)

lemma reload_state:
  "snd (snd (reload lb tls net cfg m)) =
     (let m1 = m\<lparr>m_config := (m_config m)\<lparr>poll_interval_ms := poll_interval_ms cfg\<rparr>\<rparr> in
      if \<not> m_running m then snd (configure lb tls net cfg m)
      else if connection_differs (m_config m) cfg \<and> m_stations m = [] then snd (configure lb tls net cfg m1) else m1)"
  by (simp add: reload_def Let_def split: prod.split option.split)

lemma reload_ok:
  assumes "mgr_ok lb tls m" "m_pc m = MainIdle"
  shows "mgr_ok lb tls (snd (snd (reload lb tls net cfg m)))"
proof -
  let ?m1 = "m\<lparr>m_config := (m_config m)\<lparr>poll_interval_ms := poll_interval_ms cfg\<rparr>\<rparr>"
  have m1: "mgr_ok lb tls ?m1" "m_pc ?m1 = MainIdle"
    using assms by (simp_all add: mgr_ok_def config_ok_def stations_ok_def)
  show ?thesis
    using configure_ok [OF assms, of net cfg] m1(1) configure_ok [OF m1, of net cfg]
    by (simp add: reload_state Let_def)
qed

lemma main_resume_ok:
  assumes "mgr_ok lb tls m"
  shows "mgr_ok lb tls (main_resume tls net m)"
proof (cases "m_pc m")
  case (StoppingFor cfg)
  with assms show ?thesis
    by (auto simp: main_resume_def start_workers_def Let_def enqueue_def mgr_ok_def no_stations_ok config_ok_def)
next
  case StoppingForShutdown
  with assms show ?thesis
    by (auto simp: main_resume_def shutdown_finished_def mgr_ok_def no_stations_ok config_ok_def)
next
  case (JoiningStation a i)
  show ?thesis
  proof (cases "thread_gone m a")
    case True
    let ?m1 = "upd_station a (\<lambda>s. s\<lparr>s_stream := None\<rparr>) m"
    have a: "m_configured m" "m_running m" using assms JoiningStation by (simp_all add: mgr_ok_def config_ok_def)
    have "objects_ok ?m1" using assms by (intro objects_mark) (simp_all add: mgr_ok_def)
    moreover have "streams_ok ?m1" using assms True by (intro streams_mark) (simp_all add: mgr_ok_def)
    moreover have "stations_ok ?m1"
    proof -
      have "s_slug (m_heap ?m1 ! b) = s_slug (m_heap m ! b) \<and> s_stopping (m_heap ?m1 ! b) = s_stopping (m_heap m ! b)" for b
        by (simp add: upd_fields_kept)
      moreover have "m_stations ?m1 = m_stations m" "length (m_heap ?m1) = length (m_heap m)"
        by (simp_all add: upd_station_def)
      ultimately show ?thesis using assms by (simp add: mgr_ok_def stations_ok_def)
    qed
    moreover have "config_ok lb tls (?m1\<lparr>m_pc := MainIdle\<rparr>)"
      using assms a by (simp add: mgr_ok_def config_ok_def upd_station_def)
    ultimately have "mgr_ok lb tls (?m1\<lparr>m_pc := MainIdle\<rparr>)" by (simp add: mgr_ok_def stations_ok_def)
    note ok = enqueue_ok [OF this, of "unregister_job i (s_slug (station_at ?m1 a))"]
    have "destroy_joined a i m = enqueue (unregister_job i (s_slug (station_at ?m1 a))) (?m1\<lparr>m_pc := MainIdle\<rparr>)"
      by (simp add: destroy_joined_def Let_def enqueue_def)
    with ok show ?thesis using True JoiningStation by (simp add: main_resume_def)
  qed (use assms JoiningStation in \<open>simp add: main_resume_def\<close>)
next
  case (JoiningAll as)
  show ?thesis
  proof (cases "\<forall>a \<in> set as. thread_gone m a")
    case True
    let ?m1 = "fold (\<lambda>a. upd_station a (\<lambda>s. s\<lparr>s_stream := None\<rparr>)) as m"
    have "objects_ok ?m1" using assms by (intro objects_fold) (simp_all add: mgr_ok_def)
    moreover have "streams_ok ?m1" using True assms by (intro streams_taken) (simp_all add: mgr_ok_def)
    moreover have "m_stations m = []" using assms JoiningAll by (simp add: mgr_ok_def config_ok_def)
    ultimately show ?thesis
      using assms True JoiningAll
      by (simp add: main_resume_def shutdown_joined_def stop_workers_def mgr_ok_def no_stations_ok config_ok_def)
  qed (use assms JoiningAll in \<open>auto simp: main_resume_def\<close>)
qed (use assms in \<open>simp add: main_resume_def\<close>)

section \<open>Every reachable state\<close>

lemma main_call_ok:
  assumes "main_call lb tls m m'" "mgr_ok lb tls m" "m_pc m = MainIdle" "m_next_station m < int_max"
  shows "mgr_ok lb tls m'"
  using assms
  by cases (blast intro: configure_ok reload_ok create_station_ok destroy_station_ok set_metadata_ok clear_metadata_ok
      update_station_ok queue_calls_ok shutdown_ok)+

lemma mgr_step_ok:
  assumes "mgr_step lb tls m m'" "mgr_ok lb tls m" "m_next_station m < int_max"
  shows "mgr_ok lb tls m'"
  using assms
  by cases (blast intro: main_call_ok main_resume_ok worker_step_ok stream_step_ok poller_step_ok)+

lemma reachable_ok: "reachable lb tls m \<Longrightarrow> mgr_ok lb tls m"
  by (induction rule: reachable.induct) (simp_all add: new_manager_ok mgr_step_ok)

text \<open>
  C4
  In every reachable state a station id is that of its object, two stations never share a
  slug, a lookup by slug finds exactly the station with that slug, every station has a slug, a
  name and metadata without empty values, and no station in the table is being torn down.
\<close>

theorem stations_are_consistent:
  assumes "reachable lb tls m"
  shows "(find_station m i = Some a \<longrightarrow>
       a < length (m_heap m) \<and> s_id (station_at m a) = i \<and> 0 \<le> i \<and> i < m_next_station m
       \<and> s_slug (station_at m a) \<noteq> [] \<and> s_name (station_at m a) \<noteq> []
       \<and> \<not> s_stopping (station_at m a)
       \<and> (\<forall>k. om_find (s_metadata (station_at m a)) k \<noteq> Some [])
       \<and> find_station_by_slug m (s_slug (station_at m a)) = i)
     \<and> (find_station_by_slug m slug = k_invalid_station \<longleftrightarrow>
         (\<forall>i a. find_station m i = Some a \<longrightarrow> s_slug (station_at m a) \<noteq> slug))"
proof -
  have ok: "objects_ok m" "stations_ok m" using reachable_ok [OF assms] by (simp_all add: mgr_ok_def)
  show ?thesis
  proof (intro conjI impI)
    assume f: "find_station m i = Some a"
    then have a: "a < length (m_heap m)" "i = int a" "\<not> s_stopping (m_heap m ! a)"
      using ok(2) by (simp_all add: stations_ok_def find_station_def)
    then have s: "station_ok (m_heap m ! a)" "s_id (m_heap m ! a) = int a" "m_next_station m = int (length (m_heap m))"
      using ok(1) by (simp_all add: objects_ok_def)
    show "a < length (m_heap m)" "s_id (station_at m a) = i" "0 \<le> i" "i < m_next_station m"
      "s_slug (station_at m a) \<noteq> []" "s_name (station_at m a) \<noteq> []" "\<not> s_stopping (station_at m a)"
      using a s by (simp_all add: station_at_def station_ok_def)
    show "\<forall>k. om_find (s_metadata (station_at m a)) k \<noteq> Some []"
      using s(1) om_find_mem [of "s_metadata (m_heap m ! a)"] by (fastforce simp: station_ok_def station_at_def)
    show "find_station_by_slug m (s_slug (station_at m a)) = i" using ok(2) f by (rule station_with_slug)
  next
    show "find_station_by_slug m slug = k_invalid_station \<longleftrightarrow>
        (\<forall>i a. find_station m i = Some a \<longrightarrow> s_slug (station_at m a) \<noteq> slug)"
      using ok(2) by (rule no_station_with_slug)
  qed
qed

text \<open>
  C22
  The event stream of a station is taken away only after the thread that reads it has ended.
\<close>

theorem stream_outlives_its_thread:
  assumes "reachable lb tls m" "a < length (m_heap m)" "t_phase (m_threads m ! a) \<noteq> Finished"
  shows "s_stream (station_at m a) \<noteq> None"
  using reachable_ok [OF assms(1)] assms(2,3)
  by (auto simp: mgr_ok_def streams_ok_def thread_gone_def station_at_def)

text \<open>
  C23
  While a station exists the plugin is configured and its workers run, its URL is the parse of
  the configured one and usable by this build, and there is a token.
\<close>

theorem stations_have_a_server:
  assumes "reachable lb tls m" "m_stations m \<noteq> []"
  shows "m_configured m \<and> m_running m \<and> parse_url lb (cfg_url (m_config m)) = Inr (m_url m)
    \<and> cfg_token (m_config m) \<noteq> [] \<and> (secure (m_url m) \<longrightarrow> tls)"
  using reachable_ok [OF assms(1)] assms(2) by (auto simp: mgr_ok_def config_ok_def)

section \<open>A server with one station\<close>

definition example_net :: "nat \<Rightarrow> sock" where
  "example_net = (\<lambda>_. quiet_sock)"

definition example_config :: manager_config where
  "example_config = default_config\<lparr>cfg_token := ''t''\<rparr>"

definition example_server :: mgr where
  "example_server = snd (configure 64 False example_net example_config new_manager)"

definition example_mgr :: mgr where
  "example_mgr = snd (create_station False example_net ''main'' [] [] 3 [] example_server)"

lemma example_url: "parse_url 64 ''http://127.0.0.1:9090''
    = Inr \<lparr>scheme = ''http'', host = ''127.0.0.1'', port = 9090, base_path = []\<rparr>"
  by (simp add: parse_url_def strip_url_tail_def split_scheme_def starts_with_def split_path_def split_port_def
      rfind_char_def Let_def is_digit_def byte_def atoi_def strtol_def strto_value_def c_str_def
      is_cspace_def drop_sign_def digit_val_def clamp_def to_int32_def unbracket_def)

lemma example_check: "check_config 64 False example_config new_manager
    = Inr \<lparr>scheme = ''http'', host = ''127.0.0.1'', port = 9090, base_path = []\<rparr>"
  by (simp add: check_config_def example_config_def default_config_def new_manager_def om_empty_def
      example_url secure_def)

lemma example_server_start: "example_server = start_workers False example_net example_config
    (new_manager\<lparr>m_config := example_config,
       m_url := \<lparr>scheme = ''http'', host = ''127.0.0.1'', port = 9090, base_path = []\<rparr>, m_configured := True\<rparr>)"
proof -
  have "\<not> m_running new_manager" by (simp add: new_manager_def)
  then show ?thesis by (simp add: example_server_def configure_def example_check Let_def)
qed

lemma example_server_fields:
  "m_pc example_server = MainIdle" "m_stations example_server = []" "m_configured example_server" "m_running example_server"
  "m_heap example_server = []" "m_threads example_server = []" "m_next_station example_server = 0"
  "m_next_request example_server = 0" "m_config example_server = example_config"
  "m_jobs example_server = [no_job\<lparr>j_kind := JobServerInfo, j_rpc := ''GetServerInfo'', j_body := ''{}''\<rparr>]"
  "m_dispatch example_server = []" "length (m_workers example_server) = 2"
  unfolding example_server_start
  by (simp_all add: new_manager_def start_workers_def enqueue_def Let_def om_empty_def example_config_def
      default_config_def)

lemma example_mgr_fields:
  "m_pc example_mgr = MainIdle" "m_stations example_mgr = [(0, 0)]" "m_next_station example_mgr = 1"
  "m_next_request example_mgr = 0" "length (m_heap example_mgr) = 1" "length (m_threads example_mgr) = 1"
  "m_configured example_mgr" "m_running example_mgr" "m_config example_mgr = example_config"
  "s_slug (m_heap example_mgr ! 0) = ''main''" "s_stopping (m_heap example_mgr ! 0) = False"
  "t_phase (m_threads example_mgr ! 0) = Registering k_min_backoff False"
  by (simp_all add: example_mgr_def create_station_def find_station_by_slug_def example_server_fields Let_def
      new_station_def to_int32_def)

lemma example_server_reachable: "reachable 64 False example_server"
proof -
  have "mgr_step 64 False new_manager example_server"
    unfolding example_server_def by (intro step_main call_configure) (simp add: new_manager_def)
  then show ?thesis by (rule reach_step [OF reach_new, rotated -1]) (simp_all add: new_manager_def)
qed

lemma example_mgr_reachable: "reachable 64 False example_mgr"
proof -
  have "mgr_step 64 False example_server example_mgr"
    unfolding example_mgr_def by (intro step_main call_create) (simp add: example_server_fields)
  then show ?thesis
    by (rule reach_step [OF example_server_reachable, rotated -1]) (simp_all add: example_server_fields)
qed

lemma stations_are_consistent_witness:
  "s_id (station_at example_mgr 0) = 0 \<and> s_slug (station_at example_mgr 0) \<noteq> []
   \<and> s_name (station_at example_mgr 0) \<noteq> [] \<and> \<not> s_stopping (station_at example_mgr 0)
   \<and> find_station_by_slug example_mgr ''main'' = 0 \<and> find_station_by_slug example_mgr ''other'' = k_invalid_station"
proof -
  have f: "find_station example_mgr i = (if i = 0 then Some 0 else None)" for i
    by (simp add: find_station_def example_mgr_fields)
  have slug: "s_slug (station_at example_mgr 0) = ''main''" by (simp add: station_at_def example_mgr_fields)
  show ?thesis
    using stations_are_consistent [OF example_mgr_reachable, of 0 0 "''other''"] f [of 0] slug
    by (auto simp: f split: if_splits)
qed

lemma stream_outlives_its_thread_witness: "s_stream (station_at example_mgr 0) \<noteq> None"
  using stream_outlives_its_thread [OF example_mgr_reachable, of 0] by (simp add: example_mgr_fields)

lemma stations_have_a_server_witness:
  "m_configured example_mgr \<and> m_running example_mgr
    \<and> parse_url 64 (cfg_url (m_config example_mgr)) = Inr (m_url example_mgr)
    \<and> cfg_token (m_config example_mgr) \<noteq> [] \<and> \<not> secure (m_url example_mgr)"
  using stations_have_a_server [OF example_mgr_reachable] by (simp add: example_mgr_fields)

end
