(* ===== verification/Manager_Calls.thy ===== *)
theory Manager_Calls
  imports Manager_Invariant
begin

text \<open>
  What the calls of the main thread promise: creating and destroying stations, commands and
  the requests they send, reconfiguring, the status getters and the delivery of callbacks.
\<close>

section \<open>Queues\<close>

text \<open>The contract of a queue that is emptied at once.\<close>

locale drained_queue =
  fixes waiting :: "'m \<Rightarrow> 'e list"
    and put :: "'e \<Rightarrow> 'm \<Rightarrow> 'm"
    and drain :: "'m \<Rightarrow> 'e list \<times> 'm"
  assumes put_waiting: "waiting (put e m) = waiting m @ [e]"
    and drain_all: "fst (drain m) = waiting m"
    and drain_none: "waiting (snd (drain m)) = []"
begin

lemma put_all: "waiting (fold put es m) = waiting m @ es"
  by (induction es arbitrary: m) (simp_all add: put_waiting)

lemma drained_in_order: "fst (drain (fold put es m)) = waiting m @ es"
  by (simp add: drain_all put_all)

lemma drained_once: "fst (drain (snd (drain m))) = []"
  by (simp add: drain_all drain_none)

end

text \<open>The contract of a queue that is served one by one.\<close>

locale served_queue =
  fixes waiting :: "'m \<Rightarrow> 'j list"
    and put :: "'j \<Rightarrow> 'm \<Rightarrow> 'm"
    and serve :: "'m \<Rightarrow> ('j \<times> 'm) option"
  assumes put_waiting: "waiting (put j m) = waiting m @ [j]"
    and serve_none: "serve m = None \<longleftrightarrow> waiting m = []"
    and serve_first: "serve m = Some (j, m') \<Longrightarrow> waiting m = j # waiting m'"
begin

lemma first_put_first_served:
  "waiting m = [] \<Longrightarrow> \<exists>m1 m2. serve (put k (put j m)) = Some (j, m1) \<and> serve m1 = Some (k, m2) \<and> waiting m2 = []"
proof -
  assume "waiting m = []"
  then have w: "waiting (put k (put j m)) = [j, k]" by (simp add: put_waiting)
  then obtain j1 m1 where s: "serve (put k (put j m)) = Some (j1, m1)"
    using serve_none [of "put k (put j m)"] by fastforce
  with w have j: "j1 = j" "waiting m1 = [k]" using serve_first by fastforce+
  then obtain k1 m2 where s2: "serve m1 = Some (k1, m2)" using serve_none [of m1] by fastforce
  with j show ?thesis using s serve_first [OF s2] by auto
qed

end

lemma tick_loop_all: "tick_loop out es = out @ es"
  by (induction out es rule: tick_loop.induct) simp_all

interpretation callbacks: drained_queue m_dispatch push_event tick
  by unfold_locales (simp_all add: push_event_def tick_def tick_loop_all)

interpretation jobs: served_queue m_jobs enqueue take_job
  by unfold_locales (auto simp: enqueue_def take_job_def split: list.splits)

text \<open>
  A tick hands out every callback pushed since the last one, each once and in the order in which
  the threads pushed them, after those already waiting.
\<close>

lemma tick_delivers_in_order:
  "fst (tick (fold push_event es m)) = m_dispatch m @ es
   \<and> fst (tick (snd (tick m))) = []"
  by (simp add: callbacks.drained_in_order callbacks.drained_once)

section \<open>Creating and destroying\<close>

text \<open>
  C13
  \<^verbatim>\<open>CreateStation\<close> fails exactly for an empty slug, an unconfigured plugin or a slug in use, and
  then changes nothing. Otherwise it answers an id no station of this run has had, under which
  the new station is found with the fields given, a name that falls back to the slug, and no
  registration yet; every other station is as before.
\<close>

theorem create_station_result:
  assumes "reachable lb tls m" "m_next_station m < int_max"
    and "create_station tls net slug name description threshold logo m = (r, m')"
  shows "case r of
      Inl e \<Rightarrow> m' = m \<and> (slug = [] \<or> \<not> m_configured m \<or> find_station_by_slug m slug \<noteq> k_invalid_station)
    | Inr i \<Rightarrow>
        slug \<noteq> [] \<and> m_configured m \<and> find_station_by_slug m slug = k_invalid_station
        \<and> (\<forall>a < length (m_heap m). s_id (m_heap m ! a) \<noteq> i)
        \<and> (\<exists>a. find_station m' i = Some a \<and> s_slug (station_at m' a) = slug
             \<and> s_name (station_at m' a) = (if name = [] then slug else name)
             \<and> s_description (station_at m' a) = description \<and> s_logo_url (station_at m' a) = logo
             \<and> s_low_queue_threshold (station_at m' a) = threshold \<and> \<not> s_registered (station_at m' a))
        \<and> (\<forall>j. j \<noteq> i \<longrightarrow> find_station m' j = find_station m j)
        \<and> (\<forall>a < length (m_heap m). station_at m' a = station_at m a)"
proof (cases "slug = [] \<or> \<not> m_configured m \<or> find_station_by_slug m slug \<noteq> k_invalid_station")
  case True
  then show ?thesis using assms(3) by (auto simp: create_station_def Let_def split: if_splits)
next
  case False
  have ok: "objects_ok m" "om_ok (m_stations m)"
    using reachable_ok [OF assms(1)] by (simp_all add: mgr_ok_def stations_ok_def)
  then have n: "m_next_station m = int (length (m_heap m))" "\<forall>a < length (m_heap m). s_id (m_heap m ! a) = int a"
    by (simp_all add: objects_ok_def)
  from False assms(3) have r: "r = Inr (m_next_station m)"
    and st: "m_stations m' = om_put (m_next_station m) (length (m_heap m)) (m_stations m)"
    and h: "m_heap m' ! length (m_heap m) = m_heap m' ! length (m_heap m)"
      "\<forall>a < length (m_heap m). m_heap m' ! a = m_heap m ! a"
      "s_slug (m_heap m' ! length (m_heap m)) = slug"
      "s_name (m_heap m' ! length (m_heap m)) = (if name = [] then slug else name)"
      "s_description (m_heap m' ! length (m_heap m)) = description"
      "s_logo_url (m_heap m' ! length (m_heap m)) = logo"
      "s_low_queue_threshold (m_heap m' ! length (m_heap m)) = threshold"
      "\<not> s_registered (m_heap m' ! length (m_heap m))"
    by (auto simp: create_station_def Let_def nth_append new_station_def)
  have find: "find_station m' j = (if j = m_next_station m then Some (length (m_heap m)) else find_station m j)" for j
    using om_find_put [OF ok(2), of "m_next_station m" "length (m_heap m)" j] st by (simp add: find_station_def)
  have "\<forall>a < length (m_heap m). s_id (m_heap m ! a) \<noteq> m_next_station m" using n by simp
  with r False find h show ?thesis by (simp add: station_at_def)
qed

lemma create_station_result_witness:
  "find_station_by_slug example_server ''main'' = k_invalid_station
   \<and> (\<exists>a. find_station example_mgr 0 = Some a \<and> s_slug (station_at example_mgr a) = ''main''
        \<and> s_name (station_at example_mgr a) = ''main'' \<and> \<not> s_registered (station_at example_mgr a))"
proof -
  have "m_next_station example_server < int_max" by (simp add: example_server_fields)
  moreover have "create_station False example_net ''main'' [] [] 3 [] example_server = (Inr 0, example_mgr)"
    by (simp add: example_mgr_def create_station_def find_station_by_slug_def example_server_fields Let_def)
  ultimately show ?thesis using create_station_result [OF example_server_reachable] by fastforce
qed

text \<open>
  C27
  \<^verbatim>\<open>DestroyStation\<close> of an unknown id changes nothing. Of a station it takes the id and the slug
  out of use, marks the object so that its thread ends, and leaves all other stations; when the
  thread has ended, one \<^verbatim>\<open>UnregisterStation\<close> for the slug goes out behind every job queued before.
\<close>

theorem destroy_station_result:
  assumes "reachable lb tls m"
  shows "case find_station m i of
      None \<Rightarrow> destroy_station i m = (False, m)
    | Some a \<Rightarrow> \<exists>m'. destroy_station i m = (True, m') \<and> find_station m' i = None
        \<and> find_station_by_slug m' (s_slug (station_at m a)) = k_invalid_station
        \<and> (\<forall>j. j \<noteq> i \<longrightarrow> find_station m' j = find_station m j)
        \<and> s_stopping (station_at m' a) \<and> m_pc m' = JoiningStation a i \<and> m_jobs m' = m_jobs m
        \<and> (\<forall>m2. m_jobs (destroy_joined a i m2) = m_jobs m2 @ [unregister_job i (s_slug (station_at m2 a))]
             \<and> m_pc (destroy_joined a i m2) = MainIdle)"
proof (cases "find_station m i")
  case (Some a)
  let ?m' = "snd (destroy_station i m)"
  have ok: "objects_ok m" "stations_ok m" using reachable_ok [OF assms] by (simp_all add: mgr_ok_def)
  have st: "om_ok (m_stations m)" "a < length (m_heap m)" "i = int a"
    using ok(2) Some by (simp_all add: stations_ok_def find_station_def)
  have eq: "destroy_station i m = (True, ?m')" using Some by (simp add: destroy_station_def)
  have stat: "m_stations ?m' = om_erase i (m_stations m)" using Some by (simp add: destroy_station_def)
  have find: "find_station ?m' j = (if j = i then None else find_station m j)" for j
    using om_find_erase [OF st(1), of i j] stat by (simp add: find_station_def)
  have slug: "s_slug (station_at ?m' b) = s_slug (station_at m b)" for b
    using Some upd_fields_kept [of s_slug halt_station a "m\<lparr>m_stations := om_erase i (m_stations m)\<rparr>" b]
    by (simp add: destroy_station_def station_at_def)
  have absent: "find_station_by_slug ?m' (s_slug (station_at m a)) = k_invalid_station"
    unfolding find_station_by_slug_def
  proof (rule slug_loop_absent)
    fix j b assume "(j, b) \<in> set (m_stations ?m')"
    then have "find_station ?m' j = Some b"
      using om_find_mem [of "m_stations ?m'" j b] st(1) stat by (simp add: find_station_def om_erase_ok)
    then have "j \<noteq> i" "om_find (m_stations m) j = Some b" using find [of j] by (auto simp: find_station_def split: if_splits)
    with Some ok(2) have "s_slug (m_heap m ! b) \<noteq> s_slug (m_heap m ! a)"
      unfolding stations_ok_def find_station_def by metis
    then show "s_slug (m_heap ?m' ! b) \<noteq> s_slug (station_at m a)"
      using slug [of b] by (simp add: station_at_def)
  qed
  have "s_stopping (station_at ?m' a)" "m_pc ?m' = JoiningStation a i" "m_jobs ?m' = m_jobs m"
    using Some st(2) by (simp_all add: destroy_station_def station_at_def upd_station_def)
  moreover have "m_jobs (destroy_joined a i m2) = m_jobs m2 @ [unregister_job i (s_slug (station_at m2 a))]
      \<and> m_pc (destroy_joined a i m2) = MainIdle" for m2
    using upd_fields_kept [of s_slug "\<lambda>s. s\<lparr>s_stream := None\<rparr>" a m2 a]
    by (simp add: destroy_joined_def Let_def enqueue_def station_at_def) (simp add: upd_station_def)
  ultimately show ?thesis using eq find absent Some by auto
qed (simp add: destroy_station_def)

lemma destroy_station_result_witness:
  "fst (destroy_station 0 example_mgr) \<and> find_station (snd (destroy_station 0 example_mgr)) 0 = None
   \<and> find_station_by_slug (snd (destroy_station 0 example_mgr)) ''main'' = k_invalid_station"
proof -
  have "find_station example_mgr 0 = Some 0" by (simp add: find_station_def example_mgr_fields)
  then show ?thesis
    using destroy_station_result [OF example_mgr_reachable, of 0]
    by (auto simp: station_at_def example_mgr_fields)
qed

end
