(* ===== verification/Manager_Requests.thy ===== *)
theory Manager_Requests
  imports Manager_Calls "HOL-Library.Multiset"
begin

text \<open>
  What becomes of a request: every id handed out is queued once, taken by one worker, and
  answered by at most one callback. The ledger of a state is the multiset of the ids still open,
  in the queue or with a worker; a run's history is the list of all callbacks pushed.
\<close>

section \<open>The ledger\<close>

fun jobs_of :: "worker list \<Rightarrow> job list" where
  "jobs_of [] = []"
| "jobs_of (w # ws) = (case w_job w of None \<Rightarrow> jobs_of ws | Some j \<Rightarrow> j # jobs_of ws)"

definition open_jobs :: "mgr \<Rightarrow> job list" where
  "open_jobs m = m_jobs m @ jobs_of (m_workers m)"

definition ledger :: "job list \<Rightarrow> int multiset" where
  "ledger js = filter_mset (\<lambda>r. r \<noteq> 0) (image_mset j_request_id (mset js))"

definition answers :: "pawn_event list \<Rightarrow> int multiset" where
  "answers es = filter_mset (\<lambda>r. r \<noteq> 0) (image_mset ev_request (mset es))"

text \<open>The callbacks a step pushes; a tick, which empties the queue, pushes none.\<close>

definition pushed :: "mgr \<Rightarrow> mgr \<Rightarrow> pawn_event list" where
  "pushed m m' = drop (length (m_dispatch m)) (m_dispatch m')"

inductive history :: "nat \<Rightarrow> bool \<Rightarrow> mgr \<Rightarrow> pawn_event list \<Rightarrow> bool" for lb tls where
  history_new: "history lb tls new_manager []"
| history_step: "history lb tls m es \<Longrightarrow> m_next_station m < int_max \<Longrightarrow> m_next_request m < int_max \<Longrightarrow>
    mgr_step lb tls m m' \<Longrightarrow> history lb tls m' (es @ pushed m m')"

text \<open>Requests carry an id, the jobs the plugin makes for itself none.\<close>

definition job_ok :: "mgr \<Rightarrow> job \<Rightarrow> bool" where
  "job_ok m j \<longleftrightarrow> (j_request_id j = 0 \<longleftrightarrow> j_kind j \<in> {JobRegister, JobUnregister, JobServerInfo})
     \<and> 0 \<le> j_request_id j \<and> j_request_id j \<le> m_next_request m"

definition requests_ok :: "mgr \<Rightarrow> bool" where
  "requests_ok m \<longleftrightarrow> (\<forall>j \<in> set (open_jobs m). job_ok m j) \<and> 0 \<le> m_next_request m
     \<and> (\<forall>w \<in> set (m_workers m). w_exited w \<longrightarrow> w_job w = None)
     \<and> (m_pc m = MainIdle \<and> \<not> m_running m \<longrightarrow> m_workers m = [])"

lemma ledger_simps [simp]:
  "ledger [] = {#}" "ledger (js @ ks) = ledger js + ledger ks"
  "ledger (j # js) = (if j_request_id j = 0 then ledger js else add_mset (j_request_id j) (ledger js))"
  by (simp_all add: ledger_def)

lemma answers_simps [simp]:
  "answers [] = {#}" "answers (es @ fs) = answers es + answers fs"
  "answers (e # es) = (if ev_request e = 0 then answers es else add_mset (ev_request e) (answers es))"
  by (simp_all add: answers_def)

lemma count_answers: "r \<noteq> 0 \<Longrightarrow> count (answers es) r = length (filter (\<lambda>e. ev_request e = r) es)"
  by (induction es) simp_all

lemma jobs_of_append [simp]: "jobs_of (vs @ ws) = jobs_of vs @ jobs_of ws"
  by (induction vs) (auto split: option.split)

lemma jobs_of_wake [simp]: "jobs_of (map wake_worker ws) = jobs_of ws"
  by (induction ws) (simp_all split: option.split)

lemma in_jobs_of: "j \<in> set (jobs_of ws) \<longleftrightarrow> (\<exists>w \<in> set ws. w_job w = Some j)"
  by (induction ws) (auto split: option.splits)

lemma jobs_of_update:
  assumes "i < length ws"
  shows "mset (jobs_of (ws[i := w])) + mset (jobs_of [ws ! i]) = mset (jobs_of ws) + mset (jobs_of [w])"
proof -
  have "mset (jobs_of ws) = mset (jobs_of (take i ws @ ws ! i # drop (Suc i) ws))"
    using id_take_nth_drop [OF assms] by simp
  then show ?thesis using assms by (simp add: upd_conv_take_nth_drop split: option.split)
qed

lemma ledger_mset: "mset js = mset ks \<Longrightarrow> ledger js = ledger ks"
  by (simp add: ledger_def)

section \<open>What one step does to it\<close>

text \<open>
  A step opens a request under the next id, closes one with at most the answer that belongs to
  it, drops queued ones when the pool is stopped, or leaves the ledger alone.
\<close>

definition turn :: "mgr \<Rightarrow> int multiset \<Rightarrow> int multiset \<Rightarrow> int multiset \<Rightarrow> mgr \<Rightarrow> bool" where
  "turn m opened closed answered m' \<longleftrightarrow>
     ledger (open_jobs m') + closed = ledger (open_jobs m) + opened
     \<and> m_next_request m' = m_next_request m + int (size opened)
     \<and> opened \<subseteq># {#m_next_request m + 1#} \<and> answered \<subseteq># closed
     \<and> answers (pushed m m') = answered"

text \<open>
  A command that was open stays so, gets its one result, or was still queued when the pool was
  stopped.
\<close>

definition is_command :: "job \<Rightarrow> bool" where
  "is_command j \<longleftrightarrow> j_kind j = JobCommand \<or> j_kind j = JobQueueTrack"

definition result_of :: "job \<Rightarrow> pawn_event list \<Rightarrow> bool" where
  "result_of j es \<longleftrightarrow> (\<exists>e. filter (\<lambda>e. ev_request e = j_request_id j) es = [e] \<and> ev_station e = j_station_id j
     \<and> (ev_kind e = EvCommandResult \<and> ev_text e = j_command j
        \<or> ev_kind e = EvTrackQueued \<and> j_kind j = JobQueueTrack \<and> ev_flag e))"

definition settled :: "mgr \<Rightarrow> mgr \<Rightarrow> bool" where
  "settled m m' \<longleftrightarrow> (\<forall>j \<in> set (open_jobs m). is_command j \<longrightarrow>
     j \<in> set (open_jobs m') \<or> j \<in> set (m_jobs m) \<and> m_running m \<and> \<not> m_running m' \<or> result_of j (pushed m m'))"

definition orderly :: "mgr \<Rightarrow> mgr \<Rightarrow> bool" where
  "orderly m m' \<longleftrightarrow> requests_ok m' \<and> settled m m' \<and> (\<exists>opened closed answered. turn m opened closed answered m')"

lemma pushed_simps [simp]: "m_dispatch m' = m_dispatch m @ es \<Longrightarrow> pushed m m' = es"
  by (simp add: pushed_def)

lemma pushed_none: "m_dispatch m' = m_dispatch m \<Longrightarrow> pushed m m' = []" "m_dispatch m' = [] \<Longrightarrow> pushed m m' = []"
  by (simp_all add: pushed_def)

text \<open>The ways a step changes queue and workers.\<close>

lemma orderly_same:
  assumes "requests_ok m" "m_jobs m' = m_jobs m" "m_workers m' = m_workers m" "m_next_request m' = m_next_request m"
    "answers (pushed m m') = {#}" "m_pc m' = MainIdle \<and> \<not> m_running m' \<longrightarrow> m_workers m = []"
  shows "orderly m m'"
proof -
  have "turn m {#} {#} {#} m'" using assms by (simp add: turn_def open_jobs_def)
  then show ?thesis
    using assms unfolding orderly_def by (auto simp: settled_def requests_ok_def job_ok_def open_jobs_def)
qed

lemma orderly_own_job:
  assumes "requests_ok m" "m_jobs m' = m_jobs m @ [j]" "m_workers m' = m_workers m"
    "m_next_request m' = m_next_request m" "answers (pushed m m') = {#}"
    "j_request_id j = 0" "j_kind j \<in> {JobRegister, JobUnregister, JobServerInfo}"
    "m_pc m' = MainIdle \<and> \<not> m_running m' \<longrightarrow> m_workers m = []"
  shows "orderly m m'"
proof -
  have "turn m {#} {#} {#} m'" using assms by (simp add: turn_def open_jobs_def)
  then show ?thesis
    using assms unfolding orderly_def by (auto simp: settled_def requests_ok_def job_ok_def open_jobs_def)
qed

lemma orderly_request:
  assumes "requests_ok m" "m_jobs m' = m_jobs m @ [j]" "m_workers m' = m_workers m"
    "m_next_request m' = m_next_request m + 1" "j_request_id j = m_next_request m + 1"
    "answers (pushed m m') = {#}" "j_kind j \<notin> {JobRegister, JobUnregister, JobServerInfo}"
    "m_pc m' = m_pc m" "m_running m' = m_running m"
  shows "orderly m m'"
proof -
  have n: "0 \<le> m_next_request m" using assms(1) by (simp add: requests_ok_def)
  then have "turn m {#m_next_request m + 1#} {#} {#} m'" using assms by (simp add: turn_def open_jobs_def)
  moreover have "job_ok m' k" if "k \<in> set (open_jobs m')" for k
  proof (cases "k = j")
    case False
    then have "job_ok m k" using that assms(1-3) by (auto simp: requests_ok_def open_jobs_def)
    then show ?thesis using assms(4) by (simp add: job_ok_def)
  qed (use assms n in \<open>auto simp: job_ok_def\<close>)
  ultimately show ?thesis
    using assms n unfolding orderly_def by (auto simp: requests_ok_def settled_def open_jobs_def)
qed

lemma orderly_drop:
  assumes "requests_ok m" "set (open_jobs m') \<subseteq> set (open_jobs m)" "ledger (open_jobs m') \<subseteq># ledger (open_jobs m)"
    "m_next_request m' = m_next_request m" "answers (pushed m m') = {#}"
    "\<forall>w \<in> set (m_workers m'). w_exited w \<longrightarrow> w_job w = None"
    "m_pc m' = MainIdle \<and> \<not> m_running m' \<longrightarrow> m_workers m' = []"
    "\<And>j. j \<in> set (open_jobs m) \<Longrightarrow> j \<in> set (open_jobs m') \<or> j \<in> set (m_jobs m) \<and> m_running m \<and> \<not> m_running m'"
  shows "orderly m m'"
proof -
  have "settled m m'" using assms(8) unfolding settled_def by blast
  moreover have "turn m {#} (ledger (open_jobs m) - ledger (open_jobs m')) {#} m'" using assms by (simp add: turn_def)
  ultimately show ?thesis using assms(1-7) unfolding orderly_def by (auto simp: requests_ok_def job_ok_def)
qed

lemma orderly_worker:
  assumes "requests_ok m" "i < length (m_workers m)" "m_workers m' = (m_workers m)[i := w]" "m_jobs m' = m_jobs m"
    "w_job (m_workers m ! i) = Some j" "m_next_request m' = m_next_request m"
    "w_job w = Some j \<and> \<not> w_exited w \<and> answers (pushed m m') = {#}
       \<or> w_job w = None \<and> answers (pushed m m') \<subseteq># ledger [j] \<and> (is_command j \<longrightarrow> result_of j (pushed m m'))"
    "m_pc m' = m_pc m" "m_running m' = m_running m"
  shows "orderly m m'"
proof -
  have mset: "mset (jobs_of (m_workers m')) + {#j#} = mset (jobs_of (m_workers m)) + mset (jobs_of [w])"
    using jobs_of_update [OF assms(2), of w] assms(3,5) by simp
  have sub: "set (m_workers m') \<subseteq> insert w (set (m_workers m))"
    using assms(3) set_update_subset_insert [of "m_workers m" i w] by simp
  have "k \<in> set (open_jobs m') \<or> k = j \<and> w_job w = None" if "k \<in> set (open_jobs m)" for k
  proof -
    have "k \<in># mset (jobs_of (m_workers m')) + {#j#}" if "k \<in> set (jobs_of (m_workers m))"
      using that unfolding mset by simp
    moreover have "j \<in> set (open_jobs m')" if "w_job w \<noteq> None"
      using that assms(2,3,7) by (auto simp: open_jobs_def in_jobs_of set_update_memI)
    ultimately show ?thesis using that assms(4) by (cases "w_job w") (auto simp: open_jobs_def)
  qed
  then have settled: "settled m m'" using assms(7) unfolding settled_def by auto
  have "ledger (jobs_of (m_workers m')) + ledger [j] = ledger (jobs_of (m_workers m)) + ledger (jobs_of [w])"
    using ledger_mset [of "jobs_of (m_workers m') @ [j]" "jobs_of (m_workers m) @ jobs_of [w]"] mset by simp
  moreover have "jobs_of [w] = (case w_job w of None \<Rightarrow> [] | Some k \<Rightarrow> [k])" by (simp split: option.split)
  ultimately have turn: "turn m {#} (if w_job w = None then ledger [j] else {#}) (answers (pushed m m')) m'"
    using assms(4,6,7) by (auto simp: turn_def open_jobs_def)
  have "set (open_jobs m') \<subseteq> set (open_jobs m)"
  proof -
    have "k \<in> set (jobs_of (m_workers m))" if "k \<in> set (jobs_of (m_workers m'))" for k
    proof -
      from that obtain v where v: "v \<in> set (m_workers m')" "w_job v = Some k" by (auto simp: in_jobs_of)
      show ?thesis
      proof (cases "v = w")
        case True
        with v(2) assms(7) have "w_job (m_workers m ! i) = Some k" using assms(5) by auto
        then show ?thesis using nth_mem [OF assms(2)] by (auto simp: in_jobs_of)
      qed (use v sub in \<open>auto simp: in_jobs_of\<close>)
    qed
    then show ?thesis using assms(4) by (auto simp: open_jobs_def)
  qed
  moreover have "\<forall>v \<in> set (m_workers m'). w_exited v \<longrightarrow> w_job v = None"
    using assms(1,7) sub by (auto simp: requests_ok_def)
  ultimately have "requests_ok m'" using assms(1,3,6,8,9) by (auto simp: requests_ok_def job_ok_def)
  with settled turn show ?thesis unfolding orderly_def by blast
qed

section \<open>Fields\<close>

lemma queue_fields [simp]:
  "m_jobs (enqueue j m) = m_jobs m @ [j]" "m_jobs (push_event e m) = m_jobs m" "m_jobs (push_error i err m) = m_jobs m"
  "m_jobs (upd_station a f m) = m_jobs m" "m_jobs (upd_status a g m) = m_jobs m" "m_jobs (upd_thread a h m) = m_jobs m"
  "m_jobs (upd_worker w k m) = m_jobs m" "m_jobs (go a p m) = m_jobs m" "m_jobs (set_stream a st m) = m_jobs m"
  by (simp_all add: enqueue_def push_event_def push_error_def upd_station_def upd_status_def upd_thread_def
      upd_worker_def go_def set_stream_def)

lemma worker_fields [simp]:
  "m_workers (enqueue j m) = m_workers m" "m_workers (push_event e m) = m_workers m"
  "m_workers (push_error i err m) = m_workers m" "m_workers (upd_station a f m) = m_workers m"
  "m_workers (upd_status a g m) = m_workers m" "m_workers (upd_thread a h m) = m_workers m"
  "m_workers (upd_worker w k m) = (m_workers m)[w := k (m_workers m ! w)]"
  "m_workers (go a p m) = m_workers m" "m_workers (set_stream a st m) = m_workers m"
  by (simp_all add: enqueue_def push_event_def push_error_def upd_station_def upd_status_def upd_thread_def
      upd_worker_def go_def set_stream_def)

lemma id_fields [simp]:
  "m_next_request (enqueue j m) = m_next_request m" "m_next_request (push_event e m) = m_next_request m"
  "m_next_request (push_error i err m) = m_next_request m" "m_next_request (upd_station a f m) = m_next_request m"
  "m_next_request (upd_status a g m) = m_next_request m" "m_next_request (upd_thread a h m) = m_next_request m"
  "m_next_request (upd_worker w k m) = m_next_request m" "m_next_request (go a p m) = m_next_request m"
  "m_next_request (set_stream a st m) = m_next_request m"
  by (simp_all add: enqueue_def push_event_def push_error_def upd_station_def upd_status_def upd_thread_def
      upd_worker_def go_def set_stream_def)

lemma dispatch_fields [simp]:
  "m_dispatch (enqueue j m) = m_dispatch m" "m_dispatch (push_event e m) = m_dispatch m @ [e]"
  "m_dispatch (push_error i err m) =
     m_dispatch m @ [no_event\<lparr>ev_kind := EvError, ev_station := i, ev_text := e_code err, ev_text2 := e_message err\<rparr>]"
  "m_dispatch (upd_station a f m) = m_dispatch m" "m_dispatch (upd_status a g m) = m_dispatch m"
  "m_dispatch (upd_thread a h m) = m_dispatch m" "m_dispatch (upd_worker w k m) = m_dispatch m"
  "m_dispatch (go a p m) = m_dispatch m" "m_dispatch (set_stream a st m) = m_dispatch m"
  by (simp_all add: enqueue_def push_event_def push_error_def upd_station_def upd_status_def upd_thread_def
      upd_worker_def go_def set_stream_def)

lemma control_fields [simp]:
  "m_pc (enqueue j m) = m_pc m" "m_pc (push_event e m) = m_pc m" "m_pc (push_error i err m) = m_pc m"
  "m_pc (upd_station a f m) = m_pc m" "m_pc (upd_status a g m) = m_pc m" "m_pc (upd_thread a h m) = m_pc m"
  "m_pc (upd_worker w k m) = m_pc m" "m_pc (go a p m) = m_pc m" "m_pc (set_stream a st m) = m_pc m"
  "m_running (enqueue j m) = m_running m" "m_running (push_event e m) = m_running m"
  "m_running (push_error i err m) = m_running m" "m_running (upd_station a f m) = m_running m"
  "m_running (upd_status a g m) = m_running m" "m_running (upd_thread a h m) = m_running m"
  "m_running (upd_worker w k m) = m_running m" "m_running (go a p m) = m_running m"
  "m_running (set_stream a st m) = m_running m"
  by (simp_all add: enqueue_def push_event_def push_error_def upd_station_def upd_status_def upd_thread_def
      upd_worker_def go_def set_stream_def)

lemma no_event_fields [simp]: "ev_request no_event = 0" "j_request_id no_job = 0"
  by (simp_all add: no_event_def no_job_def)

lemmas queue_facts = queue_fields worker_fields id_fields dispatch_fields control_fields

lemma requests_pc: "requests_ok m \<Longrightarrow> m_pc m = MainIdle \<and> \<not> m_running m \<longrightarrow> m_workers m = []"
  by (simp add: requests_ok_def)

section \<open>The steps\<close>

lemma enqueue_request_orderly:
  assumes "requests_ok m" "m_next_request m < int_max" "j_kind j \<notin> {JobRegister, JobUnregister, JobServerInfo}"
    and same: "m_jobs m0 = m_jobs m" "m_workers m0 = m_workers m" "m_next_request m0 = m_next_request m"
      "m_pc m0 = m_pc m" "m_running m0 = m_running m"
    and new: "m_dispatch m0 = m_dispatch m @ es" "answers es = {#}"
    and keep: "m_jobs m' = m_jobs (snd (enqueue_request j m0))" "m_workers m' = m_workers m0"
      "m_next_request m' = m_next_request (snd (enqueue_request j m0))" "m_pc m' = m_pc m0" "m_running m' = m_running m0"
      "m_dispatch m' = m_dispatch m0"
  shows "orderly m m'"
proof -
  have id: "to_int32 (m_next_request m + 1) = m_next_request m + 1"
    using assms(1,2) by (simp add: requests_ok_def to_int32_id)
  show ?thesis
    by (rule orderly_request [of m m' "j\<lparr>j_request_id := m_next_request m + 1\<rparr>"])
      (use assms id in \<open>simp_all add: enqueue_request_def next_request_def Let_def\<close>)
qed

lemma refresh_orderly:
  assumes "requests_ok m" "m_next_request m < int_max"
    and same: "m_jobs m0 = m_jobs m" "m_workers m0 = m_workers m" "m_next_request m0 = m_next_request m"
      "m_pc m0 = m_pc m" "m_running m0 = m_running m"
    and new: "m_dispatch m0 = m_dispatch m @ es" "answers es = {#}"
    and keep: "m_jobs m' = m_jobs (refresh i m0)" "m_workers m' = m_workers m0"
      "m_next_request m' = m_next_request (refresh i m0)" "m_pc m' = m_pc m0" "m_running m' = m_running m0"
      "m_dispatch m' = m_dispatch m0"
  shows "orderly m m'"
proof (cases "find_station m0 i")
  case None
  then have "refresh i m0 = m0" by (simp add: refresh_def refresh_status_def)
  then show ?thesis using assms requests_pc [OF assms(1)] by (intro orderly_same) simp_all
next
  case (Some a)
  let ?j = "no_job\<lparr>j_kind := JobStatus, j_rpc := ''GetStatus'',
            j_body := jo_build (jo_str ''slug'' (s_slug (station_at m0 a)) []), j_station_id := i, j_station := Some a\<rparr>"
  have "refresh i m0 = snd (enqueue_request ?j m0)" using Some by (simp add: refresh_def refresh_status_def)
  then show ?thesis using assms by (intro enqueue_request_orderly [of m ?j m0 es]) simp_all
qed

lemma enqueue_request_fields [simp]:
  "m_workers (snd (enqueue_request j m)) = m_workers m" "m_dispatch (snd (enqueue_request j m)) = m_dispatch m"
  "m_pc (snd (enqueue_request j m)) = m_pc m" "m_running (snd (enqueue_request j m)) = m_running m"
  by (simp_all add: enqueue_request_def next_request_def Let_def)

lemma refresh_fields [simp]:
  "m_workers (refresh i m) = m_workers m" "m_dispatch (refresh i m) = m_dispatch m"
  "m_pc (refresh i m) = m_pc m" "m_running (refresh i m) = m_running m"
  by (simp_all add: refresh_def refresh_status_def split: option.split)

text \<open>Steps that push callbacks and may end in a status refresh.\<close>

definition silent :: "mgr \<Rightarrow> mgr \<Rightarrow> bool" where
  "silent m m0 \<longleftrightarrow> m_jobs m0 = m_jobs m \<and> m_workers m0 = m_workers m \<and> m_next_request m0 = m_next_request m
     \<and> m_pc m0 = m_pc m \<and> m_running m0 = m_running m
     \<and> (\<exists>es. m_dispatch m0 = m_dispatch m @ es \<and> answers es = {#})"

lemma silent_intros:
  "silent m m" "silent m m0 \<Longrightarrow> ev_request e = 0 \<Longrightarrow> silent m (push_event e m0)"
  "silent m m0 \<Longrightarrow> silent m (push_error i err m0)" "silent m m0 \<Longrightarrow> silent m (upd_status a f m0)"
  "silent m m0 \<Longrightarrow> silent m (upd_station a g m0)" "silent m m0 \<Longrightarrow> silent m (upd_thread a h m0)"
  "silent m m0 \<Longrightarrow> silent m (go a p m0)" "silent m m0 \<Longrightarrow> silent m (set_stream a st m0)"
  "silent m m0 \<Longrightarrow> silent m (m0\<lparr>m_poller := q\<rparr>)"
  by (auto simp: silent_def intro: exI [of _ "_ @ [_]"])

lemma silent_orderly: "requests_ok m \<Longrightarrow> silent m m' \<Longrightarrow> orderly m m'"
  using requests_pc [of m] by (auto simp: silent_def intro!: orderly_same)

lemma silent_refresh_orderly:
  assumes "requests_ok m" "m_next_request m < int_max" "silent m m0" "silent (refresh i m0) m'"
    "m_dispatch m' = m_dispatch m0"
  shows "orderly m m'"
  using assms by (auto simp: silent_def intro!: refresh_orderly [OF assms(1,2)])

definition steady :: "mgr \<Rightarrow> mgr \<Rightarrow> bool" where
  "steady m m' \<longleftrightarrow> silent m m' \<or> (\<exists>m0 i. silent m m0 \<and> m' = refresh i m0)"

lemma steady_intros:
  "steady m m" "silent m m0 \<Longrightarrow> ev_request e = 0 \<Longrightarrow> steady m (push_event e m0)"
  "silent m m0 \<Longrightarrow> steady m (refresh i m0)"
  "(b \<Longrightarrow> steady m c) \<Longrightarrow> (\<not> b \<Longrightarrow> steady m d) \<Longrightarrow> steady m (if b then c else d)"
  by (auto simp: steady_def intro: silent_intros)

lemma steady_orderly:
  assumes "requests_ok m" "m_next_request m < int_max" "steady m m'"
  shows "orderly m (go a p m')"
proof (cases "silent m m'")
  case True
  then show ?thesis using assms(1) by (intro silent_orderly silent_intros)
next
  case False
  then obtain m0 i where "silent m m0" "m' = refresh i m0" using assms(3) by (auto simp: steady_def)
  then show ?thesis using assms by (auto intro!: silent_refresh_orderly [of m m0 i] silent_intros)
qed

lemma dispatch_steady: "steady m (dispatch_station_event now a v m)"
  unfolding dispatch_station_event_def Let_def by (intro steady_intros silent_intros) simp_all

lemma poller_orderly:
  assumes "requests_ok m" "m_next_request m < int_max"
  shows "orderly m (poller_step m)"
proof (cases "\<exists>i is. m_poller m = PollerAt (i # is)")
  case True
  then obtain i js where "m_poller m = PollerAt (i # js)" by blast
  then show ?thesis
    using assms by (auto simp: poller_step_def intro!: silent_refresh_orderly [of m "m\<lparr>m_poller := PollerAt js\<rparr>" i] silent_intros)
next
  case False
  then have "silent m (poller_step m)"
    by (auto simp: poller_step_def intro: silent_intros split: poller.split list.split)
  with assms(1) show ?thesis by (rule silent_orderly)
qed

lemma registration_silent: "registration_done a rc r m = (x, m') \<Longrightarrow> silent m m'"
  by (auto simp: registration_done_def Let_def intro!: silent_intros split: sum.splits if_splits)

lemma stream_orderly:
  assumes "requests_ok m" "m_next_request m < int_max"
  shows "orderly m (stream_step lb now a m)"
proof (cases "\<exists>rc. t_phase (m_threads m ! a) = Refreshing rc \<or> (\<exists>v. t_phase (m_threads m ! a) = ReadDone (Event v))")
  case False
  have "silent m (thread_registered a b rc r m)" for b rc r
    using registration_silent [of a rc r m]
    by (auto simp: thread_registered_def intro!: silent_intros split: prod.split)
  moreover have "silent m (thread_dropped a st m)" for st
    by (auto simp: thread_dropped_def Let_def intro!: silent_intros)
  ultimately have "silent m (stream_step lb now a m)"
    using False
    by (auto simp: stream_step_def thread_register_def thread_call_def thread_subscribe_def thread_open_def
        thread_subscribed_def thread_read_def
        thread_read_done_def intro!: silent_intros split: stream_phase.split option.split prod.split event_read.split)
  with assms(1) show ?thesis by (rule silent_orderly)
next
  case True
  then show ?thesis
  proof (elim exE disjE)
    fix rc assume "t_phase (m_threads m ! a) = Refreshing rc"
    then show ?thesis
      using assms
      by (auto simp: stream_step_def thread_refresh_def intro!: silent_refresh_orderly [of m m] silent_intros)
  next
    fix v assume "t_phase (m_threads m ! a) = ReadDone (Event v)"
    then show ?thesis
      using assms steady_orderly [OF assms dispatch_steady, of a Reading] silent_orderly [OF assms(1) silent_intros(1)]
      by (simp add: stream_step_def thread_read_done_def split: option.split)
  qed
qed

text \<open>An idle worker takes the first job, or returns.\<close>

lemma orderly_idle:
  assumes "requests_ok m" "i < length (m_workers m)" "m_workers m' = (m_workers m)[i := w]" "w_job (m_workers m ! i) = None"
    "m_jobs m = j # m_jobs m' \<and> w_job w = Some j \<and> \<not> w_exited w \<or> m_jobs m' = m_jobs m \<and> w_job w = None"
    "m_next_request m' = m_next_request m" "m_dispatch m' = m_dispatch m" "m_pc m' = m_pc m" "m_running m' = m_running m"
  shows "orderly m m'"
proof -
  have m: "mset (jobs_of (m_workers m')) = mset (jobs_of (m_workers m)) + mset (jobs_of [w])"
    using jobs_of_update [OF assms(2), of w] assms(3,4) by simp
  then have eq: "mset (open_jobs m') = mset (open_jobs m)"
    using assms(5) by (auto simp: open_jobs_def)
  then have "turn m {#} {#} {#} m'"
    using ledger_mset [OF eq] assms(6,7) by (simp add: turn_def pushed_none)
  moreover have same: "set (open_jobs m') = set (open_jobs m)" using mset_eq_setD [OF eq] .
  moreover have "settled m m'" using same by (simp add: settled_def)
  moreover have "\<forall>v \<in> set (m_workers m'). w_exited v \<longrightarrow> w_job v = None"
    using assms(1,3,5) set_update_subset_insert [of "m_workers m" i w] by (auto simp: requests_ok_def)
  ultimately show ?thesis using assms unfolding orderly_def by (auto simp: requests_ok_def job_ok_def)
qed

lemma worker_take_orderly:
  assumes "requests_ok m" "i < length (m_workers m)" "w_job (m_workers m ! i) = None" "\<not> w_exited (m_workers m ! i)"
  shows "orderly m (worker_take i m)"
proof (cases "m_jobs m")
  case Nil
  show ?thesis
  proof (cases "m_running m")
    case True
    then show ?thesis
      using Nil silent_orderly [OF assms(1) silent_intros(1)] by (simp add: worker_take_def take_job_def)
  next
    case False
    then show ?thesis
      using assms Nil
      by (intro orderly_idle [OF assms(1-2) _ assms(3), of _ "(m_workers m ! i)\<lparr>w_exited := True\<rparr>"]) (simp_all add: worker_take_def take_job_def)
  qed
next
  case (Cons j js)
  then show ?thesis
    using assms
    by (intro orderly_idle [OF assms(1-2) _ assms(3),
        of _ "(m_workers m ! i)\<lparr>w_job := Some j, w_backoff := k_min_backoff\<rparr>" j]) (simp_all add: worker_take_def take_job_def)
qed

lemma worker_job_ok:
  "requests_ok m \<Longrightarrow> i < length (m_workers m) \<Longrightarrow> w_job (m_workers m ! i) = Some j \<Longrightarrow> job_ok m j"
  using nth_mem [of i "m_workers m"] by (fastforce simp: requests_ok_def open_jobs_def in_jobs_of)

lemma worker_call_orderly:
  assumes "requests_ok m" "i < length (m_workers m)" "w_job (m_workers m ! i) = Some j" "\<not> w_exited (m_workers m ! i)"
  shows "orderly m (worker_call lb i rpc body m)"
proof -
  have "orderly m (upd_worker i (\<lambda>w. w\<lparr>w_client := cl, w_request := None, w_reply := Some r\<rparr>) m)" for cl r
    using assms
    by (intro orderly_worker [OF assms(1-2) _ _ assms(3), of _
          "(m_workers m ! i)\<lparr>w_client := cl, w_request := None, w_reply := Some r\<rparr>"])
      (simp_all add: pushed_none)
  then show ?thesis by (simp add: worker_call_def split: prod.split)
qed

lemma worker_register_orderly:
  assumes "requests_ok m" "i < length (m_workers m)" "w_job (m_workers m ! i) = Some j" "\<not> w_exited (m_workers m ! i)"
    "j_kind j = JobRegister"
  shows "orderly m (worker_register i j m)"
proof -
  have "orderly m (upd_worker i (\<lambda>w. w\<lparr>w_request := Some body\<rparr>) m)" for body
    using assms
    by (intro orderly_worker [OF assms(1-2) _ _ assms(3), of _ "(m_workers m ! i)\<lparr>w_request := Some body\<rparr>"])
      (simp_all add: pushed_none)
  moreover have "orderly m (upd_worker i (\<lambda>w. w\<lparr>w_job := None\<rparr>) m)"
    using assms
    by (intro orderly_worker [OF assms(1-2) _ _ assms(3), of _ "(m_workers m ! i)\<lparr>w_job := None\<rparr>"])
      (simp_all add: pushed_none is_command_def)
  ultimately show ?thesis by (simp add: worker_register_def split: option.split)
qed

lemma finish_job_fields [simp]:
  "m_jobs (finish_job now j r m) = m_jobs m" "m_workers (finish_job now j r m) = m_workers m"
  "m_next_request (finish_job now j r m) = m_next_request m" "m_pc (finish_job now j r m) = m_pc m"
  "m_running (finish_job now j r m) = m_running m"
  by (simp_all add: finish_job_def job_failed_def handle_job_response_def apply_status_def Let_def
      split: sum.split job_kind.split option.split)

text \<open>The callbacks of a finished job: one with its request id, and an error when it failed.\<close>

lemma finish_job_pushes:
  "\<exists>es. m_dispatch (finish_job now j r m) = m_dispatch m @ es \<and> answers es \<subseteq># ledger [j]
     \<and> (is_command j \<and> j_request_id j \<noteq> 0 \<longrightarrow> result_of j es)"
  by (simp add: finish_job_def job_failed_def handle_job_response_def apply_status_def Let_def
      is_command_def result_of_def split: sum.split job_kind.split option.split)

lemma worker_handle_orderly:
  assumes "requests_ok m" "i < length (m_workers m)" "w_job (m_workers m ! i) = Some j" "\<not> w_exited (m_workers m ! i)"
  shows "orderly m (worker_handle now i j r m)"
proof (cases "j_kind j = JobRegister")
  case True
  then have id: "ledger [j] = {#}" "\<not> is_command j"
    using worker_job_ok [OF assms(1-3)] by (simp_all add: job_ok_def is_command_def)
  have reg: "orderly m (upd_worker i f m1)" if "silent m m1" "w_job (f (m_workers m ! i)) = None
      \<or> w_job (f (m_workers m ! i)) = Some j \<and> \<not> w_exited (f (m_workers m ! i))" for m1 f
    using that by (intro orderly_worker [OF assms(1-2) _ _ assms(3), of _ "f (m_workers m ! i)"]) (auto simp: silent_def id)
  have "orderly m (upd_worker i (\<lambda>w. w\<lparr>w_job := None, w_reply := None\<rparr>) m)"
    by (rule reg) (simp_all add: silent_intros)
  moreover have "orderly m (case registration_done a False r m of
        (TryAgain, m1) \<Rightarrow> upd_worker i (\<lambda>w. w\<lparr>w_reply := None, w_backoff := next_backoff (w_backoff w)\<rparr>) m1
      | (_, m1) \<Rightarrow> upd_worker i (\<lambda>w. w\<lparr>w_job := None, w_reply := None\<rparr>) m1)" for a
  proof -
    obtain x m1 where x: "registration_done a False r m = (x, m1)" by fastforce
    with reg [OF registration_silent [OF x]] assms(3,4) show ?thesis by (cases x) simp_all
  qed
  ultimately show ?thesis using True by (simp add: worker_handle_def Let_def split: option.split)
next
  case False
  have id: "j_request_id j \<noteq> 0" if "is_command j"
    using that worker_job_ok [OF assms(1-3)] by (auto simp: job_ok_def is_command_def)
  obtain es where es: "m_dispatch (worker_handle now i j r m) = m_dispatch m @ es" "answers es \<subseteq># ledger [j]"
    "is_command j \<longrightarrow> result_of j es"
    using finish_job_pushes [of now j r "upd_worker i (\<lambda>w. w\<lparr>w_job := None, w_reply := None\<rparr>) m"] False id
    by (auto simp: worker_handle_def Let_def)
  then show ?thesis
    using False
    by (intro orderly_worker [OF assms(1-2) _ _ assms(3), of _ "(m_workers m ! i)\<lparr>w_job := None, w_reply := None\<rparr>"])
      (simp_all add: worker_handle_def Let_def)
qed

lemma worker_orderly:
  assumes "requests_ok m" "i < length (m_workers m)"
  shows "orderly m (worker_step lb now i m)"
  using assms silent_orderly [OF assms(1) silent_intros(1)]
  by (auto simp: worker_step_def Let_def split: option.split
      intro: worker_take_orderly worker_call_orderly worker_register_orderly worker_handle_orderly)

section \<open>The main thread\<close>

lemma jobs_of_idle: "(\<And>w. w \<in> set ws \<Longrightarrow> w_job w = None) \<Longrightarrow> jobs_of ws = []"
  by (induction ws) simp_all

lemma start_workers_orderly:
  assumes "requests_ok m" "jobs_of (m_workers m) = []" "requests_ok m0" "m_jobs m0 = m_jobs m"
    "m_next_request m0 = m_next_request m" "m_dispatch m0 = m_dispatch m"
  shows "orderly m (start_workers tls net cfg m0)"
proof -
  let ?m' = "start_workers tls net cfg m0"
  have idle: "w_job w = None" "\<not> w_exited w" if "w \<in> set (m_workers ?m')" for w
    using that by (auto simp: start_workers_def Let_def)
  then have w: "jobs_of (m_workers ?m') = []" by (intro jobs_of_idle) simp
  have fields: "m_jobs ?m' = m_jobs m @ [no_job\<lparr>j_kind := JobServerInfo, j_rpc := ''GetServerInfo'', j_body := ''{}''\<rparr>]"
      "m_next_request ?m' = m_next_request m" "m_dispatch ?m' = m_dispatch m" "m_running ?m'"
    using assms by (simp_all add: start_workers_def Let_def)
  then have "turn m {#} {#} {#} ?m'" using w assms(2) by (simp add: turn_def open_jobs_def pushed_none)
  moreover have "requests_ok ?m'" using assms(1) fields w idle by (auto simp: requests_ok_def open_jobs_def job_ok_def)
  moreover have "settled m ?m'" using assms(2) fields(1) by (simp add: settled_def open_jobs_def)
  ultimately show ?thesis unfolding orderly_def by blast
qed

lemma stop_workers_orderly:
  assumes "requests_ok m" "m_jobs m0 = m_jobs m" "m_workers m0 = m_workers m" "m_next_request m0 = m_next_request m"
    "m_dispatch m0 = m_dispatch m" "m_running m0" "m_running m" "p \<noteq> MainIdle"
  shows "orderly m ((stop_workers m0)\<lparr>m_pc := p\<rparr>)"
  using assms by (intro orderly_drop [OF assms(1)]) (auto simp: stop_workers_def open_jobs_def pushed_none requests_ok_def)

lemma configure_orderly:
  assumes "requests_ok m" "m_pc m = MainIdle" "m_jobs m0 = m_jobs m" "m_workers m0 = m_workers m"
    "m_next_request m0 = m_next_request m" "m_dispatch m0 = m_dispatch m" "m_running m0 = m_running m" "m_pc m0 = MainIdle"
  shows "orderly m (snd (configure lb tls net cfg m0))"
proof (cases "check_config lb tls cfg m0")
  case (Inl e)
  then show ?thesis
    using assms by (auto simp: configure_def pushed_none intro!: orderly_same requests_pc [OF assms(1), rule_format])
next
  case (Inr u)
  let ?m1 = "m0\<lparr>m_config := cfg, m_url := u, m_configured := True\<rparr>"
  have "requests_ok ?m1" using assms by (simp add: requests_ok_def open_jobs_def job_ok_def)
  then have "orderly m (start_workers tls net cfg ?m1)" if "\<not> m_running m"
    using assms that by (intro start_workers_orderly) (simp_all add: requests_ok_def)
  moreover have "orderly m ((stop_workers ?m1)\<lparr>m_pc := StoppingFor cfg\<rparr>)" if "m_running m"
    using assms that by (intro stop_workers_orderly) simp_all
  ultimately show ?thesis using Inr assms(7) by (simp add: configure_def Let_def)
qed

lemma reload_orderly:
  assumes "requests_ok m" "m_pc m = MainIdle"
  shows "orderly m (snd (snd (reload lb tls net cfg m)))"
proof -
  let ?m1 = "m\<lparr>m_config := (m_config m)\<lparr>poll_interval_ms := poll_interval_ms cfg\<rparr>\<rparr>"
  have "orderly m ?m1"
    using requests_pc [OF assms(1)] by (intro orderly_same [OF assms(1)]) (simp_all add: pushed_none)
  moreover have "orderly m (snd (configure lb tls net cfg m))" "orderly m (snd (configure lb tls net cfg ?m1))"
    using assms by (auto intro!: configure_orderly)
  ultimately show ?thesis by (simp add: reload_state Let_def)
qed

lemma shutdown_fold_fields [simp]:
  "m_jobs (fold (\<lambda>a. upd_station a f) as m) = m_jobs m" "m_workers (fold (\<lambda>a. upd_station a f) as m) = m_workers m"
  "m_next_request (fold (\<lambda>a. upd_station a f) as m) = m_next_request m"
  "m_dispatch (fold (\<lambda>a. upd_station a f) as m) = m_dispatch m" "m_pc (fold (\<lambda>a. upd_station a f) as m) = m_pc m"
  by (induction as arbitrary: m) simp_all

lemma call_request_orderly:
  assumes "requests_ok m" "m_next_request m < int_max" "j_kind j \<notin> {JobRegister, JobUnregister, JobServerInfo}"
  shows "orderly m (snd (enqueue_request j m))"
  by (rule enqueue_request_orderly [OF assms, of m "[]"]) simp_all

lemma main_call_orderly:
  assumes "main_call lb tls m m'" "requests_ok m" "m_pc m = MainIdle" "m_next_request m < int_max"
  shows "orderly m m'"
proof -
  note pc = requests_pc [OF assms(2)]
  note same = orderly_same [OF assms(2)]
  have keep: "orderly m m" by (rule same) (use pc in \<open>simp_all add: pushed_none\<close>)
  note request = call_request_orderly [OF assms(2,4)]
  show ?thesis
    using assms(1)
  proof cases
    case (call_create net slug name description threshold logo)
    show ?thesis
      unfolding call_create by (rule same) (use pc in \<open>simp_all add: create_station_def Let_def pushed_none\<close>)
  next
    case (call_destroy i)
    show ?thesis
      unfolding call_destroy
      by (rule same) (use pc in \<open>simp_all add: destroy_station_def pushed_none split: option.split\<close>)
  next
    case (call_update i name description threshold logo)
    show ?thesis
      unfolding call_update update_station_def
    proof (cases "find_station m i")
      case (Some a)
      show "orderly m (snd (case find_station m i of None \<Rightarrow> (False, m) | Some a \<Rightarrow> (True, enqueue (register_job i a)
             (upd_station a (\<lambda>s. s\<lparr>s_name := (if name = [] then s_slug s else name),
                s_description := description, s_low_queue_threshold := threshold, s_logo_url := logo\<rparr>) m))))"
        by (rule orderly_own_job [OF assms(2), of _ "register_job i a"]) (use Some pc in \<open>simp_all add: register_job_def pushed_none\<close>)
    qed (use pc in \<open>simp add: pushed_none same\<close>)
  next
    case (call_queue_track i location title artist cover mode)
    show ?thesis
      unfolding call_queue_track queue_track_def
      by (cases "find_station m i") (simp add: keep, simp, rule request, simp)
  next
    case (call_command i rpc body flag_key result_key)
    show ?thesis
      unfolding call_command slug_command_def get_slug_def enqueue_command_def
      by (cases "find_station m i") (simp add: keep, simp, rule request, simp)
  next
    case (call_refresh i)
    show ?thesis
      unfolding call_refresh by (rule silent_refresh_orderly [of m m i]) (use assms in \<open>simp_all add: silent_intros\<close>)
  next
    case call_list
    show ?thesis
      unfolding call_list request_station_list_def
      by (cases "m_configured m") (simp, rule request, simp, simp add: keep)
  next
    case (call_configure net cfg)
    show ?thesis unfolding call_configure by (rule configure_orderly) (use assms in simp_all)
  next
    case (call_reload net cfg)
    show ?thesis unfolding call_reload by (rule reload_orderly) (use assms in simp_all)
  next
    case (call_set_metadata i key v)
    show ?thesis
      unfolding call_set_metadata
      by (rule same) (use pc in \<open>simp_all add: set_metadata_def pushed_none split: option.split\<close>)
  next
    case (call_clear_metadata i)
    show ?thesis
      unfolding call_clear_metadata
      by (rule same) (use pc in \<open>simp_all add: clear_metadata_def pushed_none split: option.split\<close>)
  next
    case call_tick
    show ?thesis unfolding call_tick by (rule same) (use pc in \<open>simp_all add: tick_def pushed_none\<close>)
  next
    case call_shutdown
    show ?thesis
      unfolding call_shutdown
      by (rule same) (use pc in \<open>simp_all add: shutdown_def Let_def pushed_none\<close>)
  qed
qed

lemma main_resume_orderly:
  assumes "requests_ok m" "config_ok lb tls m"
  shows "orderly m (main_resume tls net m)"
proof -
  have keep: "orderly m m" by (rule silent_orderly [OF assms(1) silent_intros(1)])
  have idle: "jobs_of (m_workers m) = []" if "workers_gone m"
    using that assms(1) by (intro jobs_of_idle) (auto simp: workers_gone_def requests_ok_def)
  show ?thesis
  proof (cases "m_pc m")
    case (StoppingFor cfg)
    then show ?thesis using keep idle assms(1) by (auto simp: main_resume_def intro!: start_workers_orderly)
  next
    case StoppingForShutdown
    have "orderly m (shutdown_finished m)" if "workers_gone m"
      using idle [OF that] assms(1)
      by (intro orderly_drop) (auto simp: shutdown_finished_def open_jobs_def pushed_none)
    with keep StoppingForShutdown show ?thesis by (simp add: main_resume_def)
  next
    case (JoiningStation a i)
    have "orderly m (destroy_joined a i m)"
      using assms JoiningStation
      by (intro orderly_own_job [of m _
            "unregister_job i (s_slug (station_at (upd_station a (\<lambda>s. s\<lparr>s_stream := None\<rparr>) m) a))"]) (simp_all add: destroy_joined_def Let_def unregister_job_def pushed_none config_ok_def)
    with keep JoiningStation show ?thesis by (simp add: main_resume_def)
  next
    case (JoiningAll as)
    then show ?thesis
      using keep assms by (auto simp: main_resume_def shutdown_joined_def config_ok_def intro!: stop_workers_orderly)
  qed (use keep in \<open>simp add: main_resume_def\<close>)
qed

section \<open>Runs\<close>

lemma step_orderly:
  assumes "mgr_step lb tls m m'" "requests_ok m" "mgr_ok lb tls m" "m_next_request m < int_max"
  shows "orderly m m'"
  using assms(1)
proof cases
  case step_main
  then show ?thesis using main_call_orderly [OF _ assms(2) _ assms(4)] by blast
next
  case (step_resume net)
  then show ?thesis using main_resume_orderly [OF assms(2), of lb tls net] assms(3) by (simp add: mgr_ok_def)
qed (use assms in \<open>simp_all add: worker_orderly stream_orderly poller_orderly\<close>)

lemma new_manager_requests: "requests_ok new_manager" "open_jobs new_manager = []" "m_next_request new_manager = 0"
  by (simp_all add: requests_ok_def open_jobs_def new_manager_def)

lemma reachable_requests: "reachable lb tls m \<Longrightarrow> requests_ok m"
proof (induction rule: reachable.induct)
  case (reach_step m m')
  then show ?case using step_orderly [OF _ _ reachable_ok] by (auto simp: orderly_def)
qed (rule new_manager_requests)

lemma history_reachable: "history lb tls m es \<Longrightarrow> reachable lb tls m"
  by (induction rule: history.induct) (auto intro: reachable.intros)

lemma ledger_bounds: "requests_ok m \<Longrightarrow> r \<in># ledger (open_jobs m) \<Longrightarrow> 0 < r \<and> r \<le> m_next_request m"
  by (fastforce simp: requests_ok_def job_ok_def ledger_def)

lemma turn_counts:
  assumes "turn m opened closed answered m'" "n = m_next_request m"
    and "\<And>r. count (ledger (open_jobs m)) r + count (answers es) r \<le> (if 0 < r \<and> r \<le> n then 1 else 0)" "0 \<le> n"
  shows "count (ledger (open_jobs m')) r + count (answers (es @ pushed m m')) r
    \<le> (if 0 < r \<and> r \<le> m_next_request m' then 1 else 0)"
proof -
  have l: "count (ledger (open_jobs m')) r + count closed r = count (ledger (open_jobs m)) r + count opened r"
    using assms(1) by (metis turn_def count_union)
  have a: "count (answers (pushed m m')) r \<le> count closed r"
    using assms(1) by (simp add: turn_def mset_subset_eq_count)
  have o: "opened = {#} \<or> opened = {#n + 1#}"
    using assms(1,2) by (cases opened) (auto simp: turn_def insert_subset_eq_iff)
  have n: "m_next_request m' = n + int (size opened)" using assms(1,2) by (simp add: turn_def)
  show ?thesis using l a assms(3) [of r] o n assms(4) by (auto split: if_splits)
qed

lemma history_counts:
  "history lb tls m es \<Longrightarrow>
   count (ledger (open_jobs m)) r + count (answers es) r \<le> (if 0 < r \<and> r \<le> m_next_request m then 1 else 0)"
proof (induction arbitrary: r rule: history.induct)
  case (history_step m es m')
  have ok: "requests_ok m" "mgr_ok lb tls m"
    using reachable_requests reachable_ok history_reachable [OF history_step.hyps(1)] by blast+
  then obtain n c a where "turn m n c a m'"
    using step_orderly [OF history_step.hyps(4) ok history_step.hyps(3)] by (auto simp: orderly_def)
  from turn_counts [OF this refl history_step.IH] ok(1) show ?case by (simp add: requests_ok_def)
qed (simp add: new_manager_requests)

lemma count_ledger: "r \<noteq> 0 \<Longrightarrow> count (ledger js) r = length (filter (\<lambda>j. j_request_id j = r) js)"
  by (induction js) simp_all

text \<open>
  C6
  Over any run a request id belongs to at most one job or callback: while its job is queued or
  with a worker no callback carries the id, afterwards at most one does, and ids never handed
  out appear nowhere.
\<close>

theorem request_ids_are_used_once:
  assumes "history lb tls m es" "r \<noteq> 0"
  shows "length (filter (\<lambda>j. j_request_id j = r) (open_jobs m)) + length (filter (\<lambda>e. ev_request e = r) es)
    \<le> (if 0 < r \<and> r \<le> m_next_request m then 1 else 0)"
  using history_counts [OF assms(1), of r] count_answers [OF assms(2), of es] count_ledger [OF assms(2), of "open_jobs m"]
  by simp

text \<open>
  C5
  A command or queued track that is waiting or with a worker still is after any step, unless it
  just got its one callback, with its request and station id, or the worker pool was stopped
  while it was still queued.
\<close>

theorem commands_end_with_a_result:
  assumes "reachable lb tls m" "m_next_request m < int_max" "mgr_step lb tls m m'"
    and "j \<in> set (open_jobs m)" "j_kind j = JobCommand \<or> j_kind j = JobQueueTrack"
  shows "j \<in> set (open_jobs m')
    \<or> (\<exists>e. filter (\<lambda>e. ev_request e = j_request_id j) (pushed m m') = [e] \<and> ev_station e = j_station_id j
         \<and> (ev_kind e = EvCommandResult \<and> ev_text e = j_command j
            \<or> ev_kind e = EvTrackQueued \<and> j_kind j = JobQueueTrack \<and> ev_flag e))
    \<or> (j \<in> set (m_jobs m) \<and> m_running m \<and> \<not> m_running m')"
proof -
  have "settled m m'"
    using step_orderly [OF assms(3) reachable_requests [OF assms(1)] reachable_ok [OF assms(1)] assms(2)]
    by (simp add: orderly_def)
  then show ?thesis using assms(4,5) unfolding settled_def is_command_def result_of_def by blast
qed

section \<open>A station that skips a track\<close>

definition example_skip :: mgr where
  "example_skip = snd (skip 0 example_mgr)"

definition skip_job :: job where
  "skip_job = no_job\<lparr>j_kind := JobCommand, j_rpc := ''Skip'', j_body := jo_build (jo_str ''slug'' ''main'' []),
     j_station_id := 0, j_request_id := 1, j_command := ''Skip'', j_flag_key := ''skipped'', j_station := Some 0\<rparr>"

lemma example_skip_shape:
  "example_skip = example_mgr\<lparr>m_next_request := 1, m_jobs := m_jobs example_mgr @ [skip_job]\<rparr>"
  by (simp add: example_skip_def skip_def slug_command_def get_slug_def enqueue_command_def find_station_def
      example_mgr_fields station_at_def enqueue_request_def next_request_def enqueue_def to_int32_def skip_job_def
      no_job_def Let_def)

lemma example_mgr_history: "history 64 False example_mgr []"
proof -
  have "history 64 False example_server ([] @ pushed new_manager example_server)"
    unfolding example_server_def
    by (rule history_step [OF history_new]) (auto intro!: step_main call_configure simp: new_manager_def)
  moreover have "m_dispatch example_server = []" by (simp add: example_server_fields)
  ultimately have "history 64 False example_server []" by (simp add: pushed_none)
  moreover have "mgr_step 64 False example_server example_mgr"
    unfolding example_mgr_def by (intro step_main call_create) (simp add: example_server_fields)
  ultimately have "history 64 False example_mgr ([] @ pushed example_server example_mgr)"
    by (intro history_step) (simp_all add: example_server_fields)
  moreover have "m_dispatch example_mgr = []"
    by (simp add: example_mgr_def create_station_def example_server_fields Let_def)
  ultimately show ?thesis by (simp add: pushed_none)
qed

lemma example_skip_step: "mgr_step 64 False example_mgr example_skip"
  unfolding example_skip_def skip_def by (intro step_main call_command) (simp add: example_mgr_fields)

lemma request_ids_are_used_once_witness:
  "length (filter (\<lambda>j. j_request_id j = 1) (open_jobs example_skip)) \<le> 1"
proof -
  have "history 64 False example_skip ([] @ pushed example_mgr example_skip)"
    by (rule history_step [OF example_mgr_history _ _ example_skip_step]) (simp_all add: example_mgr_fields)
  from request_ids_are_used_once [OF this, of 1] show ?thesis by (simp add: example_skip_shape)
qed

lemma commands_end_with_a_result_witness:
  "skip_job \<in> set (open_jobs (poller_step example_skip))"
proof -
  have r: "reachable 64 False example_skip"
    by (rule reach_step [OF example_mgr_reachable _ _ example_skip_step]) (simp_all add: example_mgr_fields)
  have "skip_job \<in> set (open_jobs example_skip)" by (simp add: example_skip_shape open_jobs_def)
  moreover have "pushed example_skip (poller_step example_skip) = []"
    by (rule pushed_none) (simp add: poller_step_def split: poller.split list.split)
  moreover have "m_running (poller_step example_skip)"
    by (simp add: poller_step_def example_skip_shape example_mgr_fields split: poller.split list.split)
  moreover have "j_kind skip_job = JobCommand" by (simp add: skip_job_def)
  ultimately show ?thesis
    using commands_end_with_a_result [OF r _ step_poller, of skip_job] by (simp add: example_skip_shape)
qed

end
