(* ===== verification/Manager_Commands.thy ===== *)
theory Manager_Commands
  imports Manager_Requests
begin

text \<open>
  The commands of a station as one table: the remote procedure and arguments each sends, and how
  its answer is reported; the request that queues a track; the status cache and the time it
  carries forward; and the delays between attempts.
\<close>

section \<open>Commands\<close>

datatype player_command =
  Dequeue string | ClearQueue bool | SkipTrack | SkipTo string | Pause | Resume | Seek int | SeekBy int

fun issue :: "int \<Rightarrow> player_command \<Rightarrow> mgr \<Rightarrow> int \<times> mgr" where
  "issue i (Dequeue q) = dequeue i q"
| "issue i (ClearQueue s) = clear_queue i s"
| "issue i SkipTrack = skip i"
| "issue i (SkipTo q) = skip_to i q"
| "issue i Pause = pause i"
| "issue i Resume = resume i"
| "issue i (Seek n) = seek i n"
| "issue i (SeekBy n) = seek_by i n"

text \<open>What the audio server's interface says of each.\<close>

fun procedure_of :: "player_command \<Rightarrow> string" where
  "procedure_of (Dequeue q) = ''RemoveFromQueue''"
| "procedure_of (ClearQueue s) = ''ClearQueue''"
| "procedure_of SkipTrack = ''Skip''"
| "procedure_of (SkipTo q) = ''SkipTo''"
| "procedure_of Pause = ''Pause''"
| "procedure_of Resume = ''Resume''"
| "procedure_of (Seek n) = ''Seek''"
| "procedure_of (SeekBy n) = ''SeekBy''"

fun arguments_of :: "player_command \<Rightarrow> (string \<times> json) list" where
  "arguments_of (Dequeue q) = [(''queueId'', JString q)]"
| "arguments_of (ClearQueue s) = (if s then [(''stopCurrent'', JBool True)] else [])"
| "arguments_of (SkipTo q) = [(''queueId'', JString q)]"
| "arguments_of (Seek n) = [(''positionSeconds'', JNumber (dec_int n))]"
| "arguments_of (SeekBy n) = [(''deltaSeconds'', JNumber (dec_int n))]"
| "arguments_of _ = []"

text \<open>Whether an answer says that the command did something, and the number it reports.\<close>

fun done_by :: "player_command \<Rightarrow> json \<Rightarrow> bool" where
  "done_by (Dequeue q) v = get_bool v ''removed'' False"
| "done_by SkipTrack v = get_bool v ''skipped'' False"
| "done_by Pause v = get_bool v ''paused'' False"
| "done_by Resume v = get_bool v ''resumed'' False"
| "done_by (Seek n) v = get_bool v ''seeked'' False"
| "done_by (SeekBy n) v = get_bool v ''seeked'' False"
| "done_by _ v = True"

fun number_of :: "player_command \<Rightarrow> json \<Rightarrow> int" where
  "number_of (ClearQueue s) v = get_int v ''removedCount'' 0"
| "number_of (SkipTo q) v = get_int v ''removedCount'' 0"
| "number_of (Seek n) v = get_int v ''positionSeconds'' 0"
| "number_of (SeekBy n) v = get_int v ''positionSeconds'' 0"
| "number_of c v = (if done_by c v then 1 else 0)"

definition result_event :: "int \<Rightarrow> int \<Rightarrow> string \<Rightarrow> bool \<Rightarrow> int \<Rightarrow> pawn_event" where
  "result_event i r command flag num =
     no_event\<lparr>ev_kind := EvCommandResult, ev_station := i, ev_request := r, ev_text := command,
       ev_flag := flag, ev_num1 := num\<rparr>"

definition error_event :: "int \<Rightarrow> rpc_error \<Rightarrow> pawn_event" where
  "error_event i e = no_event\<lparr>ev_kind := EvError, ev_station := i, ev_text := e_code e, ev_text2 := e_message e\<rparr>"

fun extra_calls :: "player_command \<Rightarrow> jo_op list" where
  "extra_calls (Dequeue q) = [CallStr ''queueId'' q]"
| "extra_calls (ClearQueue s) = (if s then [CallBool ''stopCurrent'' True] else [])"
| "extra_calls (SkipTo q) = [CallStr ''queueId'' q]"
| "extra_calls (Seek n) = [CallInt ''positionSeconds'' n]"
| "extra_calls (SeekBy n) = [CallInt ''deltaSeconds'' n]"
| "extra_calls _ = []"

fun flag_key_of :: "player_command \<Rightarrow> string" where
  "flag_key_of (Dequeue q) = ''removed''"
| "flag_key_of SkipTrack = ''skipped''"
| "flag_key_of Pause = ''paused''"
| "flag_key_of Resume = ''resumed''"
| "flag_key_of (Seek n) = ''seeked''"
| "flag_key_of (SeekBy n) = ''seeked''"
| "flag_key_of _ = []"

fun result_key_of :: "player_command \<Rightarrow> string" where
  "result_key_of (ClearQueue s) = ''removedCount''"
| "result_key_of (SkipTo q) = ''removedCount''"
| "result_key_of (Seek n) = ''positionSeconds''"
| "result_key_of (SeekBy n) = ''positionSeconds''"
| "result_key_of _ = []"

definition command_job :: "int \<Rightarrow> nat \<Rightarrow> string \<Rightarrow> player_command \<Rightarrow> int \<Rightarrow> job" where
  "command_job i a slug c r =
     no_job\<lparr>j_kind := JobCommand, j_rpc := procedure_of c, j_command := procedure_of c,
       j_body := jo_calls (CallStr ''slug'' slug # extra_calls c), j_station_id := i, j_station := Some a,
       j_flag_key := flag_key_of c, j_result_key := result_key_of c, j_request_id := r\<rparr>"

lemma issue_job:
  "issue i c m = (case find_station m i of None \<Rightarrow> (0, m)
     | Some a \<Rightarrow> let r = to_int32 (m_next_request m + 1) in
         (r, m\<lparr>m_next_request := r, m_jobs := m_jobs m @ [command_job i a (s_slug (station_at m a)) c r]\<rparr>))"
  by (cases c) (simp_all add: dequeue_def clear_queue_def skip_def skip_to_def pause_def resume_def seek_def seek_by_def
      slug_command_def get_slug_def enqueue_command_def enqueue_request_def next_request_def enqueue_def command_job_def
      no_job_def jo_calls_def Let_def split: option.split)

lemma command_body_reads_back:
  "json_parse (jo_calls (CallStr ''slug'' slug # extra_calls c)) = Inr (JObject ((''slug'', JString slug) # arguments_of c))"
proof -
  have "\<forall>x \<in> set (CallStr ''slug'' slug # extra_calls c). jo_call_ok (\<lambda>_. JNull) x"
    by (cases c) (auto simp: json_escape_def escape_char_def byte_def)
  from builder_round_trip [OF this] show ?thesis by (cases c) simp_all
qed

text \<open>
  C28
  A command for an unknown station is refused with request id 0 and changes nothing. For a known
  one it queues, behind everything waiting, a single call of its procedure whose body the server
  reads as the station's slug and the command's own arguments, and returns the fresh request id.
  The answer comes out as one \<^verbatim>\<open>OnGoRadioCommandResult\<close> with what the server said; a failed call as
  a negative one followed by the error.
\<close>

theorem commands_call_and_report:
  "case find_station m i of
     None \<Rightarrow> issue i c m = (0, m)
   | Some a \<Rightarrow> \<exists>j r. issue i c m = (r, m\<lparr>m_next_request := r, m_jobs := m_jobs m @ [j]\<rparr>)
       \<and> r = to_int32 (m_next_request m + 1) \<and> j_kind j = JobCommand \<and> j_rpc j = procedure_of c
       \<and> json_parse (j_body j) = Inr (JObject ((''slug'', JString (s_slug (station_at m a))) # arguments_of c))
       \<and> (\<forall>now v m2. finish_job now j (Inr v) m2 =
             push_event (result_event i r (procedure_of c) (done_by c v) (number_of c v)) m2)
       \<and> (\<forall>now e m2. finish_job now j (Inl e) m2 =
             push_event (error_event i e) (push_event (result_event i r (procedure_of c) False 0) m2))"
proof (cases "find_station m i")
  case (Some a)
  define r where "r = to_int32 (m_next_request m + 1)"
  let ?j = "command_job i a (s_slug (station_at m a)) c r"
  have "issue i c m = (r, m\<lparr>m_next_request := r, m_jobs := m_jobs m @ [?j]\<rparr>)"
    using Some by (simp add: issue_job r_def Let_def)
  moreover have "finish_job now ?j (Inr v) m2 =
      push_event (result_event i r (procedure_of c) (done_by c v) (number_of c v)) m2" for now v m2
    by (cases c) (simp_all add: finish_job_def handle_job_response_def command_job_def result_event_def Let_def no_event_def)
  moreover have "finish_job now ?j (Inl e) m2 =
      push_event (error_event i e) (push_event (result_event i r (procedure_of c) False 0) m2)" for now e m2
    by (simp add: finish_job_def job_failed_def push_error_def error_event_def command_job_def result_event_def no_event_def)
  moreover have "j_kind ?j = JobCommand" "j_rpc ?j = procedure_of c"
    "json_parse (j_body ?j) = Inr (JObject ((''slug'', JString (s_slug (station_at m a))) # arguments_of c))"
    by (simp_all add: command_job_def command_body_reads_back)
  ultimately show ?thesis using Some r_def by auto
qed (simp add: issue_job)

section \<open>Queueing a track\<close>

definition source_calls :: "string \<Rightarrow> string \<Rightarrow> string \<Rightarrow> string \<Rightarrow> jo_op list" where
  "source_calls location title artist cover =
     [CallStr ''type'' (source_type_for location), CallStr ''location'' location, CallStrIfSet ''displayTitle'' title,
      CallStrIfSet ''displayArtist'' artist, CallStrIfSet ''coverArtUrl'' cover]"

definition source_value :: "string \<Rightarrow> string \<Rightarrow> string \<Rightarrow> string \<Rightarrow> json" where
  "source_value location title artist cover =
     JObject (concat (map (jo_members (\<lambda>_. JNull)) (source_calls location title artist cover)))"

definition queue_track_calls :: "string \<Rightarrow> string \<Rightarrow> string \<Rightarrow> string \<Rightarrow> string \<Rightarrow> int \<Rightarrow> jo_op list" where
  "queue_track_calls slug location title artist cover mode =
     [CallStr ''slug'' slug, CallRaw ''source'' (source_json location title artist cover),
      CallStr ''mode'' (queue_mode_to_proto mode)]"

lemma source_calls_ok: "\<forall>c \<in> set (source_calls location title artist cover). jo_call_ok (\<lambda>_. JNull) c"
  by (simp add: source_calls_def json_escape_def escape_char_def byte_def)

lemma source_json_calls: "source_json location title artist cover = jo_calls (source_calls location title artist cover)"
  by (simp add: source_json_def source_calls_def jo_calls_def)

lemma source_json_render: "source_json location title artist cover = render (source_value location title artist cover)"
  using jo_calls_body [OF source_calls_ok [of location title artist cover], of "[]"]
  by (simp add: source_json_calls source_value_def jo_calls_def jo_build_def body_of_def)

lemma source_value_ok:
  "wf_json (source_value location title artist cover)" "json_depth (source_value location title artist cover) < k_max_depth"
proof -
  have "json_depth (source_value location title artist cover) \<le> 1"
    unfolding source_value_def json_depth_object_le by (auto simp: source_calls_def split: if_splits)
  then show "json_depth (source_value location title artist cover) < k_max_depth" by simp
  show "wf_json (source_value location title artist cover)"
    by (auto simp: source_value_def source_calls_def split: if_splits)
qed

lemma queue_track_json_calls:
  "queue_track_json slug location title artist cover mode = jo_calls (queue_track_calls slug location title artist cover mode)"
  by (simp add: queue_track_json_def queue_track_calls_def jo_calls_def)

lemma queue_track_json_parse:
  "json_parse (queue_track_json slug location title artist cover mode) = Inr (JObject
     [(''slug'', JString slug), (''source'', source_value location title artist cover),
      (''mode'', JString (queue_mode_to_proto mode))])"
proof -
  have "\<forall>c \<in> set (queue_track_calls slug location title artist cover mode).
      jo_call_ok (\<lambda>_. source_value location title artist cover) c"
    by (simp add: queue_track_calls_def source_json_render source_value_ok json_escape_def escape_char_def byte_def)
  from builder_round_trip [OF this] show ?thesis by (simp add: queue_track_json_calls queue_track_calls_def)
qed

lemma source_fields [simp]:
  "get_str (source_value location title artist cover) ''type'' [] = source_type_for location"
  "get_str (source_value location title artist cover) ''location'' [] = location"
  "get_str (source_value location title artist cover) ''displayTitle'' [] = title"
  "get_str (source_value location title artist cover) ''displayArtist'' [] = artist"
  "get_str (source_value location title artist cover) ''coverArtUrl'' [] = cover"
  by (simp_all add: source_value_def source_calls_def get_str_def get_def)

text \<open>
  C30
  A track queued on a known station goes out as one \<^verbatim>\<open>QueueTrack\<close> call behind everything waiting. The
  server reads the station's slug, the place in the queue that was asked for, and the location,
  title, artist and cover art exactly as given, whatever text they hold; a location is a URL when
  it starts with http:// or https://. The answer's queue id and position come back in one
  \<^verbatim>\<open>OnGoRadioTrackQueued\<close> with the request's id.
\<close>

theorem queue_track_reads_back:
  "case find_station m i of
     None \<Rightarrow> queue_track i location title artist cover mode m = (0, m)
   | Some a \<Rightarrow> \<exists>j r v. queue_track i location title artist cover mode m =
         (r, m\<lparr>m_next_request := r, m_jobs := m_jobs m @ [j]\<rparr>)
       \<and> r = to_int32 (m_next_request m + 1) \<and> j_rpc j = ''QueueTrack''
       \<and> json_parse (j_body j) = Inr v
       \<and> get_str v ''slug'' [] = s_slug (station_at m a)
       \<and> get_str v ''mode'' [] = (if mode = 1 then ''QUEUE_MODE_PLAY_NEXT''
            else if mode = 2 then ''QUEUE_MODE_PLAY_NOW_INTERRUPT'' else ''QUEUE_MODE_APPEND'')
       \<and> get_str (get v ''source'') ''type'' [] =
            (if take 7 location = ''http://'' \<or> take 8 location = ''https://''
             then ''TRACK_SOURCE_TYPE_HTTP_URL'' else ''TRACK_SOURCE_TYPE_LOCAL_FILE'')
       \<and> get_str (get v ''source'') ''location'' [] = location
       \<and> get_str (get v ''source'') ''displayTitle'' [] = title
       \<and> get_str (get v ''source'') ''displayArtist'' [] = artist
       \<and> get_str (get v ''source'') ''coverArtUrl'' [] = cover
       \<and> (\<forall>now u m2. pushed m2 (finish_job now j (Inr u) m2) =
             [no_event\<lparr>ev_kind := EvTrackQueued, ev_station := i, ev_request := r,
                ev_queue_id := get_str u ''queueId'' [], ev_text := get_str u ''status'' [],
                ev_num2 := get_int u ''queuePosition'' 0, ev_flag := True\<rparr>])"
proof (cases "find_station m i")
  case (Some a)
  define r where "r = to_int32 (m_next_request m + 1)"
  define j where "j = no_job\<lparr>j_kind := JobQueueTrack, j_rpc := ''QueueTrack'', j_command := ''QueueTrack'',
            j_body := queue_track_json (s_slug (station_at m a)) location title artist cover mode,
            j_station_id := i, j_station := Some a, j_request_id := r\<rparr>"
  define v where "v = JObject [(''slug'', JString (s_slug (station_at m a))),
      (''source'', source_value location title artist cover), (''mode'', JString (queue_mode_to_proto mode))]"
  have q: "queue_track i location title artist cover mode m = (r, m\<lparr>m_next_request := r, m_jobs := m_jobs m @ [j]\<rparr>)"
    using Some by (simp add: queue_track_def enqueue_request_def next_request_def enqueue_def Let_def r_def j_def no_job_def)
  have p: "json_parse (j_body j) = Inr v" by (simp add: j_def v_def queue_track_json_parse)
  have src: "get v ''source'' = source_value location title artist cover" by (simp add: v_def get_def)
  have rest: "get_str v ''slug'' [] = s_slug (station_at m a)"
      "get_str v ''mode'' [] = queue_mode_to_proto mode" by (simp_all add: v_def get_str_def get_def)
  have ans: "pushed m2 (finish_job now j (Inr u) m2) =
             [no_event\<lparr>ev_kind := EvTrackQueued, ev_station := i, ev_request := r,
                ev_queue_id := get_str u ''queueId'' [], ev_text := get_str u ''status'' [],
                ev_num2 := get_int u ''queuePosition'' 0, ev_flag := True\<rparr>]" for now u m2
    by (simp add: finish_job_def handle_job_response_def j_def)
  have type: "source_type_for location = (if take 7 location = ''http://'' \<or> take 8 location = ''https://''
             then ''TRACK_SOURCE_TYPE_HTTP_URL'' else ''TRACK_SOURCE_TYPE_LOCAL_FILE'')"
    by (simp add: source_type_for_def starts_with_def numeral_eq_Suc)
  have mode: "queue_mode_to_proto mode = (if mode = 1 then ''QUEUE_MODE_PLAY_NEXT''
            else if mode = 2 then ''QUEUE_MODE_PLAY_NOW_INTERRUPT'' else ''QUEUE_MODE_APPEND'')"
    by (simp add: queue_mode_to_proto_def k_queue_play_next_def k_queue_play_now_interrupt_def)
  show ?thesis
    unfolding Some option.case
    by (intro exI [of _ j] exI [of _ r] exI [of _ v] conjI allI q r_def p rest(1) ans)
      (simp_all only: src rest(2) type mode source_fields, simp add: j_def)
qed (simp add: queue_track_def)

section \<open>The status cache\<close>

lemma station_at_upd [simp]: "a < length (m_heap m) \<Longrightarrow> station_at (upd_station a f m) a = f (station_at m a)"
  by (simp add: station_at_def upd_station_def)

lemma find_station_kept [simp]:
  "find_station (upd_station a f m) i = find_station m i" "find_station (push_event e m) i = find_station m i"
  by (simp_all add: find_station_def push_event_def)

lemma whole_seconds_pos: "0 \<le> ns \<Longrightarrow> whole_seconds ns = ns div 1000000000"
  by (simp add: whole_seconds_def)

definition track_time :: "json \<Rightarrow> int \<Rightarrow> int" where
  "track_time v secs =
     (let e = get_int v ''currentTrackElapsedSeconds'' 0; d = get_int (get v ''currentTrack'') ''durationSeconds'' 0 in
      if is_null (get v ''currentTrack'') \<or> get_bool v ''isPaused'' False \<or> secs = 0 then e
      else if 0 < d then min d (e + secs) else e + secs)"

lemma status_after:
  assumes "find_station m i = Some a" "a < length (m_heap m)" "j_kind j = JobStatus" "j_station j = Some a" "t \<le> now"
  shows "get_status now (handle_job_response t j v m) i =
    Some ((status_from_json t v)\<lparr>ss_elapsed := track_time v ((now - t) div 1000000000)\<rparr>)"
proof -
  have "find_station (handle_job_response t j v m) i = Some a"
    and "s_status (station_at (handle_job_response t j v m) a) = status_from_json t v"
    using assms by (simp_all add: handle_job_response_def apply_status_def) (simp add: station_at_def push_event_def upd_station_def)
  then have g: "get_status now (handle_job_response t j v m) i = Some (carry_elapsed now (status_from_json t v))"
    by (simp add: get_status_def)
  define secs where "secs = (now - t) div 1000000000"
  have w: "whole_seconds (now - t) = secs" "0 \<le> secs"
    using assms(5) by (simp_all add: whole_seconds_pos secs_def pos_imp_zdiv_nonneg_iff)
  then show ?thesis
    unfolding g secs_def [symmetric]
    by (auto simp: carry_elapsed_def status_from_json_def track_time_def Let_def track_from_json_def min_def)
qed

text \<open>
  C24
  Once a status answer has been stored, the getters show what it said from then on, its queue
  and history included, with the elapsed time advanced by the whole seconds since and cut to a known
  duration, unless the track is paused, there is none, or no second has passed. So the shown time never runs
  backwards and stays within a known duration if the answer itself kept to it. If it did not, the getter shows
  the answer's own value for a second and jumps back to the duration then.
\<close>

theorem status_is_carried_forward:
  assumes "find_station m i = Some a" "a < length (m_heap m)" "j_kind j = JobStatus" "j_station j = Some a"
    and "t \<le> now" "now \<le> later"
    and "d = get_int (get v ''currentTrack'') ''durationSeconds'' 0"
    and "e = get_int v ''currentTrackElapsedSeconds'' 0"
  shows "\<exists>st st'. get_status now (handle_job_response t j v m) i = Some st
    \<and> get_status later (handle_job_response t j v m) i = Some st'
    \<and> ss_valid st \<and> ss_listener_count st = get_int v ''listenerCount'' 0
    \<and> ss_has_current st = (\<not> is_null (get v ''currentTrack'')) \<and> ss_is_paused st = get_bool v ''isPaused'' False
    \<and> length (ss_queue st) = json_size (get v ''queue'') \<and> ss_queue_length st = int (json_size (get v ''queue''))
    \<and> (\<forall>k < json_size (get v ''queue''). ss_queue st ! k = track_from_json (json_at (get v ''queue'') k) no_track)
    \<and> (\<forall>k < json_size (get v ''history''). tr_reason (ss_history st ! k) = get_str (json_at (get v ''history'') k) ''reason'' [])
    \<and> ss_elapsed st = (if \<not> ss_has_current st \<or> ss_is_paused st \<or> now - t < 1000000000 then e
         else if 0 < d then min d (e + (now - t) div 1000000000) else e + (now - t) div 1000000000)
    \<and> (e \<le> d \<or> d \<le> 0 \<longrightarrow> e \<le> ss_elapsed st \<and> ss_elapsed st \<le> ss_elapsed st' \<and> (0 < d \<longrightarrow> ss_elapsed st' \<le> d))
    \<and> (0 < d \<and> d < e \<and> ss_has_current st \<and> \<not> ss_is_paused st \<and> now - t < 1000000000 \<and> 1000000000 \<le> later - t
         \<longrightarrow> ss_elapsed st = e \<and> ss_elapsed st' = d)"
proof -
  let ?st = "(status_from_json t v)\<lparr>ss_elapsed := track_time v ((now - t) div 1000000000)\<rparr>"
  let ?st' = "(status_from_json t v)\<lparr>ss_elapsed := track_time v ((later - t) div 1000000000)\<rparr>"
  have s: "get_status now (handle_job_response t j v m) i = Some ?st"
      "get_status later (handle_job_response t j v m) i = Some ?st'"
    using assms by (intro status_after; simp)+
  have n: "0 \<le> (now - t) div 1000000000" "(now - t) div 1000000000 \<le> (later - t) div 1000000000"
    using assms(5,6) by (simp_all add: pos_imp_zdiv_nonneg_iff zdiv_mono1)
  have zero: "(now - t) div 1000000000 = 0 \<longleftrightarrow> now - t < 1000000000" "1000000000 \<le> later - t \<Longrightarrow> 0 < (later - t) div 1000000000"
    using assms(5) by (auto simp: zdiv_eq_0_iff pos_imp_zdiv_pos_iff)
  have fields: "ss_valid ?st" "ss_listener_count ?st = get_int v ''listenerCount'' 0"
      "ss_has_current ?st = (\<not> is_null (get v ''currentTrack''))" "ss_is_paused ?st = get_bool v ''isPaused'' False"
      "ss_queue_length ?st = int (json_size (get v ''queue''))"
    by (simp_all add: status_from_json_def Let_def tracks_from_def)
  have exact: "ss_elapsed ?st = (if \<not> ss_has_current ?st \<or> ss_is_paused ?st \<or> now - t < 1000000000 then e
         else if 0 < d then min d (e + (now - t) div 1000000000) else e + (now - t) div 1000000000)"
    unfolding fields(3,4) using assms(7,8) by (simp add: track_time_def zero(1))
  have mono: "e \<le> d \<or> d \<le> 0 \<longrightarrow> e \<le> ss_elapsed ?st \<and> ss_elapsed ?st \<le> ss_elapsed ?st' \<and> (0 < d \<longrightarrow> ss_elapsed ?st' \<le> d)"
    using n assms(7,8) by (auto simp: track_time_def Let_def)
  have jump: "0 < d \<and> d < e \<and> ss_has_current ?st \<and> \<not> ss_is_paused ?st \<and> now - t < 1000000000 \<and> 1000000000 \<le> later - t
         \<longrightarrow> ss_elapsed ?st = e \<and> ss_elapsed ?st' = d"
    unfolding fields(3,4) using assms(7,8) zero by (auto simp: track_time_def Let_def)
  have lists: "length (ss_queue ?st) = json_size (get v ''queue'')"
      "\<forall>k < json_size (get v ''queue''). ss_queue ?st ! k = track_from_json (json_at (get v ''queue'') k) no_track"
      "\<forall>k < json_size (get v ''history''). tr_reason (ss_history ?st ! k) = get_str (json_at (get v ''history'') k) ''reason'' []"
    by (simp_all add: status_from_json_def Let_def tracks_from_def history_from_def)
  show ?thesis using s exact mono jump lists fields by blast
qed

definition example_status :: json where
  "example_status = JObject [(''currentTrack'', JObject [(''durationSeconds'', JNumber ''180'')]),
     (''currentTrackElapsedSeconds'', JNumber ''10''), (''listenerCount'', JNumber ''7'')]"

lemma status_is_carried_forward_witness:
  "\<exists>st st'. get_status 0 (handle_job_response 0 (no_job\<lparr>j_kind := JobStatus, j_station := Some 0\<rparr>) example_status example_mgr) 0
       = Some st
     \<and> get_status 5000000000 (handle_job_response 0 (no_job\<lparr>j_kind := JobStatus, j_station := Some 0\<rparr>) example_status
         example_mgr) 0 = Some st'
     \<and> ss_valid st \<and> ss_elapsed st \<le> ss_elapsed st' \<and> ss_elapsed st' \<le> 180"
proof -
  have "find_station example_mgr 0 = Some 0" by (simp add: find_station_def example_mgr_fields)
  moreover have "get_int (get example_status ''currentTrack'') ''durationSeconds'' 0 = 180"
      "get_int example_status ''currentTrackElapsedSeconds'' 0 = 10"
    by (simp_all add: example_status_def get_int_def get_def strtoll_def strto_value_def c_str_def is_cspace_def
        drop_sign_def digit_val_def is_digit_def byte_def clamp_def)
  ultimately show ?thesis
    using status_is_carried_forward [of example_mgr 0 0 "no_job\<lparr>j_kind := JobStatus, j_station := Some 0\<rparr>" 0 0 5000000000
        180 example_status 10]
    by (auto simp: example_mgr_fields)
qed

section \<open>Registering, again and again\<close>

lemma next_backoff_iterate: "(next_backoff ^^ k) k_min_backoff = min k_max_backoff (k_min_backoff * 2 ^ k)"
  by (induction k) (auto simp: next_backoff_def k_min_backoff_def k_max_backoff_def min_def)

text \<open>
  C25
  The answer to a registration: accepted, the station is registered with the stream's address,
  one callback says so and the thread goes on to the status; refused for good, it is not
  registered, one error callback says why and the thread ends; failed otherwise, nothing is said
  and the thread tries again, after the (k+1)st failure with twice the delay of before, from one
  up to at most thirty seconds.
\<close>

theorem registration_outcome:
  assumes "a < length (m_heap m)" "a < length (m_threads m)"
  shows "let m' = thread_registered a ((next_backoff ^^ k) k_min_backoff) rc r m; i = s_id (station_at m a) in
    case r of
      Inr v \<Rightarrow> t_phase (m_threads m' ! a) = Refreshing rc \<and> s_registered (station_at m' a)
        \<and> s_stream_url (station_at m' a) = get_str v ''streamUrl'' []
        \<and> pushed m m' = [no_event\<lparr>ev_kind := EvStationRegistered, ev_station := i, ev_text := get_str v ''streamUrl'' [],
              ev_flag := get_bool v ''reRegistered'' False, ev_num1 := (if rc then 1 else 0)\<rparr>]
    | Inl e \<Rightarrow> \<not> s_registered (station_at m' a)
        \<and> (if permanent e then t_phase (m_threads m' ! a) = Finished \<and> pushed m m' = [error_event i e]
           else t_phase (m_threads m' ! a) = Registering (min 30000 (1000 * 2 ^ (k + 1))) rc \<and> pushed m m' = [])"
proof -
  have b: "next_backoff ((next_backoff ^^ k) k_min_backoff) = min 30000 (1000 * 2 ^ (k + 1))"
    using next_backoff_iterate [of "Suc k"] by (simp add: k_min_backoff_def k_max_backoff_def)
  have t: "t_phase (m_threads (go a p m1) ! a) = p" if "length (m_threads m1) = length (m_threads m)" for p m1
    using assms(2) that by (simp add: go_def upd_thread_def)
  have heap: "station_at (go a p m1) a = station_at m1 a" "station_at (push_event e m1) a = station_at m1 a"
      "station_at (push_error i err m1) a = station_at m1 a" for p m1 e i err
    by (simp_all add: station_at_def go_def upd_thread_def push_event_def push_error_def)
  show ?thesis
    using assms(1) b
    by (cases r) (simp_all add: Let_def thread_registered_def registration_done_def t heap pushed_none error_event_def)
qed

lemma registration_outcome_witness:
  "t_phase (m_threads (thread_registered 0 ((next_backoff ^^ 5) k_min_backoff) True
      (Inl \<lparr>e_code = ''unavailable'', e_message = [], e_status = 503\<rparr>) example_mgr) ! 0) = Registering 30000 True"
  using registration_outcome [of 0 example_mgr 5 True "Inl \<lparr>e_code = ''unavailable'', e_message = [], e_status = 503\<rparr>"]
  by (simp add: example_mgr_fields permanent_def Let_def)

section \<open>The configuration under stations\<close>

lemma connection_differs_self [simp]: "\<not> connection_differs c c" "\<not> connection_differs c (c\<lparr>poll_interval_ms := p\<rparr>)"
  by (simp_all add: connection_differs_def)

definition same_connection :: "mgr \<Rightarrow> mgr \<Rightarrow> bool" where
  "same_connection m m' \<longleftrightarrow> m_url m' = m_url m \<and> \<not> connection_differs (m_config m) (m_config m')"

lemma configure_refused: "m_stations m \<noteq> [] \<Longrightarrow> snd (configure lb tls net cfg m) = m"
  by (simp add: configure_def check_config_def)

text \<open>
  While stations exist nothing changes the server they are registered with: whatever is called
  or any thread does, URL, token, timeout and number of workers stay, and a reload applies at
  most a new poll interval.
\<close>

lemma connection_is_fixed_under_stations:
  assumes "mgr_step lb tls m m'" "m_stations m \<noteq> []"
  shows "m_url m' = m_url m \<and> cfg_url (m_config m') = cfg_url (m_config m) \<and> cfg_token (m_config m') = cfg_token (m_config m)
    \<and> timeout_ms (m_config m') = timeout_ms (m_config m) \<and> workers (m_config m') = workers (m_config m)
    \<and> (fst (reload lb tls net cfg m) = ReloadApplied \<longrightarrow> \<not> connection_differs (m_config m) cfg)"
proof -
  have frame: "same_connection m m'" if "thread_frame m m'" for m'
    using that by (simp add: thread_frame_def same_connection_def)
  have "same_connection m m'"
    using assms(1)
  proof cases
    case step_main
    from step_main(2) show ?thesis
    proof cases
      case (call_reload net cfg)
      show ?thesis
        unfolding call_reload reload_state Let_def
        using assms(2) by (simp add: same_connection_def configure_refused)
    qed (simp_all add: same_connection_def configure_refused [OF assms(2)] create_station_def destroy_station_def
        set_metadata_def clear_metadata_def update_station_def queue_track_def slug_command_def enqueue_command_def
        enqueue_request_def next_request_def enqueue_def refresh_def refresh_status_def request_station_list_def tick_def
        shutdown_def upd_station_def Let_def split: option.split)
  next
    case (step_resume net)
    then show ?thesis
      by (auto simp: main_resume_def start_workers_def shutdown_finished_def destroy_joined_def shutdown_joined_def
          stop_workers_def enqueue_def upd_station_def same_connection_def Let_def split: main_pc.split)
  qed (simp_all add: frame mgr_frame)
  moreover have "fst (reload lb tls net cfg m) = ReloadApplied \<longrightarrow> \<not> connection_differs (m_config m) cfg"
    using assms(2) by (auto simp: reload_def configure_def check_config_def Let_def split: prod.split option.split)
  ultimately show ?thesis by (auto simp: same_connection_def connection_differs_def)
qed

lemma connection_is_fixed_under_stations_witness:
  "m_url example_skip = m_url example_mgr \<and> workers (m_config example_skip) = workers (m_config example_mgr)"
  using connection_is_fixed_under_stations [OF example_skip_step] by (simp add: example_mgr_fields)

end
