(* ===== verification/Manager_Stopping.thy ===== *)
theory Manager_Stopping
  imports Manager_Commands Event_Framing
begin

text \<open>
  Taking a station down: its thread is marked, other threads go on, and the main thread waits
  until it has ended. The bound on its remaining steps is a potential that every step of its own
  lowers, except one that reads another event.
\<close>

section \<open>Steps of the others\<close>

inductive other_step :: "nat \<Rightarrow> bool \<Rightarrow> nat \<Rightarrow> mgr \<Rightarrow> mgr \<Rightarrow> bool" for lb tls a where
  other_main: "m_pc m = MainIdle \<Longrightarrow> main_call lb tls m m' \<Longrightarrow> other_step lb tls a m m'"
| other_resume: "other_step lb tls a m (main_resume tls net m)"
| other_worker: "i < length (m_workers m) \<Longrightarrow> other_step lb tls a m (worker_step lb now i m)"
| other_stream: "b < length (m_threads m) \<Longrightarrow> b \<noteq> a \<Longrightarrow> other_step lb tls a m (stream_step lb now b m)"
| other_poller: "other_step lb tls a m (poller_step m)"

lemma other_step_mgr: "other_step lb tls a m m' \<Longrightarrow> mgr_step lb tls m m'"
  by (induction rule: other_step.induct) (auto intro: mgr_step.intros)

text \<open>
  A run with \<open>n\<close> steps of thread \<open>a\<close>, \<open>k\<close> of them reads that brought an event, and any number of
  steps of the others in between.
\<close>

definition event_arrives :: "nat \<Rightarrow> mgr \<Rightarrow> bool" where
  "event_arrives a m \<longleftrightarrow> (case t_phase (m_threads m ! a) of ReadDone (Event v) \<Rightarrow> True | _ \<Rightarrow> False)"

inductive thread_run :: "nat \<Rightarrow> bool \<Rightarrow> nat \<Rightarrow> mgr \<Rightarrow> nat \<Rightarrow> nat \<Rightarrow> mgr \<Rightarrow> bool" for lb tls a m where
  run_start: "thread_run lb tls a m 0 0 m"
| run_own: "thread_run lb tls a m n k m' \<Longrightarrow> m'' = stream_step lb now a m' \<Longrightarrow>
    thread_run lb tls a m (Suc n) (if event_arrives a m'' then Suc k else k) m''"
| run_other: "thread_run lb tls a m n k m' \<Longrightarrow> m_next_station m' < int_max \<Longrightarrow> other_step lb tls a m' m'' \<Longrightarrow>
    thread_run lb tls a m n k m''"

section \<open>A stopping station stays so\<close>

definition stopping :: "mgr \<Rightarrow> nat \<Rightarrow> bool" where
  "stopping m a \<longleftrightarrow> a < length (m_heap m) \<and> a < length (m_threads m) \<and> s_stopping (m_heap m ! a)"

lemma stopping_upd:
  "(\<And>s. s_stopping s \<Longrightarrow> s_stopping (f s)) \<Longrightarrow> stopping m a \<Longrightarrow> stopping (upd_station b f m) a"
  by (cases "a = b") (simp_all add: stopping_def upd_station_def)

lemma stopping_fold:
  "(\<And>s. s_stopping s \<Longrightarrow> s_stopping (f s)) \<Longrightarrow> stopping m a \<Longrightarrow> stopping (fold (\<lambda>b. upd_station b f) bs m) a"
  by (induction bs arbitrary: m) (simp_all add: stopping_upd)

lemma stopping_frame: "thread_frame m m' \<Longrightarrow> stopping m a \<Longrightarrow> stopping m' a"
  by (simp add: thread_frame_def same_identity_def stopping_def)

lemma stopping_fields [simp]:
  "stopping (m\<lparr>m_stations := s\<rparr>) a = stopping m a" "stopping (m\<lparr>m_pc := p\<rparr>) a = stopping m a"
  "stopping (m\<lparr>m_config := c\<rparr>) a = stopping m a" "stopping (m\<lparr>m_url := u\<rparr>) a = stopping m a"
  "stopping (m\<lparr>m_configured := b\<rparr>) a = stopping m a" "stopping (m\<lparr>m_running := r\<rparr>) a = stopping m a"
  "stopping (m\<lparr>m_jobs := js\<rparr>) a = stopping m a" "stopping (m\<lparr>m_workers := ws\<rparr>) a = stopping m a"
  "stopping (m\<lparr>m_poller := q\<rparr>) a = stopping m a" "stopping (m\<lparr>m_dispatch := d\<rparr>) a = stopping m a"
  "stopping (m\<lparr>m_next_request := k\<rparr>) a = stopping m a" "stopping (enqueue j m) a = stopping m a"
  by (simp_all add: stopping_def enqueue_def)

lemma stopping_configure: "stopping m a \<Longrightarrow> stopping (snd (configure lb tls net cfg m)) a"
  by (simp add: configure_def stop_workers_def start_workers_def Let_def split: sum.split)

lemma stopping_main_call:
  assumes "main_call lb tls m m'" "stopping m a"
  shows "stopping m' a"
  using assms(1)
proof cases
  case (call_reload net cfg)
  show ?thesis
    unfolding call_reload reload_state Let_def using assms(2) by (simp add: stopping_configure)
next
  case (call_create net slug name description threshold logo)
  then show ?thesis using assms(2) by (simp add: create_station_def Let_def stopping_def nth_append)
qed (use assms(2) in \<open>auto simp: stopping_configure destroy_station_def set_metadata_def clear_metadata_def
    update_station_def queue_track_def slug_command_def enqueue_command_def enqueue_request_def next_request_def
    refresh_def refresh_status_def request_station_list_def tick_def shutdown_def Let_def
    intro!: stopping_upd stopping_fold split: option.split\<close>)

lemma stopping_resume: "stopping m a \<Longrightarrow> stopping (main_resume tls net m) a"
  by (auto simp: main_resume_def start_workers_def shutdown_finished_def destroy_joined_def shutdown_joined_def
      stop_workers_def Let_def intro!: stopping_upd stopping_fold split: main_pc.split)

lemma stopping_step: "mgr_step lb tls m m' \<Longrightarrow> stopping m a \<Longrightarrow> stopping m' a"
  by (erule mgr_step.cases)
    (auto intro: stopping_main_call stopping_resume stopping_frame frame_worker_step frame_stream_step frame_poller_step)

text \<open>The others leave the thread where it is.\<close>

lemma threads_configure [simp]: "m_threads (snd (configure lb tls net cfg m)) = m_threads m"
  by (simp add: configure_def stop_workers_def start_workers_def Let_def split: sum.split)

lemma threads_main_call:
  assumes "main_call lb tls m m'" "a < length (m_threads m)"
  shows "m_threads m' ! a = m_threads m ! a"
  using assms(1)
  by cases (use assms(2) in \<open>simp_all add: reload_state create_station_def nth_append destroy_station_def set_metadata_def
      clear_metadata_def update_station_def queue_track_def slug_command_def enqueue_command_def
      request_station_list_def tick_def shutdown_def Let_def split: option.split\<close>)

lemma threads_resume: "m_threads (main_resume tls net m) = m_threads m"
  by (simp add: main_resume_def start_workers_def shutdown_finished_def destroy_joined_def shutdown_joined_def
      stop_workers_def Let_def split: main_pc.split)

lemma other_step_thread:
  "other_step lb tls a m m' \<Longrightarrow> a < length (m_threads m) \<Longrightarrow> m_threads m' ! a = m_threads m ! a"
  by (erule other_step.cases) (simp_all add: threads_main_call threads_resume other_thread_kept)

section \<open>The steps that are left\<close>

fun steps_left :: "stream_phase \<Rightarrow> nat" where
  "steps_left Finished = 0"
| "steps_left (Registering b rc) = 1"
| "steps_left (RegisterCalling b rc body) = 4"
| "steps_left (RegisterAnswered b rc r) = 3"
| "steps_left (Refreshing rc) = 2"
| "steps_left Subscribing = 1"
| "steps_left (Opening slug) = 4"
| "steps_left (SubscribeAnswered r) = 3"
| "steps_left Reading = 2"
| "steps_left (ReadDone (Event v)) = 3"
| "steps_left (ReadDone r) = 1"

lemma steps_left_bounds: "steps_left p \<le> 4" "p \<noteq> Finished \<Longrightarrow> 1 \<le> steps_left p"
  by (induction p rule: steps_left.induct) simp_all

lemma phase_go: "a < length (m_threads m) \<Longrightarrow> t_phase (m_threads (go a p m) ! a) = p"
  by (simp add: go_def upd_thread_def)

lemma phase_set: "a < length (m_threads m) \<Longrightarrow> (\<And>t. t_phase (f t) = p) \<Longrightarrow> t_phase (m_threads (upd_thread a f m) ! a) = p"
  by (simp add: upd_thread_def)

lemma length_upd_thread [simp]: "length (m_threads (upd_thread a f m)) = length (m_threads m)"
  by (simp add: upd_thread_def)

lemma dropped_stopping:
  "stopping m a \<Longrightarrow> thread_gone (thread_dropped a st m) a"
  by (simp add: thread_dropped_def Let_def quitting_def station_at_def stopping_def thread_gone_def phase_go)

text \<open>One step of the thread of a stopping station.\<close>

lemma own_step:
  assumes "stopping m a" "streams_ok m" "t_phase (m_threads m ! a) \<noteq> Finished"
  shows "steps_left (t_phase (m_threads (stream_step lb now a m) ! a)) + 1
    \<le> steps_left (t_phase (m_threads m ! a)) + (if event_arrives a (stream_step lb now a m) then 2 else 0)"
proof -
  have q: "quitting a m" "s_stopping (station_at m a)" "a < length (m_threads m)"
    using assms(1) by (simp_all add: stopping_def quitting_def station_at_def)
  obtain st where st: "s_stream (station_at m a) = Some st"
    using assms by (auto simp: streams_ok_def stopping_def thread_gone_def station_at_def)
  show ?thesis
  proof (cases "t_phase (m_threads m ! a)")
    case (Registering b rc)
    then show ?thesis using q by (simp add: stream_step_def thread_register_def register_body_def phase_go)
  next
    case (RegisterCalling b rc body)
    then show ?thesis
      using q by (simp add: stream_step_def thread_call_def phase_set event_arrives_def split: prod.split)
  next
    case (RegisterAnswered b rc r)
    obtain x m1 where r: "registration_done a rc r m = (x, m1)" by fastforce
    with threads_registration [OF r] RegisterAnswered q show ?thesis
      by (cases x) (simp_all add: stream_step_def thread_registered_def phase_go)
  next
    case (Refreshing rc)
    then show ?thesis using q by (simp add: stream_step_def thread_refresh_def phase_go)
  next
    case Subscribing
    then show ?thesis using q by (simp add: stream_step_def thread_subscribe_def phase_go)
  next
    case (Opening slug)
    then show ?thesis using q st
      by (simp add: stream_step_def thread_open_def phase_go event_arrives_def split: prod.split)
  next
    case (SubscribeAnswered r)
    then show ?thesis using q by (cases r) (simp_all add: stream_step_def thread_subscribed_def phase_go)
  next
    case Reading
    obtain r st' where "stream_read lb k_stream_read_timeout st = (r, st')" by fastforce
    with Reading q st show ?thesis
      by (cases r) (simp_all add: stream_step_def thread_read_def phase_go event_arrives_def)
  next
    case (ReadDone r)
    with dropped_stopping [OF assms(1), of st] q st show ?thesis
      by (cases r) (simp_all add: stream_step_def thread_read_done_def phase_go thread_gone_def)
  qed (use assms(3) in simp)
qed

lemma thread_run_bound:
  assumes "thread_run lb tls a m n k m'" "mgr_ok lb tls m" "stopping m a"
  shows "mgr_ok lb tls m' \<and> stopping m' a
    \<and> (thread_gone m' a \<or> n + steps_left (t_phase (m_threads m' ! a)) \<le> steps_left (t_phase (m_threads m ! a)) + 2 * k)"
  using assms(1)
proof induction
  case (run_own n k m' m'' now)
  have ok: "mgr_ok lb tls m''" "stopping m'' a"
    using run_own.IH run_own.hyps(2) stream_step_ok stopping_frame [OF frame_stream_step] by blast+
  show ?case
  proof (cases "thread_gone m' a")
    case True
    then have "thread_gone m'' a" using run_own.hyps(2) gone_stream_step by simp
    with ok show ?thesis by simp
  next
    case False
    then show ?thesis
      using own_step [of m' a lb now] run_own.IH run_own.hyps(2) ok
      by (auto simp: thread_gone_def mgr_ok_def)
  qed
next
  case (run_other n k m' m'')
  then have step: "mgr_step lb tls m' m''" by (intro other_step_mgr)
  moreover have "m_threads m'' ! a = m_threads m' ! a"
    using other_step_thread [OF run_other.hyps(3)] run_other.IH by (simp add: stopping_def)
  ultimately show ?case
    using run_other.IH mgr_step_ok [OF step _ run_other.hyps(2)] stopping_step [OF step] by (simp add: thread_gone_def)
qed (use assms in simp)

lemma run_ends:
  assumes "mgr_ok lb tls m" "stopping m a" "thread_run lb tls a m n k m'" "2 * k + 4 \<le> n"
  shows "thread_gone m' a"
proof (rule ccontr)
  assume alive: "\<not> thread_gone m' a"
  with thread_run_bound [OF assms(3,1,2)]
  have "n + steps_left (t_phase (m_threads m' ! a)) \<le> steps_left (t_phase (m_threads m ! a)) + 2 * k" by simp
  moreover have "steps_left (t_phase (m_threads m ! a)) \<le> 4" by (rule steps_left_bounds)
  moreover have "1 \<le> steps_left (t_phase (m_threads m' ! a))"
    using alive by (intro steps_left_bounds) (simp add: thread_gone_def)
  ultimately show False using assms(4) by linarith
qed

text \<open>
  C7
  The thread of a station that is being destroyed ends: however its steps are mixed with those of
  all other threads and the main thread, at most four of its own, and two more for every event
  that still arrives, are left.
\<close>

theorem stopping_threads_end:
  assumes "reachable lb tls m" "a < length (m_heap m)" "s_stopping (station_at m a)"
    and "thread_run lb tls a m n k m'" "2 * k + 4 \<le> n"
  shows "thread_gone m' a"
proof -
  have ok: "mgr_ok lb tls m" using reachable_ok [OF assms(1)] .
  then have "stopping m a" using assms(2,3) by (simp add: stopping_def station_at_def mgr_ok_def objects_ok_def)
  with ok show ?thesis using run_ends assms(4,5) by blast
qed

definition example_leaving :: mgr where
  "example_leaving = snd (destroy_station 0 example_mgr)"

lemma example_leaving_fields:
  "reachable 64 False example_leaving" "0 < length (m_heap example_leaving)" "s_stopping (station_at example_leaving 0)"
proof -
  have "mgr_step 64 False example_mgr example_leaving"
    unfolding example_leaving_def by (intro step_main call_destroy) (simp add: example_mgr_fields)
  then show "reachable 64 False example_leaving"
    by (rule reach_step [OF example_mgr_reachable, rotated -1]) (simp_all add: example_mgr_fields)
  show "0 < length (m_heap example_leaving)" "s_stopping (station_at example_leaving 0)"
    by (simp_all add: example_leaving_def destroy_station_def find_station_def example_mgr_fields station_at_def upd_station_def)
qed

lemma stopping_threads_end_witness:
  "thread_gone ((stream_step 64 0 0 ^^ 4) example_leaving) 0"
proof -
  let ?s = "stream_step 64 0 0"
  have t: "t_phase (m_threads example_leaving ! 0) = Registering k_min_backoff False" "0 < length (m_threads example_leaving)"
    by (simp_all add: example_leaving_def destroy_station_def find_station_def example_mgr_fields)
  have g: "thread_gone (?s example_leaving) 0"
    using t example_leaving_fields(3)
    by (simp add: stream_step_def thread_register_def register_body_def quitting_def thread_gone_def phase_go)
  have "thread_gone ((?s ^^ Suc n) example_leaving) 0" for n by (induction n) (simp_all add: g gone_stream_step)
  then have quiet: "\<not> event_arrives 0 ((?s ^^ Suc n) example_leaving)" for n
    by (simp add: event_arrives_def thread_gone_def)
  have "thread_run 64 False 0 example_leaving n 0 ((?s ^^ n) example_leaving)" for n
  proof (induction n)
    case (Suc n)
    from run_own [OF this refl, of 0] quiet [of n] show ?case by simp
  qed (simp add: run_start)
  from stopping_threads_end [OF example_leaving_fields this [of 4]] show ?thesis by simp
qed

section \<open>A read that never moves on\<close>

lemma heap_rest [simp]:
  "m_heap (push_event e m) = m_heap m" "m_heap (push_error i err m) = m_heap m" "m_heap (enqueue j m) = m_heap m"
  "m_heap (upd_thread a h m) = m_heap m" "m_heap (go a p m) = m_heap m" "m_heap (snd (enqueue_request j m)) = m_heap m"
  by (simp_all add: push_event_def push_error_def enqueue_def upd_thread_def go_def enqueue_request_def next_request_def Let_def)

lemma heap_refresh [simp]: "m_heap (refresh i m) = m_heap m"
  by (simp add: refresh_def refresh_status_def split: option.split)

lemma stream_upd_status [simp]: "s_stream (m_heap (upd_status a f m) ! b) = s_stream (m_heap m ! b)"
  unfolding upd_status_def by (rule upd_fields_kept) simp

lemma stream_dispatch: "s_stream (m_heap (dispatch_station_event now a v m) ! b) = s_stream (m_heap m ! b)"
  by (simp add: dispatch_station_event_def Let_def)

definition stuck :: "nat \<Rightarrow> stream \<Rightarrow> json \<Rightarrow> mgr \<Rightarrow> bool" where
  "stuck a st v m \<longleftrightarrow> a < length (m_heap m) \<and> a < length (m_threads m) \<and> s_stream (m_heap m ! a) = Some st
     \<and> (t_phase (m_threads m ! a) = Reading \<or> t_phase (m_threads m ! a) = ReadDone (Event v))"

lemma stuck_step:
  assumes "stream_read lb k_stream_read_timeout st = (Event v, st)" "stuck a st v m"
  shows "stuck a st v (stream_step lb now a m)"
proof (cases "t_phase (m_threads m ! a) = Reading")
  case True
  have "stuck a st v (go a (ReadDone (Event v)) (set_stream a st m))"
    using assms(2) by (simp add: stuck_def set_stream_def upd_station_def phase_go) (simp add: go_def)
  then show ?thesis
    using assms True by (simp add: stream_step_def thread_read_def station_at_def stuck_def)
next
  case False
  have l: "length (m_heap (dispatch_station_event now a v m)) = length (m_heap m)"
    using frame_dispatch [OF thread_frame_refl, of m now a v] by (simp add: thread_frame_def)
  have "stuck a st v (go a Reading (dispatch_station_event now a v m))"
    using assms(2) l by (simp add: stuck_def stream_dispatch phase_go) (simp add: go_def)
  then show ?thesis
    using assms(2) False by (simp add: stream_step_def thread_read_done_def station_at_def stuck_def)
qed

text \<open>
  C35
  Where \<^verbatim>\<open>unsigned long\<close> has 32 bits, one envelope with the length \<open>2 ^ 32 - 5\<close> keeps its thread from
  ever ending, even when its station is stopping: \<^verbatim>\<open>5 + length\<close> wraps to zero, what is buffered is
  taken for the whole message and stays, so every read reports the same event at once, and
  \<^verbatim>\<open>StreamLoop\<close> looks at the stopping flag only after a quiet read. The main thread, joining in
  \<^verbatim>\<open>DestroyStation\<close>, waits for ever.
\<close>

theorem oversized_length_blocks_destroy:
  assumes "a < length (m_heap m)" "a < length (m_threads m)" "t_phase (m_threads m ! a) = Reading"
    and "s_stream (station_at m a) = Some st" "json_parse text = Inr v" "length text \<le> 2 ^ 32 - 5" "st_pos st = 0"
    and "st_pending st = [char_of (0::nat), char_of (255::nat), char_of (255::nat), char_of (255::nat),
      char_of (251::nat)] @ text"
  shows "\<not> thread_gone ((stream_step 32 now a ^^ n) m) a
    \<and> (m_pc ((stream_step 32 now a ^^ n) m) = JoiningStation a i \<longrightarrow>
        main_resume tls net ((stream_step 32 now a ^^ n) m) = (stream_step 32 now a ^^ n) m)"
proof -
  have read: "stream_read 32 k_stream_read_timeout st = (Event v, st)"
    by (rule oversized_length_repeats_event) (rule assms)+
  have "stuck a st v m" using assms by (simp add: stuck_def station_at_def)
  then have "stuck a st v ((stream_step 32 now a ^^ n) m)"
    by (induction n) (simp_all add: stuck_step [OF read])
  then have "\<not> thread_gone ((stream_step 32 now a ^^ n) m) a" by (auto simp: stuck_def thread_gone_def)
  then show ?thesis by (simp add: main_resume_def)
qed

definition stuck_stream :: stream where
  "stuck_stream = small_stream\<lparr>st_pending := [char_of (0::nat), char_of (255::nat), char_of (255::nat),
      char_of (255::nat), char_of (251::nat)] @ ''{}''\<rparr>"

lemma oversized_length_blocks_destroy_witness:
  "\<not> thread_gone ((stream_step 32 0 0 ^^ 1000) (go 0 Reading (set_stream 0 stuck_stream example_leaving))) 0"
proof -
  let ?m = "go 0 Reading (set_stream 0 stuck_stream example_leaving)"
  have "length (m_threads example_leaving) = 1"
    by (simp add: example_leaving_def destroy_station_def find_station_def example_mgr_fields)
  then have l: "0 < length (m_heap ?m)" "0 < length (m_threads ?m)"
    using example_leaving_fields(2) by (simp_all add: set_stream_def go_def)
  have t: "t_phase (m_threads ?m ! 0) = Reading" using l(2) by (simp add: go_def upd_thread_def)
  have st: "s_stream (station_at ?m 0) = Some stuck_stream"
    using l(1) by (simp add: station_at_def set_stream_def upd_station_def)
  have json: "json_parse ''{}'' = Inr (JObject [])" by code_simp
  have pending: "length ''{}'' \<le> 2 ^ 32 - 5" "st_pos stuck_stream = 0"
      "st_pending stuck_stream = [char_of (0::nat), char_of (255::nat), char_of (255::nat),
        char_of (255::nat), char_of (251::nat)] @ ''{}''"
    by (simp_all add: stuck_stream_def small_stream_def opened_stream_def)
  show ?thesis using oversized_length_blocks_destroy [OF l t st json pending, of 1000 0] by blast
qed

end
