(* ===== verification/Fair_Runs.thy ===== *)
theory Fair_Runs
  imports Prelude "HOL-Library.Countable"
begin

text \<open>
  Waiting under fairness. A system takes steps in turns; while it waits a rank never rises, and in
  every state there is a turn that lowers it, whenever it comes. If every turn comes again and again, the
  waiting ends.
\<close>

definition fair :: "(nat \<Rightarrow> 't) \<Rightarrow> bool" where
  "fair turns \<longleftrightarrow> (\<forall>t n. \<exists>k\<ge>n. turns k = t)"

lemma fair_shift: "fair turns \<Longrightarrow> fair (\<lambda>k. turns (n + k))"
  unfolding fair_def by (metis le_add_diff_inverse add_leD1 add_le_cancel_left)

locale fair_system =
  fixes step :: "'t \<Rightarrow> 's \<Rightarrow> 's \<Rightarrow> bool"
    and inv :: "'s \<Rightarrow> bool"
    and waiting :: "'s \<Rightarrow> bool"
    and rank :: "'s \<Rightarrow> 'r::wellorder"
    and helps :: "'t \<Rightarrow> 's \<Rightarrow> bool"
  assumes inv_step: "inv s \<Longrightarrow> waiting s \<Longrightarrow> step t s s' \<Longrightarrow> inv s'"
    and rank_step: "inv s \<Longrightarrow> waiting s \<Longrightarrow> step t s s' \<Longrightarrow> waiting s' \<Longrightarrow> rank s' \<le> rank s"
    and some_help: "inv s \<Longrightarrow> waiting s \<Longrightarrow> \<exists>t. helps t s"
    and help_lowers: "inv s \<Longrightarrow> waiting s \<Longrightarrow> helps t s \<Longrightarrow> step t s s' \<Longrightarrow> waiting s' \<Longrightarrow> rank s' < rank s"
    and help_lasts: "inv s \<Longrightarrow> waiting s \<Longrightarrow> helps t s \<Longrightarrow> step u s s' \<Longrightarrow> waiting s' \<Longrightarrow> rank s' = rank s \<Longrightarrow> helps t s'"
begin

lemma waiting_ends:
  assumes run: "\<And>n. step (turns n) (\<sigma> n) (\<sigma> (Suc n))" and "fair turns" and "inv (\<sigma> 0)"
  shows "\<exists>n. \<not> waiting (\<sigma> n)"
proof (rule ccontr)
  assume "\<not> ?thesis"
  then have w: "waiting (\<sigma> n)" for n by blast
  have i: "inv (\<sigma> n)" for n by (induction n) (use assms(3) inv_step [OF _ w run] in auto)
  have falls: "rank (\<sigma> (n + d)) \<le> rank (\<sigma> n)" for n d
    by (induction d) (use rank_step [OF i w run w] in \<open>auto intro: order_trans\<close>)
  have lower: "\<exists>k. rank (\<sigma> k) < rank (\<sigma> n)" for n
  proof (rule ccontr)
    assume "\<not> ?thesis"
    then have same: "rank (\<sigma> (n + d)) = rank (\<sigma> n)" for d using falls [of n d] by (auto simp: not_less intro: antisym)
    obtain t where t: "helps t (\<sigma> n)" using some_help [OF i w] by blast
    have helps: "helps t (\<sigma> (n + d))" for d
    proof (induction d)
      case (Suc d)
      show ?case using help_lasts [OF i w Suc run w] same [of d] same [of "Suc d"] by simp
    qed (simp add: t)
    obtain k where k: "n \<le> k" "turns k = t" using assms(2) unfolding fair_def by blast
    have "rank (\<sigma> (Suc k)) < rank (\<sigma> k)"
      using help_lowers [OF i w _ run w] helps [of "k - n"] k by simp
    moreover have "rank (\<sigma> (Suc k)) = rank (\<sigma> k)"
      using same [of "k - n"] same [of "Suc k - n"] k by (simp add: Suc_diff_le)
    ultimately show False by simp
  qed
  have "rank (\<sigma> n) \<noteq> r" for r n
  proof (induction r arbitrary: n rule: less_induct)
    case (less r)
    then show ?case using lower [of n] by metis
  qed
  then show False by blast
qed

end

section \<open>Waiting for a bounded time\<close>

text \<open>Every \<open>B\<close> turns in a row, among the first \<open>K\<close>, hold one of \<open>t\<close>.\<close>

definition served :: "nat \<Rightarrow> nat \<Rightarrow> (nat \<Rightarrow> 't) \<Rightarrow> 't \<Rightarrow> bool" where
  "served B K turns t \<longleftrightarrow> (\<forall>n. n + B \<le> K \<longrightarrow> (\<exists>d<B. turns (n + d) = t))"

text \<open>
  With a rank that is a number, and the turns that may be needed served within \<open>B\<close> others, the waiting ends
  within \<open>B\<close> turns for each step of the rank. Nothing is asked of the run after that.
\<close>

locale timed_system = fair_system step inv waiting rank helps
  for step :: "'t \<Rightarrow> 's \<Rightarrow> 's \<Rightarrow> bool" and inv :: "'s \<Rightarrow> bool" and waiting :: "'s \<Rightarrow> bool" and rank :: "'s \<Rightarrow> nat"
    and helps :: "'t \<Rightarrow> 's \<Rightarrow> bool" +
  fixes due :: "'t \<Rightarrow> bool"
  assumes due_help: "inv s \<Longrightarrow> waiting s \<Longrightarrow> \<exists>t. due t \<and> helps t s"
begin

lemma ends_within:
  assumes run: "\<And>n. n < K \<Longrightarrow> step (turns n) (\<sigma> n) (\<sigma> (Suc n))" and "\<And>t. due t \<Longrightarrow> served B K turns t"
    and "inv (\<sigma> 0)" "B * Suc (rank (\<sigma> 0)) \<le> K"
  shows "\<exists>n\<le>K. \<not> waiting (\<sigma> n)"
proof (rule ccontr)
  assume "\<not> ?thesis"
  then have w: "n \<le> K \<Longrightarrow> waiting (\<sigma> n)" for n by blast
  have i: "n \<le> K \<Longrightarrow> inv (\<sigma> n)" for n
  proof (induction n)
    case (Suc n)
    then show ?case using inv_step [OF _ w run] by simp
  qed (simp add: assms(3))
  have falls: "n + d \<le> K \<Longrightarrow> rank (\<sigma> (n + d)) \<le> rank (\<sigma> n)" for n d
  proof (induction d)
    case (Suc d)
    then have "rank (\<sigma> (n + Suc d)) \<le> rank (\<sigma> (n + d))" using rank_step [OF i w run w, of "n + d"] by simp
    with Suc show ?case by simp
  qed simp
  have lower: "rank (\<sigma> (n + B)) < rank (\<sigma> n)" if n: "n + B \<le> K" for n
  proof (rule ccontr)
    assume up: "\<not> ?thesis"
    have same: "rank (\<sigma> (n + d)) = rank (\<sigma> n)" if "d \<le> B" for d
      using falls [of n d] falls [of "n + d" "B - d"] that n up by simp
    obtain t where t: "due t" "helps t (\<sigma> n)" using due_help [OF i w, of n] n by auto
    obtain d where d: "d < B" "turns (n + d) = t" using assms(2) [OF t(1)] n unfolding served_def by blast
    have "e \<le> d \<Longrightarrow> helps t (\<sigma> (n + e))" for e
    proof (induction e)
      case (Suc e)
      then show ?case
        using help_lasts [of "\<sigma> (n + e)" t "turns (n + e)" "\<sigma> (Suc (n + e))"] i [of "n + e"] w [of "n + e"] w [of "Suc (n + e)"]
          run [of "n + e"] same [of e] same [of "Suc e"] d n by simp
    qed (simp add: t(2))
    then have "rank (\<sigma> (Suc (n + d))) < rank (\<sigma> (n + d))"
      using help_lowers [of "\<sigma> (n + d)" t "\<sigma> (Suc (n + d))"] i [of "n + d"] w [of "n + d"] w [of "Suc (n + d)"]
        run [of "n + d"] d n by simp
    then show False using same [of d] same [of "Suc d"] d by simp
  qed
  have "B * r \<le> K \<Longrightarrow> rank (\<sigma> (B * r)) + r \<le> rank (\<sigma> 0)" for r
  proof (induction r)
    case (Suc r)
    then show ?case using lower [of "B * r"] by (simp add: add.commute)
  qed simp
  from this [OF assms(4)] show False by simp
qed

end

section \<open>A fair order of turns\<close>

definition all_turns :: "nat \<Rightarrow> 't::countable" where
  "all_turns n = from_nat (fst (prod_decode n))"

lemma all_turns_fair: "fair (all_turns :: nat \<Rightarrow> 't::countable)"
  unfolding fair_def
proof (intro allI)
  fix t :: 't and n :: nat
  have "all_turns (prod_encode (to_nat t, n)) = t" by (simp add: all_turns_def)
  moreover have "n \<le> prod_encode (to_nat t, n)" by (rule le_prod_encode_2)
  ultimately show "\<exists>k\<ge>n. all_turns k = t" by blast
qed

end
