(* ===== verification/Manager_Liveness.thy ===== *)
theory Manager_Liveness
  imports Manager_Stopping Fair_Runs "HOL-Library.Product_Lexorder"
begin

text \<open>
  The waits of the main thread end. \<^verbatim>\<open>DestroyStation\<close>, \<^verbatim>\<open>Configure\<close> and \<^verbatim>\<open>Shutdown\<close> join threads; if every
  thread is scheduled again and again and the stopping ones get no more events, the join returns. A step of a
  thread contains at most one blocking call, which is taken to return. The rank that falls counts the steps the
  awaited threads have left.
\<close>

section \<open>Turns\<close>

datatype turn = MainTurn | WorkerTurn nat | StreamTurn nat | PollerTurn

instance turn :: countable
  by countable_datatype

text \<open>The turn of a thread that does not exist passes.\<close>

inductive take_turn :: "nat \<Rightarrow> bool \<Rightarrow> turn \<Rightarrow> mgr \<Rightarrow> mgr \<Rightarrow> bool" for lb tls where
  main_calls: "m_pc m = MainIdle \<Longrightarrow> main_call lb tls m m' \<Longrightarrow> take_turn lb tls MainTurn m m'"
| main_waits: "take_turn lb tls MainTurn m (main_resume tls net m)"
| worker_goes: "i < length (m_workers m) \<Longrightarrow> take_turn lb tls (WorkerTurn i) m (worker_step lb now i m)"
| worker_missing: "length (m_workers m) \<le> i \<Longrightarrow> take_turn lb tls (WorkerTurn i) m m"
| stream_goes: "a < length (m_threads m) \<Longrightarrow> take_turn lb tls (StreamTurn a) m (stream_step lb now a m)"
| stream_missing: "length (m_threads m) \<le> a \<Longrightarrow> take_turn lb tls (StreamTurn a) m m"
| poller_goes: "take_turn lb tls PollerTurn m (poller_step m)"

inductive_cases main_turnE: "take_turn lb tls MainTurn m m'"
inductive_cases worker_turnE: "take_turn lb tls (WorkerTurn i) m m'"
inductive_cases stream_turnE: "take_turn lb tls (StreamTurn a) m m'"
inductive_cases poller_turnE: "take_turn lb tls PollerTurn m m'"

lemma take_turn_mgr: "take_turn lb tls t m m' \<Longrightarrow> m' = m \<or> mgr_step lb tls m m'"
  by (induction rule: take_turn.induct) (auto intro: mgr_step.intros)

section \<open>What each thread leaves alone\<close>

lemma poller_fields [simp]:
  "m_poller (enqueue j m) = m_poller m" "m_poller (push_event e m) = m_poller m" "m_poller (push_error i err m) = m_poller m"
  "m_poller (upd_station a f m) = m_poller m" "m_poller (upd_status a g m) = m_poller m"
  "m_poller (upd_thread a h m) = m_poller m" "m_poller (upd_worker w k m) = m_poller m"
  "m_poller (go a p m) = m_poller m" "m_poller (set_stream a st m) = m_poller m"
  "m_poller (snd (enqueue_request j m)) = m_poller m"
  by (simp_all add: enqueue_def push_event_def push_error_def upd_station_def upd_status_def upd_thread_def
      upd_worker_def go_def set_stream_def enqueue_request_def next_request_def Let_def)

lemma poller_finish_job [simp]: "m_poller (finish_job now j r m) = m_poller m"
  by (simp add: finish_job_def job_failed_def handle_job_response_def apply_status_def Let_def
      split: sum.split job_kind.split option.split)

lemma stations_fields [simp]:
  "m_stations (enqueue j m) = m_stations m" "m_stations (push_event e m) = m_stations m"
  "m_stations (push_error i err m) = m_stations m" "m_stations (upd_status a g m) = m_stations m"
  "m_stations (upd_thread a h m) = m_stations m" "m_stations (go a p m) = m_stations m"
  "m_stations (set_stream a st m) = m_stations m"
  by (simp_all add: enqueue_def push_event_def push_error_def upd_station_def upd_status_def upd_thread_def go_def
      set_stream_def)

lemma refresh_empty [simp]: "m_stations m = [] \<Longrightarrow> refresh i m = m"
  by (simp add: refresh_def refresh_status_def find_station_def)

definition same_pool :: "mgr \<Rightarrow> mgr \<Rightarrow> bool" where
  "same_pool m m' \<longleftrightarrow> m_workers m' = m_workers m \<and> m_jobs m' = m_jobs m \<and> m_poller m' = m_poller m"

lemma registration_pool:
  "registration_done a rc r m = (x, m') \<Longrightarrow>
    same_pool m m' \<and> m_running m' = m_running m \<and> (\<forall>b. s_stream (m_heap m' ! b) = s_stream (m_heap m ! b))"
  by (auto simp: registration_done_def Let_def same_pool_def upd_fields_kept split: sum.splits if_splits)

lemma dispatch_pool: "m_stations m = [] \<Longrightarrow> same_pool m (dispatch_station_event now a v m)"
  by (simp add: dispatch_station_event_def Let_def same_pool_def)

lemma stream_step_pool:
  assumes "m_stations m = []"
  shows "same_pool m (stream_step lb now a m)"
proof -
  have reg: "same_pool m (thread_registered a b rc r m)" for b rc r
    by (auto simp: thread_registered_def same_pool_def dest: registration_pool split: prod.split)
  have drop: "same_pool m (thread_dropped a st m)" for st
    by (simp add: thread_dropped_def Let_def same_pool_def)
  have read: "same_pool m (thread_read_done now a st r m)" for st r
    using dispatch_pool [OF assms] drop by (simp add: thread_read_done_def same_pool_def split: event_read.split)
  show ?thesis
    using assms reg [unfolded same_pool_def] read [unfolded same_pool_def]
    by (auto simp: stream_step_def thread_register_def thread_call_def thread_refresh_def thread_subscribe_def
        thread_open_def thread_subscribed_def thread_read_def same_pool_def split: stream_phase.split option.split prod.split)
qed

text \<open>The stream of a station is only touched by its own thread.\<close>

lemma finish_job_streams [simp]: "s_stream (m_heap (finish_job now j r m) ! b) = s_stream (m_heap m ! b)"
  by (simp add: finish_job_def job_failed_def handle_job_response_def apply_status_def Let_def upd_fields_kept
      split: sum.split job_kind.split option.split)

lemma heap_upd_worker [simp]: "m_heap (upd_worker i f m) = m_heap m"
  by (simp add: upd_worker_def)

lemma worker_step_streams: "s_stream (m_heap (worker_step lb now i m) ! b) = s_stream (m_heap m ! b)"
proof -
  have "s_stream (m_heap (worker_call lb i rpc body m) ! b) = s_stream (m_heap m ! b)" for rpc body
    by (simp add: worker_call_def split: prod.split)
  moreover have "s_stream (m_heap (worker_register i j m) ! b) = s_stream (m_heap m ! b)" for j
    by (simp add: worker_register_def split: option.split)
  moreover have "s_stream (m_heap (worker_handle now i j r m) ! b) = s_stream (m_heap m ! b)" for j r
    by (auto simp: worker_handle_def Let_def dest: registration_pool
        split: option.split prod.split registration.split)
  ultimately show ?thesis
    by (simp add: worker_step_def worker_take_def take_job_def Let_def split: option.split list.split)
qed

lemma poller_step_streams: "m_heap (poller_step m) = m_heap m"
  by (simp add: poller_step_def split: poller.split list.split)

lemma stream_step_streams:
  assumes "b \<noteq> a"
  shows "s_stream (m_heap (stream_step lb now a m) ! b) = s_stream (m_heap m ! b)"
proof -
  have reg: "s_stream (m_heap (thread_registered a bo rc r m) ! b) = s_stream (m_heap m ! b)" for bo rc r
    by (auto simp: thread_registered_def dest: registration_pool split: prod.split)
  have set: "m_heap (set_stream a st m) ! b = m_heap m ! b" for st m
    using assms by (simp add: set_stream_def)
  have drop: "s_stream (m_heap (thread_dropped a st m) ! b) = s_stream (m_heap m ! b)" for st
    using assms by (simp add: thread_dropped_def Let_def set)
  show ?thesis
    by (auto simp: stream_step_def reg drop set thread_register_def thread_call_def thread_refresh_def thread_subscribe_def
        thread_open_def thread_subscribed_def thread_read_def thread_read_done_def stream_dispatch Let_def
        split: stream_phase.split option.split prod.split event_read.split)
qed

section \<open>What the awaited threads have left\<close>

definition thread_left :: "nat \<Rightarrow> mgr \<Rightarrow> nat" where
  "thread_left a m = steps_left (t_phase (m_threads m ! a))"

fun worker_rank :: "worker \<Rightarrow> nat" where
  "worker_rank w = (if w_exited w then 0 else case w_job w of None \<Rightarrow> 1
     | Some j \<Rightarrow> if w_reply w \<noteq> None then (if w_request w = None then 3 else 5)
                 else if j_kind j = JobRegister \<and> w_request w = None then 2 else 4)"

fun poller_rank :: "poller \<Rightarrow> nat" where
  "poller_rank PollerGone = 0"
| "poller_rank PollerWaiting = 1"
| "poller_rank (PollerAt is) = 2 + length is"

definition pool_rank :: "mgr \<Rightarrow> nat" where
  "pool_rank m = 5 * length (m_jobs m) + (\<Sum>w\<leftarrow>m_workers m. worker_rank w) + poller_rank (m_poller m)"

text \<open>The joins of the stream threads in \<^verbatim>\<open>Shutdown\<close> come before the wait for the pool.\<close>

definition wait_rank :: "mgr \<Rightarrow> nat \<times> nat" where
  "wait_rank m = (case m_pc m of
     JoiningAll as \<Rightarrow> (1, \<Sum>a\<leftarrow>as. thread_left a m)
   | JoiningStation a i \<Rightarrow> (0, thread_left a m)
   | _ \<Rightarrow> (0, pool_rank m))"

definition wait_ok :: "mgr \<Rightarrow> bool" where
  "wait_ok m \<longleftrightarrow> (case m_pc m of
     MainIdle \<Rightarrow> True
   | JoiningStation a i \<Rightarrow> stopping m a
   | JoiningAll as \<Rightarrow> \<forall>a \<in> set as. stopping m a
   | _ \<Rightarrow> \<not> m_running m \<and> m_stations m = [])"

lemma gone_rank: "thread_gone m a \<Longrightarrow> stream_step lb now a m = m"
  by (simp add: thread_gone_def stream_step_def)

section \<open>A pool that is stopping\<close>

lemma worker_rank_pos: "\<not> w_exited w \<Longrightarrow> 1 \<le> worker_rank w"
  by (simp split: option.split)

lemma pool_rank_worker:
  assumes "i < length (m_workers m)" "m_workers m' = (m_workers m)[i := w]" "m_poller m' = m_poller m"
    and "5 * length (m_jobs m') + worker_rank w < 5 * length (m_jobs m) + worker_rank (m_workers m ! i)"
  shows "pool_rank m' < pool_rank m"
  using sum_list_update [OF assms(1), of worker_rank w] assms by (simp add: pool_rank_def)

lemma worker_lowers:
  assumes "i < length (m_workers m)" "\<not> w_exited (m_workers m ! i)" "\<not> m_running m"
  shows "pool_rank (worker_step lb now i m) < pool_rank m"
proof (cases "w_job (m_workers m ! i)")
  case None
  show ?thesis
  proof (cases "m_jobs m")
    case Nil
    then show ?thesis
      using assms None
      by (intro pool_rank_worker [of i m _ "(m_workers m ! i)\<lparr>w_exited := True\<rparr>"])
        (simp_all add: worker_step_def worker_take_def take_job_def)
  next
    case (Cons j js)
    then show ?thesis
      using assms None
      by (intro pool_rank_worker [of i m _ "(m_workers m ! i)\<lparr>w_job := Some j, w_backoff := k_min_backoff\<rparr>"])
        (simp_all add: worker_step_def worker_take_def take_job_def upd_worker_def)
  qed
next
  case (Some j)
  let ?w = "m_workers m ! i"
  have lower: "pool_rank m' < pool_rank m"
    if "m_workers m' = (m_workers m)[i := w]" "m_poller m' = m_poller m" "m_jobs m' = m_jobs m" "worker_rank w < worker_rank ?w"
    for m' w
    using that by (intro pool_rank_worker [OF assms(1)]) simp_all
  show ?thesis
  proof (cases "w_reply ?w")
    case no: None
    have call: "pool_rank (upd_worker i (\<lambda>w. w\<lparr>w_client := cl, w_request := None, w_reply := Some r\<rparr>) m) < pool_rank m"
      if "\<not> (j_kind j = JobRegister \<and> w_request ?w = None)" for cl r
      using assms Some no that
      by (intro lower [of _ "?w\<lparr>w_client := cl, w_request := None, w_reply := Some r\<rparr>"]) auto
    have dropped: "pool_rank (upd_worker i (\<lambda>w. w\<lparr>w_job := None\<rparr>) m) < pool_rank m"
      using assms Some no by (intro lower [of _ "?w\<lparr>w_job := None\<rparr>"]) simp_all
    have "worker_register i j m = upd_worker i (\<lambda>w. w\<lparr>w_job := None\<rparr>) m"
      using assms(3) by (simp add: worker_register_def register_body_def quitting_def split: option.split)
    with assms Some no call dropped show ?thesis
      by (simp add: worker_step_def worker_call_def split: prod.split option.split)
  next
    case (Some r)
    note job = \<open>w_job ?w = Some j\<close>
    have finished: "pool_rank m' < pool_rank m"
      if "m_workers m' = (m_workers m)[i := ?w\<lparr>w_job := None, w_reply := None\<rparr>]" "m_poller m' = m_poller m"
        "m_jobs m' = m_jobs m" for m'
      using assms Some job that by (intro lower [OF that]) simp_all
    have again: "pool_rank m' < pool_rank m"
      if "m_workers m' = (m_workers m)[i := ?w\<lparr>w_reply := None, w_backoff := b\<rparr>]" "m_poller m' = m_poller m"
        "m_jobs m' = m_jobs m" "j_kind j = JobRegister" for m' b
      using assms Some job that by (intro lower [OF that(1-3)]) simp_all
    show ?thesis
    proof (cases "j_kind j = JobRegister \<and> j_station j \<noteq> None")
      case True
      then obtain a where a: "j_station j = Some a" by blast
      obtain x m1 where r: "registration_done a False r m = (x, m1)" by fastforce
      have "m_workers m1 = m_workers m" "m_poller m1 = m_poller m" "m_jobs m1 = m_jobs m"
        using registration_pool [OF r] by (simp_all add: same_pool_def)
      with r True a Some job assms(2) show ?thesis
        by (cases x) (auto simp: worker_step_def worker_handle_def Let_def intro: finished again)
    next
      case False
      then have "worker_step lb now i m = (if j_kind j = JobRegister then upd_worker i (\<lambda>w. w\<lparr>w_job := None, w_reply := None\<rparr>) m
          else finish_job now j r (upd_worker i (\<lambda>w. w\<lparr>w_job := None, w_reply := None\<rparr>) m))"
        using Some job assms(2) by (auto simp: worker_step_def worker_handle_def Let_def)
      then show ?thesis by (auto intro!: finished)
    qed
  qed
qed

lemma worker_exited_idle: "w_exited (m_workers m ! i) \<Longrightarrow> worker_step lb now i m = m"
  by (simp add: worker_step_def)

lemma poller_lowers:
  assumes "m_poller m \<noteq> PollerGone" "\<not> m_running m" "m_stations m = []"
  shows "pool_rank (poller_step m) < pool_rank m"
  using assms by (auto simp: poller_step_def pool_rank_def split: poller.split list.split)

lemma poller_gone_idle: "m_poller m = PollerGone \<Longrightarrow> poller_step m = m"
  by (simp add: poller_step_def)

lemma poller_step_workers [simp]: "m_workers (poller_step m) = m_workers m"
  by (simp add: poller_step_def split: poller.split list.split)

lemma same_pool_rank: "same_pool m m' \<Longrightarrow> pool_rank m' = pool_rank m" "same_pool m m' \<Longrightarrow> workers_gone m' = workers_gone m"
  by (simp_all add: same_pool_def pool_rank_def workers_gone_def)

section \<open>What the main thread waits for\<close>

lemma wait_frame: "thread_frame m m' \<Longrightarrow> wait_ok m \<Longrightarrow> wait_ok m'"
  using stopping_frame [of m m'] by (auto simp: wait_ok_def thread_frame_def split: main_pc.split)

lemma wait_idle: "m_pc m = MainIdle \<Longrightarrow> wait_ok m"
  by (simp add: wait_ok_def)

lemma wait_resume:
  assumes "mgr_ok lb tls m" "wait_ok m"
  shows "wait_ok (main_resume tls net m)"
proof (cases "m_pc m")
  case (JoiningAll as)
  then have "m_stations m = []" using assms(1) by (simp add: mgr_ok_def config_ok_def)
  then show ?thesis
    using assms(2) JoiningAll by (auto simp: main_resume_def shutdown_joined_def stop_workers_def wait_ok_def)
qed (use assms(2) in \<open>auto simp: main_resume_def start_workers_def shutdown_finished_def destroy_joined_def Let_def
    enqueue_def intro: wait_idle\<close>)

lemma stopping_halted:
  "a < length (m_heap m) \<Longrightarrow> a < length (m_threads m) \<Longrightarrow> stopping (upd_station a halt_station m) a"
  by (simp add: stopping_def upd_station_def)

lemma halted_all:
  assumes "\<And>a. a \<in> set as \<Longrightarrow> a < length (m_heap m) \<and> a < length (m_threads m)" "b \<in> set as"
  shows "stopping (fold (\<lambda>a. upd_station a halt_station) as m) b"
  using assms
proof (induction as arbitrary: m)
  case (Cons a as)
  show ?case
  proof (cases "b = a")
    case True
    with Cons.prems have "stopping (upd_station a halt_station m) b" by (simp add: stopping_halted)
    then show ?thesis by (simp add: stopping_fold)
  next
    case False
    with Cons.prems have "stopping (fold (\<lambda>a. upd_station a halt_station) as (upd_station a halt_station m)) b"
      by (intro Cons.IH) simp_all
    then show ?thesis by simp
  qed
qed simp

lemma wait_configure:
  assumes "m_pc m = MainIdle"
  shows "wait_ok (snd (configure lb tls net cfg m))"
proof (cases "check_config lb tls cfg m")
  case (Inr u)
  then have "m_stations m = []" by (auto simp: check_config_def split: if_splits sum.splits)
  then show ?thesis
    using assms Inr by (auto simp: configure_def stop_workers_def start_workers_def Let_def enqueue_def wait_ok_def)
qed (use assms in \<open>simp add: configure_def wait_ok_def\<close>)

lemma wait_call:
  assumes "main_call lb tls m m'" "m_pc m = MainIdle" "mgr_ok lb tls m"
  shows "wait_ok m'"
  using assms(1)
proof cases
  case (call_configure net cfg)
  then show ?thesis using assms(2) by (simp add: wait_configure)
next
  case (call_reload net cfg)
  then show ?thesis using assms(2) by (auto simp: reload_state Let_def wait_configure intro: wait_idle)
next
  case (call_destroy i)
  show ?thesis
  proof (cases "find_station m i")
    case (Some a)
    then have "a < length (m_heap m)" "a < length (m_threads m)"
      using assms(3) by (auto simp: mgr_ok_def stations_ok_def objects_ok_def find_station_def)
    then have "stopping (upd_station a halt_station (m\<lparr>m_stations := om_erase i (m_stations m)\<rparr>)) a"
      by (intro stopping_halted) simp_all
    then show ?thesis using Some call_destroy by (simp add: destroy_station_def wait_ok_def)
  qed (use assms(2) call_destroy in \<open>simp add: destroy_station_def wait_ok_def\<close>)
next
  case call_shutdown
  have bound: "a < length (m_heap m) \<and> a < length (m_threads m)" if "a \<in> set (map snd (m_stations m))" for a
    using that assms(3) by (auto simp: mgr_ok_def stations_ok_def objects_ok_def om_find_mem)
  then have "stopping (fold (\<lambda>a. upd_station a halt_station) (map snd (m_stations m)) m) a"
    if "a \<in> set (map snd (m_stations m))" for a
    using that by (intro halted_all)
  then show ?thesis using assms(2) call_shutdown by (auto simp: shutdown_def wait_ok_def Let_def)
qed (use assms(2) in \<open>auto simp: create_station_def set_metadata_def clear_metadata_def
    update_station_def queue_track_def slug_command_def enqueue_command_def
    request_station_list_def tick_def Let_def intro!: wait_idle split: option.split\<close>)

lemma wait_step:
  assumes "mgr_step lb tls m m'" "mgr_ok lb tls m" "wait_ok m"
  shows "wait_ok m'"
  using assms(1)
  by cases (use assms(2,3) in \<open>auto intro: wait_call wait_resume wait_frame frame_worker_step frame_stream_step frame_poller_step\<close>)

lemma reachable_wait: "reachable lb tls m \<Longrightarrow> mgr_ok lb tls m \<and> wait_ok m"
proof (induction rule: reachable.induct)
  case reach_new
  show ?case by (simp add: new_manager_ok) (simp add: new_manager_def wait_ok_def)
qed (blast intro: mgr_step_ok wait_step)

section \<open>Every turn, while the main thread waits\<close>

lemma turn_frame: "take_turn lb tls t m m' \<Longrightarrow> t \<noteq> MainTurn \<Longrightarrow> thread_frame m m'"
  by (induction rule: take_turn.induct) (auto intro: frame_worker_step frame_stream_step frame_poller_step)

lemma turn_invariant:
  assumes "take_turn lb tls t m m'" "m_pc m \<noteq> MainIdle" "mgr_ok lb tls m \<and> wait_ok m"
  shows "mgr_ok lb tls m' \<and> wait_ok m'"
  using assms
  by (induction rule: take_turn.induct)
    (auto intro: main_resume_ok wait_resume worker_step_ok stream_step_ok poller_step_ok wait_frame
      frame_worker_step frame_stream_step frame_poller_step)

lemma turn_other_thread:
  assumes "take_turn lb tls t m m'" "t \<noteq> MainTurn" "t \<noteq> StreamTurn a"
  shows "m_threads m' ! a = m_threads m ! a \<and> s_stream (m_heap m' ! a) = s_stream (m_heap m ! a)"
  using assms
  by (induction rule: take_turn.induct)
    (auto simp: worker_step_streams poller_step_streams stream_step_streams other_thread_kept)

text \<open>
  A calm turn: if it is one of the thread of a station that is stopping, no event arrives in it. An event that
  does is handled before the thread looks at the flag again.
\<close>

definition calm_turn :: "nat \<Rightarrow> bool \<Rightarrow> turn \<Rightarrow> mgr \<Rightarrow> mgr \<Rightarrow> bool" where
  "calm_turn lb tls t m m' \<longleftrightarrow> take_turn lb tls t m m'
     \<and> (\<forall>a. t = StreamTurn a \<and> stopping m a \<longrightarrow> \<not> event_arrives a m')"

lemma calm_taken: "calm_turn lb tls t m m' \<Longrightarrow> take_turn lb tls t m m'"
  by (simp add: calm_turn_def)

lemma turn_thread_rank:
  assumes "calm_turn lb tls t m m'" "t \<noteq> MainTurn" "stopping m a" "streams_ok m"
  shows "thread_left a m' \<le> thread_left a m" "t = StreamTurn a \<Longrightarrow> \<not> thread_gone m a \<Longrightarrow> thread_left a m' < thread_left a m"
    "thread_gone m a \<Longrightarrow> thread_gone m' a"
proof -
  note turn = calm_taken [OF assms(1)]
  have own: "thread_left a m' < thread_left a m \<or> m' = m \<and> thread_gone m a" if "t = StreamTurn a"
    using turn
  proof cases
    case (stream_goes b now)
    have "\<not> event_arrives a m'" using assms(1,3) that by (simp add: calm_turn_def)
    with stream_goes that own_step [OF assms(3,4), of lb now] gone_rank [of m a lb now] show ?thesis
      by (cases "thread_gone m a") (auto simp: thread_left_def thread_gone_def)
  qed (use that assms(3) in \<open>simp_all add: stopping_def\<close>)
  have other: "thread_left a m' = thread_left a m \<and> thread_gone m' a = thread_gone m a" if "t \<noteq> StreamTurn a"
    using turn_other_thread [OF turn assms(2) that] by (simp add: thread_left_def thread_gone_def)
  show "thread_left a m' \<le> thread_left a m" using own other by (cases "t = StreamTurn a") auto
  show "t = StreamTurn a \<Longrightarrow> \<not> thread_gone m a \<Longrightarrow> thread_left a m' < thread_left a m" using own by auto
  show "thread_gone m' a" if "thread_gone m a"
    using turn
  proof cases
    case (stream_goes b now)
    then show ?thesis using gone_stream_step [OF that] by simp
  qed (use assms(2) that in \<open>simp_all add: thread_gone_def\<close>)
qed

definition pool_helps :: "turn \<Rightarrow> mgr \<Rightarrow> bool" where
  "pool_helps t m \<longleftrightarrow> (\<exists>i < length (m_workers m). t = WorkerTurn i \<and> \<not> w_exited (m_workers m ! i))
     \<or> t = PollerTurn \<and> m_poller m \<noteq> PollerGone"

lemma some_pool_help: "\<not> workers_gone m \<Longrightarrow> \<exists>t. pool_helps t m"
proof (cases "m_poller m = PollerGone")
  case True
  assume "\<not> workers_gone m"
  then obtain w where "w \<in> set (m_workers m)" "\<not> w_exited w" using True by (auto simp: workers_gone_def)
  then obtain i where "i < length (m_workers m)" "\<not> w_exited (m_workers m ! i)" by (auto simp: in_set_conv_nth)
  then show ?thesis by (intro exI [of _ "WorkerTurn i"]) (simp add: pool_helps_def)
qed (auto simp: pool_helps_def)

lemma turn_pool:
  assumes "take_turn lb tls t m m'" "t \<noteq> MainTurn" "\<not> m_running m" "m_stations m = []"
  shows "pool_helps t m \<and> pool_rank m' < pool_rank m
    \<or> \<not> pool_helps t m \<and> pool_rank m' = pool_rank m \<and> same_pool m m'"
  using assms(1)
proof cases
  case (worker_goes i now)
  then show ?thesis
    using worker_lowers [of i m lb now] assms(3) worker_exited_idle [of m i lb now]
    by (cases "w_exited (m_workers m ! i)") (simp_all add: pool_helps_def same_pool_def)
next
  case (stream_goes a now)
  then show ?thesis
    using stream_step_pool [OF assms(4), of lb now a] same_pool_rank(1) by (simp add: pool_helps_def)
next
  case poller_goes
  then show ?thesis
    using poller_lowers [of m] assms(3,4) poller_gone_idle [of m]
    by (cases "m_poller m = PollerGone") (simp_all add: pool_helps_def same_pool_def)
qed (use assms(2) in \<open>auto simp: pool_helps_def same_pool_def\<close>)

section \<open>The waits end\<close>

definition awaited_gone :: "mgr \<Rightarrow> bool" where
  "awaited_gone m \<longleftrightarrow> (case m_pc m of
     MainIdle \<Rightarrow> True
   | JoiningStation a i \<Rightarrow> thread_gone m a
   | JoiningAll as \<Rightarrow> \<forall>a \<in> set as. thread_gone m a
   | _ \<Rightarrow> workers_gone m)"

definition helps :: "turn \<Rightarrow> mgr \<Rightarrow> bool" where
  "helps t m \<longleftrightarrow> (if awaited_gone m then t = MainTurn else case m_pc m of
     MainIdle \<Rightarrow> False
   | JoiningStation a i \<Rightarrow> t = StreamTurn a
   | JoiningAll as \<Rightarrow> \<exists>a \<in> set as. \<not> thread_gone m a \<and> t = StreamTurn a
   | _ \<Rightarrow> pool_helps t m)"

lemma helps_pool:
  "m_pc m = StoppingFor cfg \<Longrightarrow> helps t m = (if workers_gone m then t = MainTurn else pool_helps t m)"
  "m_pc m = StoppingForShutdown \<Longrightarrow> helps t m = (if workers_gone m then t = MainTurn else pool_helps t m)"
  by (simp_all add: helps_def awaited_gone_def)

lemma some_turn_helps: "m_pc m \<noteq> MainIdle \<Longrightarrow> \<exists>t. helps t m"
  using some_pool_help [of m] by (auto simp: helps_def awaited_gone_def split: main_pc.split)

lemma resume_waiting:
  assumes "m_pc m \<noteq> MainIdle"
  shows "if awaited_gone m then m_pc (main_resume tls net m) = MainIdle \<or> wait_rank (main_resume tls net m) < wait_rank m
    else main_resume tls net m = m"
  using assms
  by (auto simp: main_resume_def awaited_gone_def start_workers_def shutdown_finished_def destroy_joined_def
      shutdown_joined_def enqueue_def wait_rank_def Let_def less_prod_def split: main_pc.split)

lemma main_turn:
  assumes "take_turn lb tls MainTurn m m'" "m_pc m \<noteq> MainIdle" "m_pc m' \<noteq> MainIdle"
  shows "if awaited_gone m then wait_rank m' < wait_rank m else m' = m"
  using assms(1)
proof cases
  case (main_waits net)
  then show ?thesis using resume_waiting [OF assms(2), of tls net] assms(3) by (auto split: if_splits)
qed (use assms(2) in simp)

text \<open>A sum over the awaited threads falls with any of them.\<close>

lemma sum_falls:
  fixes f g :: "nat \<Rightarrow> nat"
  assumes "\<And>a. a \<in> set as \<Longrightarrow> g a \<le> f a"
  shows "(\<Sum>a\<leftarrow>as. g a) \<le> (\<Sum>a\<leftarrow>as. f a) \<and> ((\<exists>a \<in> set as. g a < f a) \<longrightarrow> (\<Sum>a\<leftarrow>as. g a) < (\<Sum>a\<leftarrow>as. f a))"
  using assms
proof (induction as)
  case (Cons x as)
  then have "g x \<le> f x" "(\<Sum>a\<leftarrow>as. g a) \<le> (\<Sum>a\<leftarrow>as. f a)"
    "(\<exists>a \<in> set as. g a < f a) \<longrightarrow> (\<Sum>a\<leftarrow>as. g a) < (\<Sum>a\<leftarrow>as. f a)" by auto
  then show ?case by auto
qed simp

lemma turn_rank:
  assumes "calm_turn lb tls t m m'" "m_pc m \<noteq> MainIdle" "m_pc m' \<noteq> MainIdle" "mgr_ok lb tls m \<and> wait_ok m"
  shows "wait_rank m' \<le> wait_rank m" "helps t m \<Longrightarrow> wait_rank m' < wait_rank m"
proof -
  have "wait_rank m' \<le> wait_rank m \<and> (helps t m \<longrightarrow> wait_rank m' < wait_rank m)"
  proof (cases "t = MainTurn")
    case True
    then show ?thesis
      using main_turn [of lb tls m m'] calm_taken [OF assms(1)] assms(2,3) some_turn_helps [OF assms(2)]
      by (auto simp: helps_def pool_helps_def split: if_splits main_pc.splits)
  next
    case False
    have pc: "m_pc m' = m_pc m" using turn_frame [OF calm_taken [OF assms(1)] False] by (simp add: thread_frame_def)
    have st: "streams_ok m" using assms(4) by (simp add: mgr_ok_def)
    note thread = turn_thread_rank [OF assms(1) False _ st]
    show ?thesis
    proof (cases "m_pc m")
      case (JoiningStation a i)
      then show ?thesis
        using thread [of a] assms(4) pc False
        by (auto simp: wait_ok_def wait_rank_def helps_def awaited_gone_def less_prod_def less_eq_prod_def split: if_splits)
    next
      case (JoiningAll as)
      have r: "thread_left a m' \<le> thread_left a m" if "a \<in> set as" for a
        using thread(1) that assms(4) JoiningAll by (simp add: wait_ok_def)
      have "thread_left a m' < thread_left a m" if "a \<in> set as" "\<not> thread_gone m a" "t = StreamTurn a" for a
        using thread(2) that assms(4) JoiningAll by (simp add: wait_ok_def)
      then have "helps t m \<Longrightarrow> \<exists>a \<in> set as. thread_left a m' < thread_left a m"
        using JoiningAll False by (auto simp: helps_def awaited_gone_def split: if_splits)
      with sum_falls [of as "\<lambda>a. thread_left a m'" "\<lambda>a. thread_left a m", OF r] JoiningAll pc show ?thesis
        by (auto simp: wait_rank_def less_eq_prod_def less_prod_def)
    qed (use turn_pool [OF calm_taken [OF assms(1)] False] pc False assms(2,4) in
        \<open>auto simp: wait_ok_def wait_rank_def helps_def awaited_gone_def less_prod_def less_eq_prod_def split: if_splits\<close>)
  qed
  then show "wait_rank m' \<le> wait_rank m" "helps t m \<Longrightarrow> wait_rank m' < wait_rank m" by auto
qed

lemma help_lasts:
  assumes "calm_turn lb tls u m m'" "m_pc m \<noteq> MainIdle" "m_pc m' \<noteq> MainIdle" "mgr_ok lb tls m \<and> wait_ok m"
    and "helps t m" "wait_rank m' = wait_rank m"
  shows "helps t m'"
proof (cases "u = MainTurn")
  case True
  then show ?thesis using main_turn [of lb tls m m'] calm_taken [OF assms(1)] assms(2,3,5,6) by (auto split: if_splits)
next
  case False
  have pc: "m_pc m' = m_pc m" using turn_frame [OF calm_taken [OF assms(1)] False] by (simp add: thread_frame_def)
  have ne: "u \<noteq> t" using turn_rank(2) [OF assms(1-4)] assms(5,6) by auto
  have st: "streams_ok m" using assms(4) by (simp add: mgr_ok_def)
  have gone: "thread_gone m a \<Longrightarrow> thread_gone m' a" if "stopping m a" for a
    using turn_thread_rank(3) [OF assms(1) False that st] .
  have live: "thread_gone m' a = thread_gone m a" if "u \<noteq> StreamTurn a" for a
    using turn_other_thread [OF calm_taken [OF assms(1)] False that] by (simp add: thread_gone_def)
  have pool: "if workers_gone m' then t = MainTurn else pool_helps t m'"
    if "if workers_gone m then t = MainTurn else pool_helps t m" "\<not> m_running m" "m_stations m = []" "pool_rank m' = pool_rank m"
  proof -
    have "same_pool m m'" using turn_pool [OF calm_taken [OF assms(1)] False that(2,3)] that(4) by auto
    moreover from this have "pool_helps t m' = pool_helps t m" by (simp add: pool_helps_def same_pool_def)
    ultimately show ?thesis using that(1) by (simp add: same_pool_rank(2))
  qed
  show ?thesis
  proof (cases "m_pc m")
    case (JoiningStation a i)
    then show ?thesis
      using gone [of a] live [of a] ne assms(4,5) pc by (auto simp: helps_def awaited_gone_def wait_ok_def split: if_splits)
  next
    case (JoiningAll as)
    then show ?thesis
      using gone live ne assms(4,5) pc by (auto simp: helps_def awaited_gone_def wait_ok_def split: if_splits)
  next
    case (StoppingFor cfg)
    then show ?thesis using pool assms(4-6) pc by (simp only: helps_pool) (simp add: wait_ok_def wait_rank_def)
  next
    case StoppingForShutdown
    then show ?thesis using pool assms(4-6) pc by (simp only: helps_pool) (simp add: wait_ok_def wait_rank_def)
  qed (use assms(2) in simp)
qed

interpretation joins: fair_system "calm_turn lb tls" "\<lambda>m. mgr_ok lb tls m \<and> wait_ok m"
    "\<lambda>m. m_pc m \<noteq> MainIdle" wait_rank helps for lb tls
proof unfold_locales
  show "helps t m \<Longrightarrow> calm_turn lb tls t m m' \<Longrightarrow> m_pc m' \<noteq> MainIdle \<Longrightarrow> wait_rank m' < wait_rank m"
    if "mgr_ok lb tls m \<and> wait_ok m" "m_pc m \<noteq> MainIdle" for m m' t
    using turn_rank(2) [of lb tls t m m'] that by simp
qed (use turn_invariant [OF calm_taken] turn_rank(1) some_turn_helps help_lasts in simp_all)

text \<open>
  C9
  The waits of the main thread end, once no event arrives any more for a station that is stopping: in a
  run in which the main thread, every worker, every stream thread and the poller are scheduled
  again and again, and from some point on no turn of a stopping station's thread reads an event, the main
  thread comes back from the join it is in: those of \<^verbatim>\<open>DestroyStation\<close>, \<^verbatim>\<open>Configure\<close>, \<^verbatim>\<open>Reload\<close>
  and \<^verbatim>\<open>Shutdown\<close>, in any order of the threads and with any answers of the servers to the calls. A turn contains
  at most one blocking call, which is taken to return: what a peer answers to it is a finite list. The
  condition on events is needed: \<^verbatim>\<open>StreamLoop\<close> does not look at the flag while it reads events.
\<close>

theorem main_waits_end:
  assumes "\<And>n. take_turn lb tls (turns n) (\<sigma> n) (\<sigma> (Suc n))" "fair turns" "reachable lb tls (\<sigma> n)"
    and calm: "\<And>k a. N \<le> k \<Longrightarrow> turns k = StreamTurn a \<Longrightarrow> stopping (\<sigma> k) a \<Longrightarrow> \<not> event_arrives a (\<sigma> (Suc k))"
  shows "\<exists>k\<ge>n. m_pc (\<sigma> k) = MainIdle"
proof (rule ccontr)
  assume "\<not> ?thesis"
  then have waits: "m_pc (\<sigma> (n + k)) \<noteq> MainIdle" for k by simp
  have ok: "mgr_ok lb tls (\<sigma> (n + k)) \<and> wait_ok (\<sigma> (n + k))" for k
  proof (induction k)
    case (Suc k)
    then show ?case using turn_invariant [OF assms(1) waits] by simp
  qed (use reachable_wait [OF assms(3)] in simp)
  have run: "calm_turn lb tls (turns (n + N + k)) (\<sigma> (n + N + k)) (\<sigma> (n + N + Suc k))" for k
    using assms(1) [of "n + N + k"] calm [of "n + N + k"] by (simp add: calm_turn_def)
  from joins.waiting_ends [of lb tls _ "\<lambda>k. \<sigma> (n + N + k)", OF run fair_shift [OF assms(2)]] ok [of N]
  obtain k where "m_pc (\<sigma> (n + N + k)) = MainIdle" by auto
  with waits [of "N + k"] show False by (simp add: add.assoc)
qed

text \<open>A scheduler that gives every thread its turns; the main thread only waits.\<close>

definition next_turn :: "nat \<Rightarrow> bool \<Rightarrow> (nat \<Rightarrow> sock) \<Rightarrow> int \<Rightarrow> turn \<Rightarrow> mgr \<Rightarrow> mgr" where
  "next_turn lb tls net now t m = (case t of
     MainTurn \<Rightarrow> main_resume tls net m
   | WorkerTurn i \<Rightarrow> if i < length (m_workers m) then worker_step lb now i m else m
   | StreamTurn a \<Rightarrow> if a < length (m_threads m) then stream_step lb now a m else m
   | PollerTurn \<Rightarrow> poller_step m)"

lemma next_turn_taken: "take_turn lb tls t m (next_turn lb tls net now t m)"
  by (cases t) (simp_all add: next_turn_def take_turn.intros)

primrec scheduled :: "nat \<Rightarrow> bool \<Rightarrow> (nat \<Rightarrow> sock) \<Rightarrow> (nat \<Rightarrow> turn) \<Rightarrow> mgr \<Rightarrow> nat \<Rightarrow> mgr" where
  "scheduled lb tls net turns m 0 = m"
| "scheduled lb tls net turns m (Suc n) = next_turn lb tls net (int n) (turns n) (scheduled lb tls net turns m n)"

text \<open>The station is destroyed while its thread is about to register it: no event ever arrives.\<close>

definition leaving :: "mgr \<Rightarrow> bool" where
  "leaving m \<longleftrightarrow> length (m_threads m) = 1 \<and> stopping m 0
     \<and> (thread_gone m 0 \<or> (\<exists>b rc. t_phase (m_threads m ! 0) = Registering b rc))"

lemma leaving_quiet: "leaving m \<Longrightarrow> stopping m a \<Longrightarrow> \<not> event_arrives a m"
  by (auto simp: leaving_def stopping_def event_arrives_def thread_gone_def)

lemma leaving_turn:
  assumes "leaving m"
  shows "leaving (next_turn lb tls net now t m)"
proof -
  have "stopping (next_turn lb tls net now t m) 0"
    using take_turn_mgr [OF next_turn_taken] stopping_step assms unfolding leaving_def by metis
  moreover have "length (m_threads (next_turn lb tls net now t m)) = 1
      \<and> (thread_gone (next_turn lb tls net now t m) 0 \<or> (\<exists>b rc. t_phase (m_threads (next_turn lb tls net now t m) ! 0) = Registering b rc))"
  proof (cases "t = MainTurn")
    case True
    then show ?thesis using assms threads_resume [of tls net m] by (simp add: next_turn_def leaving_def thread_gone_def)
  next
    case main: False
    have len: "length (m_threads (next_turn lb tls net now t m)) = 1"
      using turn_frame [OF next_turn_taken main] assms by (simp add: thread_frame_def leaving_def)
    show ?thesis
    proof (cases "t = StreamTurn 0")
      case True
      have "thread_gone (stream_step lb now 0 m) 0"
        using assms gone_stream_step [of m 0]
        by (auto simp: leaving_def stream_step_def thread_register_def register_body_def quitting_def stopping_def station_at_def
            thread_gone_def phase_go)
      moreover have "0 < length (m_threads m)" using assms by (simp add: leaving_def)
      ultimately show ?thesis using True len by (simp add: next_turn_def)
    next
      case False
      then show ?thesis
        using turn_other_thread [OF next_turn_taken main False] len assms by (simp add: leaving_def thread_gone_def)
    qed
  qed
  ultimately show ?thesis by (simp add: leaving_def)
qed

lemma main_waits_end_witness:
  "m_pc example_leaving \<noteq> MainIdle \<and> (\<exists>k. m_pc (scheduled 64 False example_net all_turns example_leaving k) = MainIdle)"
proof
  let ?s = "scheduled 64 False example_net all_turns example_leaving"
  have "leaving example_leaving"
    by (simp add: leaving_def stopping_def example_leaving_def destroy_station_def find_station_def example_mgr_fields upd_station_def)
      (auto simp: thread_gone_def example_mgr_fields intro: exI [of _ False])
  then have calm: "leaving (?s k)" for k by (induction k) (simp_all add: leaving_turn)
  have quiet: "\<not> event_arrives a (?s (Suc k))" if "stopping (?s k) a" for k a
    using leaving_quiet [OF calm [of "Suc k"]] that calm [of k] calm [of "Suc k"]
    by (auto simp: leaving_def stopping_def)
  show "m_pc example_leaving \<noteq> MainIdle"
    by (simp add: example_leaving_def destroy_station_def find_station_def example_mgr_fields)
  have turns: "take_turn 64 False (all_turns k) (?s k) (?s (Suc k))" for k by (simp add: next_turn_taken)
  have "reachable 64 False (?s 0)" by (simp add: example_leaving_fields(1))
  from main_waits_end [of 64 False all_turns ?s 0 0, OF turns all_turns_fair this quiet]
  show "\<exists>k. m_pc (?s k) = MainIdle" by blast
qed

end
