(* ===== verification/Command_Liveness.thy ===== *)
theory Command_Liveness
  imports Manager_Liveness
begin

text \<open>
  Commands are answered. While the pool is not stopped, every command that was queued gets its one
  callback within a bounded number of turns, as long as one worker is not held by a registration: those are
  tried again for as long as the server cannot be reached, and keep their worker.
\<close>

section \<open>Workers that run\<close>

definition pool_runs :: "mgr \<Rightarrow> bool" where
  "pool_runs m \<longleftrightarrow> (m_running m \<longrightarrow> (\<forall>w \<in> set (m_workers m). \<not> w_exited w))"

text \<open>All but the workers only add to the queue.\<close>

definition only_queues :: "mgr \<Rightarrow> mgr \<Rightarrow> bool" where
  "only_queues m m' \<longleftrightarrow> m_workers m' = m_workers m \<and> (\<exists>js. m_jobs m' = m_jobs m @ js)"

lemma only_queues_intros:
  "m_workers m' = m_workers m \<Longrightarrow> m_jobs m' = m_jobs m \<Longrightarrow> only_queues m m'"
  "m_workers m' = m_workers m \<Longrightarrow> m_jobs m' = m_jobs m @ js \<Longrightarrow> only_queues m m'"
  by (simp_all add: only_queues_def)

lemma jobs_enqueue_request [simp]:
  "\<exists>js. m_jobs (snd (enqueue_request j m)) = m_jobs m @ js"
  by (simp add: enqueue_request_def next_request_def Let_def)

lemma jobs_refresh: "\<exists>js. m_jobs (refresh i m) = m_jobs m @ js"
  by (simp add: refresh_def refresh_status_def split: option.split)

lemma refresh_queues: "m_workers m0 = m_workers m \<Longrightarrow> m_jobs m0 = m_jobs m \<Longrightarrow> only_queues m (refresh i m0)"
  using jobs_refresh [of i m0] by (simp add: only_queues_def)

lemma dispatch_queues: "only_queues m (dispatch_station_event now a v m)"
  by (simp add: dispatch_station_event_def Let_def refresh_queues only_queues_intros)

lemma stream_step_queues: "only_queues m (stream_step lb now a m)"
proof -
  have reg: "only_queues m (thread_registered a b rc r m)" for b rc r
    by (auto simp: thread_registered_def only_queues_def same_pool_def dest: registration_pool split: prod.split)
  have drop: "only_queues m (thread_dropped a st m)" for st
    by (simp add: thread_dropped_def Let_def only_queues_def)
  have read: "only_queues m (thread_read_done now a st r m)" for st r
    using drop dispatch_queues [of m now a]
    by (simp add: thread_read_done_def only_queues_def split: event_read.split)
  have fresh: "only_queues m (thread_refresh a rc m)" for rc
    using jobs_refresh [of "s_id (station_at m a)" m] by (simp add: thread_refresh_def only_queues_def)
  show ?thesis
    using reg read fresh
    by (auto simp: stream_step_def thread_register_def thread_call_def thread_subscribe_def thread_open_def
        thread_subscribed_def thread_read_def only_queues_def [of m "go _ _ _"] only_queues_def [of m "upd_thread _ _ _"] only_queues_def [of m m]
        split: stream_phase.split option.split prod.split)
qed

lemma poller_step_queues: "only_queues m (poller_step m)"
  by (auto simp: poller_step_def only_queues_intros refresh_queues split: poller.split list.split)

text \<open>A call that leaves the pool running does not touch the workers.\<close>

lemma configure_running:
  assumes "m_running m" "m_running (snd (configure lb tls net cfg m))"
  shows "snd (configure lb tls net cfg m) = m"
  using assms by (auto simp: configure_def stop_workers_def Let_def split: sum.splits)

lemma main_call_queues:
  assumes "main_call lb tls m m'" "m_running m" "m_running m'"
  shows "only_queues m m'"
  using assms(1)
proof cases
  case (call_configure net cfg)
  then show ?thesis using configure_running [of m lb tls net cfg] assms(2,3) by (simp add: only_queues_def)
next
  case (call_reload net cfg)
  let ?m1 = "m\<lparr>m_config := (m_config m)\<lparr>poll_interval_ms := poll_interval_ms cfg\<rparr>\<rparr>"
  have "snd (configure lb tls net cfg ?m1) = ?m1" if "m' = snd (configure lb tls net cfg ?m1)"
    using that configure_running [of ?m1 lb tls net cfg] assms(2,3) by simp
  then show ?thesis using call_reload assms(2) by (auto simp: reload_state Let_def only_queues_def split: if_splits)
next
  case (call_refresh i)
  then show ?thesis by (simp add: refresh_queues)
next
  case (call_queue_track i location title artist cover mode)
  then show ?thesis
    by (auto simp: queue_track_def enqueue_command_def only_queues_def split: option.split)
next
  case (call_command i rpc body flag_key result_key)
  then show ?thesis by (auto simp: slug_command_def enqueue_command_def only_queues_def split: option.split)
next
  case call_list
  then show ?thesis by (auto simp: request_station_list_def only_queues_def)
qed (auto simp: create_station_def destroy_station_def set_metadata_def clear_metadata_def update_station_def tick_def
    shutdown_def only_queues_def Let_def split: option.split)

lemma main_resume_queues:
  assumes "wait_ok m" "m_running m" "m_running (main_resume tls net m)"
  shows "only_queues m (main_resume tls net m)"
  using assms
  by (auto simp: wait_ok_def main_resume_def destroy_joined_def shutdown_joined_def stop_workers_def only_queues_def Let_def
      split: main_pc.splits if_splits)

section \<open>A turn of a worker\<close>

text \<open>An idle worker takes the next job, a busy one goes on with its own, and only a registration starts over.\<close>

definition goes_on :: "nat \<Rightarrow> job \<Rightarrow> mgr \<Rightarrow> mgr \<Rightarrow> bool" where
  "goes_on i j m m' \<longleftrightarrow> m_jobs m' = m_jobs m \<and> (\<exists>w. m_workers m' = (m_workers m)[i := w] \<and> \<not> w_exited w
     \<and> (w_job w = Some j \<or> w_job w = None) \<and> (j_kind j = JobRegister \<or> worker_rank w < worker_rank (m_workers m ! i)))"

lemma goes_onI:
  assumes "m_workers m' = (m_workers m)[i := w]" "m_jobs m' = m_jobs m" "\<not> w_exited w" "w_job w = Some j \<or> w_job w = None"
    "j_kind j = JobRegister \<or> worker_rank w < worker_rank (m_workers m ! i)"
  shows "goes_on i j m m'"
  using assms unfolding goes_on_def by blast

lemma call_goes_on:
  assumes "\<not> w_exited (m_workers m ! i)" "w_job (m_workers m ! i) = Some j" "w_reply (m_workers m ! i) = None"
  shows "goes_on i j m (worker_call lb i rpc body m)"
proof -
  let ?w = "m_workers m ! i"
  have "goes_on i j m (upd_worker i (\<lambda>w. w\<lparr>w_client := cl, w_request := None, w_reply := Some r\<rparr>) m)" for cl r
    using assms by (intro goes_onI [of _ _ _ "?w\<lparr>w_client := cl, w_request := None, w_reply := Some r\<rparr>"]) simp_all
  then show ?thesis by (simp add: worker_call_def split: prod.split)
qed

lemma register_goes_on:
  assumes "\<not> w_exited (m_workers m ! i)" "w_job (m_workers m ! i) = Some j" "j_kind j = JobRegister"
  shows "goes_on i j m (worker_register i j m)"
proof -
  let ?w = "m_workers m ! i"
  have "goes_on i j m (upd_worker i (\<lambda>w. w\<lparr>w_request := Some body\<rparr>) m)" for body
    using assms by (intro goes_onI [of _ _ _ "?w\<lparr>w_request := Some body\<rparr>"]) simp_all
  moreover have "goes_on i j m (upd_worker i (\<lambda>w. w\<lparr>w_job := None\<rparr>) m)"
    using assms by (intro goes_onI [of _ _ _ "?w\<lparr>w_job := None\<rparr>"]) simp_all
  ultimately show ?thesis by (simp add: worker_register_def split: option.split)
qed

lemma handle_goes_on:
  assumes "\<not> w_exited (m_workers m ! i)" "w_job (m_workers m ! i) = Some j" "w_reply (m_workers m ! i) = Some r"
  shows "goes_on i j m (worker_handle now i j r m)"
proof -
  let ?w = "m_workers m ! i"
  have finished: "goes_on i j m m'"
    if "m_workers m' = (m_workers m)[i := ?w\<lparr>w_job := None, w_reply := None\<rparr>]" "m_jobs m' = m_jobs m" for m'
    using assms that by (intro goes_onI [OF that]) simp_all
  have again: "goes_on i j m m'"
    if "m_workers m' = (m_workers m)[i := ?w\<lparr>w_reply := None, w_backoff := b\<rparr>]" "m_jobs m' = m_jobs m" "j_kind j = JobRegister" for m' b
    using assms that by (intro goes_onI [OF that(1,2)]) simp_all
  show ?thesis
  proof (cases "j_kind j = JobRegister \<and> j_station j \<noteq> None")
    case True
    then obtain a where a: "j_station j = Some a" by blast
    obtain x m1 where r: "registration_done a False r m = (x, m1)" by fastforce
    have "m_workers m1 = m_workers m" "m_jobs m1 = m_jobs m"
      using registration_pool [OF r] by (simp_all add: same_pool_def)
    with r True a show ?thesis
      by (cases x) (auto simp: worker_handle_def Let_def intro: finished again)
  qed (auto simp: worker_handle_def Let_def intro!: finished)
qed

lemma worker_turn:
  assumes "i < length (m_workers m)" "\<not> w_exited (m_workers m ! i)"
  obtains (idle) "w_job (m_workers m ! i) = None" "m_jobs m = []" "m_running m \<longrightarrow> worker_step lb now i m = m"
    | (takes) j js w where "w_job (m_workers m ! i) = None" "m_jobs m = j # js" "m_jobs (worker_step lb now i m) = js"
      "m_workers (worker_step lb now i m) = (m_workers m)[i := w]" "w_job w = Some j" "\<not> w_exited w"
    | (works) j w where "w_job (m_workers m ! i) = Some j" "m_jobs (worker_step lb now i m) = m_jobs m"
      "m_workers (worker_step lb now i m) = (m_workers m)[i := w]" "\<not> w_exited w" "w_job w = Some j \<or> w_job w = None"
      "j_kind j = JobRegister \<or> worker_rank w < worker_rank (m_workers m ! i)"
proof (cases "w_job (m_workers m ! i)")
  case None
  show ?thesis
  proof (cases "m_jobs m")
    case Nil
    then show ?thesis using assms None by (intro idle) (simp_all add: worker_step_def worker_take_def take_job_def)
  next
    case (Cons j js)
    then show ?thesis
      using assms None
      by (intro takes [of j js "(m_workers m ! i)\<lparr>w_job := Some j, w_backoff := k_min_backoff\<rparr>"])
        (simp_all add: worker_step_def worker_take_def take_job_def upd_worker_def)
  qed
next
  case (Some j)
  have "goes_on i j m (worker_step lb now i m)"
    using call_goes_on [OF assms(2) Some, of lb] register_goes_on [OF assms(2) Some] handle_goes_on [OF assms(2) Some]
      assms(2) Some
    by (simp add: worker_step_def Let_def split: option.split)
  then show ?thesis using works [OF Some] by (auto simp: goes_on_def)
qed

lemma running_worker_step [simp]: "m_running (worker_step lb now i m) = m_running m"
  using frame_worker_step [of m lb now i] by (simp add: thread_frame_def)

lemma pool_runs_step:
  assumes "mgr_step lb tls m m'" "pool_runs m" "wait_ok m"
  shows "pool_runs m'"
proof (cases "m_running m \<and> m_running m'")
  case True
  have "set (m_workers m') \<subseteq> set (m_workers m)" if "only_queues m m'" using that by (simp add: only_queues_def)
  then have queued: "pool_runs m'" if "only_queues m m'" using that assms(2) True by (auto simp: pool_runs_def)
  show ?thesis
    using assms(1)
  proof cases
    case step_main
    then show ?thesis using main_call_queues True queued by blast
  next
    case (step_resume net)
    then show ?thesis using main_resume_queues [OF assms(3)] True queued by blast
  next
    case (step_worker i now)
    have alive: "\<not> w_exited (m_workers m ! i)" using step_worker(2) assms(2) True by (auto simp: pool_runs_def)
    show ?thesis
    proof (cases rule: worker_turn [OF step_worker(2) alive, where lb = lb and now = now])
      case 1
      then show ?thesis using step_worker assms(2) True by simp
    next
      case (2 j js w)
      then show ?thesis using step_worker assms(2) True set_update_subset_insert [of "m_workers m" i w]
        by (auto simp: pool_runs_def)
    next
      case (3 j w)
      then show ?thesis using step_worker assms(2) True set_update_subset_insert [of "m_workers m" i w]
        by (auto simp: pool_runs_def)
    qed
  qed (use queued stream_step_queues poller_step_queues in blast)+
next
  case False
  show ?thesis
  proof (cases "m_running m'")
    case up: True
    with False have down: "\<not> m_running m" by simp
    have started: "pool_runs (start_workers tls net cfg m0)" for net cfg m0
      by (simp add: pool_runs_def start_workers_def Let_def)
    show ?thesis
      using assms(1)
    proof cases
      case step_main
      show ?thesis
        using step_main(2) down up
        by cases (auto simp: configure_def reload_state create_station_def destroy_station_def set_metadata_def
            clear_metadata_def update_station_def queue_track_def slug_command_def enqueue_command_def
            request_station_list_def tick_def shutdown_def Let_def started split: sum.splits option.splits if_splits)
    next
      case (step_resume net)
      then show ?thesis
        using down up started
        by (auto simp: main_resume_def destroy_joined_def shutdown_joined_def shutdown_finished_def stop_workers_def Let_def
            split: main_pc.splits if_splits)
    next
      case (step_stream a now)
      then show ?thesis using down up frame_stream_step [of m lb now a] by (simp add: thread_frame_def)
    next
      case step_poller
      then show ?thesis using down up frame_poller_step [of m] by (simp add: thread_frame_def)
    qed (use down up in simp)
  qed (simp add: pool_runs_def)
qed

lemma reachable_runs: "reachable lb tls m \<Longrightarrow> pool_runs m"
proof (induction rule: reachable.induct)
  case reach_new
  show ?case by (simp add: pool_runs_def new_manager_def)
next
  case (reach_step m m')
  then show ?case using pool_runs_step [OF reach_step.hyps(4) reach_step.IH] reachable_wait by blast
qed

section \<open>One place for a command\<close>

lemma reachable_history: "reachable lb tls m \<Longrightarrow> \<exists>es. history lb tls m es"
  by (induction rule: reachable.induct) (blast intro: history.intros)+

lemma command_id: "requests_ok m \<Longrightarrow> j \<in> set (open_jobs m) \<Longrightarrow> is_command j \<Longrightarrow> j_request_id j \<noteq> 0"
  by (auto simp: requests_ok_def job_ok_def is_command_def)

lemma one_place:
  assumes "reachable lb tls m" "is_command j" "j \<in> set (open_jobs m)"
  shows "length (filter (\<lambda>k. j_request_id k = j_request_id j) (m_jobs m))
    + length (filter (\<lambda>k. j_request_id k = j_request_id j) (jobs_of (m_workers m))) \<le> 1"
proof -
  obtain es where h: "history lb tls m es" using reachable_history [OF assms(1)] by blast
  have "j_request_id j \<noteq> 0" using command_id [OF reachable_requests [OF assms(1)] assms(3,2)] .
  then show ?thesis
    using history_counts [OF h, of "j_request_id j"] count_ledger [of "j_request_id j" "open_jobs m"]
    by (simp add: open_jobs_def split: if_splits)
qed

definition holds :: "job \<Rightarrow> mgr \<Rightarrow> nat \<Rightarrow> bool" where
  "holds j m k \<longleftrightarrow> k < length (m_workers m) \<and> w_job (m_workers m ! k) = Some j"

lemma holds_job: "holds j m k \<Longrightarrow> j \<in> set (jobs_of (m_workers m))"
  by (auto simp: holds_def in_jobs_of)

lemma in_open_jobs: "j \<in> set (open_jobs m) \<longleftrightarrow> j \<in> set (m_jobs m) \<or> (\<exists>k. holds j m k)"
proof -
  have "(\<exists>w \<in> set (m_workers m). w_job w = Some j) \<longleftrightarrow> (\<exists>k. holds j m k)"
    unfolding holds_def by (metis in_set_conv_nth)
  then show ?thesis by (auto simp: open_jobs_def in_jobs_of)
qed

lemma filter_member: "x \<in> set xs \<Longrightarrow> P x \<Longrightarrow> 1 \<le> length (filter P xs)"
  by (induction xs) auto

lemma held_not_queued:
  assumes "reachable lb tls m" "is_command j" "holds j m k"
  shows "j \<notin> set (m_jobs m)"
  using one_place [OF assms(1,2)] filter_member [of j "jobs_of (m_workers m)" "\<lambda>k. j_request_id k = j_request_id j"]
    filter_member [of j "m_jobs m" "\<lambda>k. j_request_id k = j_request_id j"] holds_job [OF assms(3)] assms(3) in_open_jobs [of j m]
  by fastforce

lemma queued_once:
  assumes "reachable lb tls m" "is_command j" "m_jobs m = j # js"
  shows "j \<notin> set js"
  using one_place [OF assms(1,2)] filter_member [of j js "\<lambda>k. j_request_id k = j_request_id j"] assms(3)
  by (auto simp: open_jobs_def)

section \<open>What is before the answer\<close>

definition job_rank :: "job \<Rightarrow> worker \<Rightarrow> nat" where
  "job_rank j w = (if w_job w = Some j then worker_rank w else 0)"

definition answer_rank :: "nat \<Rightarrow> job \<Rightarrow> mgr \<Rightarrow> nat \<times> nat" where
  "answer_rank i j m =
     (if j \<in> set (m_jobs m) then (Suc (length (takeWhile (\<lambda>k. k \<noteq> j) (m_jobs m))), worker_rank (m_workers m ! i))
      else (0, \<Sum>w\<leftarrow>m_workers m. job_rank j w))"

definition answer_helps :: "nat \<Rightarrow> job \<Rightarrow> turn \<Rightarrow> mgr \<Rightarrow> bool" where
  "answer_helps i j t m \<longleftrightarrow>
     (if j \<in> set (m_jobs m) then t = WorkerTurn i else \<exists>k. holds j m k \<and> t = WorkerTurn k)"

text \<open>The pool runs, and worker \<open>i\<close> is not held by a registration.\<close>

definition available :: "nat \<Rightarrow> mgr \<Rightarrow> bool" where
  "available i m \<longleftrightarrow> m_running m \<and> i < length (m_workers m)
     \<and> (\<forall>j. w_job (m_workers m ! i) = Some j \<longrightarrow> j_kind j \<noteq> JobRegister)"

definition pool_turn :: "nat \<Rightarrow> bool \<Rightarrow> nat \<Rightarrow> turn \<Rightarrow> mgr \<Rightarrow> mgr \<Rightarrow> bool" where
  "pool_turn lb tls i t m m' \<longleftrightarrow> take_turn lb tls t m m' \<and> available i m'
     \<and> m_next_station m < int_max \<and> m_next_request m < int_max"

definition pool_ok :: "nat \<Rightarrow> bool \<Rightarrow> nat \<Rightarrow> mgr \<Rightarrow> bool" where
  "pool_ok lb tls i m \<longleftrightarrow> reachable lb tls m \<and> available i m"

lemma pool_turn_ok: "pool_ok lb tls i m \<Longrightarrow> pool_turn lb tls i t m m' \<Longrightarrow> pool_ok lb tls i m'"
  using take_turn_mgr [of lb tls t m m'] reach_step [of lb tls m m'] by (auto simp: pool_ok_def pool_turn_def)

text \<open>A turn is one of a worker, or it only adds to the queue.\<close>

lemma pool_turn_cases:
  assumes "pool_ok lb tls i m" "pool_turn lb tls i t m m'"
  obtains (queues) "only_queues m m'" "\<And>k. t = WorkerTurn k \<Longrightarrow> length (m_workers m) \<le> k"
    | (worker) k now where "t = WorkerTurn k" "k < length (m_workers m)" "\<not> w_exited (m_workers m ! k)"
        "m' = worker_step lb now k m"
proof -
  have run: "m_running m" "m_running m'" "pool_runs m" "wait_ok m"
    using assms reachable_runs reachable_wait by (auto simp: pool_ok_def pool_turn_def available_def)
  have "take_turn lb tls t m m'" using assms(2) by (simp add: pool_turn_def)
  then show ?thesis
  proof cases
    case main_calls
    then show ?thesis using queues main_call_queues run by blast
  next
    case (main_waits net)
    then show ?thesis using queues main_resume_queues run by blast
  next
    case (worker_goes k now)
    then show ?thesis using worker [of k now] run by (auto simp: pool_runs_def)
  next
    case worker_missing
    then show ?thesis using queues by (auto simp: only_queues_def)
  next
    case stream_goes
    then show ?thesis using queues stream_step_queues by blast
  next
    case stream_missing
    then show ?thesis using queues by (auto simp: only_queues_def)
  next
    case poller_goes
    then show ?thesis using queues poller_step_queues by blast
  qed
qed

section \<open>Every turn brings it closer\<close>

lemma job_rank_held: "holds j m k \<Longrightarrow> \<not> w_exited (m_workers m ! k) \<Longrightarrow> 1 \<le> job_rank j (m_workers m ! k)"
  using worker_rank_pos by (simp add: job_rank_def holds_def)

lemma queued_rank:
  assumes "pool_ok lb tls i m" "pool_turn lb tls i t m m'" "is_command j" "j \<in> set (m_jobs m)"
  shows "answer_rank i j m' \<le> answer_rank i j m" "t = WorkerTurn i \<Longrightarrow> answer_rank i j m' < answer_rank i j m"
    "answer_rank i j m' = answer_rank i j m \<Longrightarrow> j \<in> set (m_jobs m')"
proof -
  have i: "i < length (m_workers m)" "\<And>j. w_job (m_workers m ! i) = Some j \<Longrightarrow> j_kind j \<noteq> JobRegister"
    using assms(1) by (auto simp: pool_ok_def available_def)
  have "(answer_rank i j m' < answer_rank i j m) \<or> (t \<noteq> WorkerTurn i \<and> answer_rank i j m' = answer_rank i j m)"
  proof (cases rule: pool_turn_cases [OF assms(1,2)])
    case 1
    then obtain js where "m_workers m' = m_workers m" "m_jobs m' = m_jobs m @ js" by (auto simp: only_queues_def)
    moreover have "t \<noteq> WorkerTurn i" using 1(2) i(1) by fastforce
    ultimately show ?thesis using assms(4) by (simp add: answer_rank_def)
  next
    case (2 k now)
    show ?thesis
    proof (cases rule: worker_turn [OF 2(2,3), where lb = lb and now = now])
      case 1
      then show ?thesis using assms(4) by simp
    next
      case (2 x js w)
      have "reachable lb tls m" using assms(1) by (simp add: pool_ok_def)
      then show ?thesis
        using 2 assms(3,4) \<open>m' = _\<close> queued_once [of lb tls m j js]
        by (cases "x = j") (auto simp: answer_rank_def less_prod_def)
    next
      case (3 x w)
      show ?thesis
      proof (cases "k = i")
        case True
        then show ?thesis using 3 assms(4) \<open>m' = _\<close> i by (auto simp: answer_rank_def less_prod_def)
      next
        case False
        then show ?thesis using 3 assms(4) \<open>m' = _\<close> \<open>t = _\<close> by (simp add: answer_rank_def)
      qed
    qed
  qed
  then show "answer_rank i j m' \<le> answer_rank i j m" "t = WorkerTurn i \<Longrightarrow> answer_rank i j m' < answer_rank i j m" by auto
  show "j \<in> set (m_jobs m')" if "answer_rank i j m' = answer_rank i j m"
    using that assms(4) by (simp add: answer_rank_def split: if_splits)
qed

lemma held_rank:
  assumes "pool_ok lb tls i m" "pool_turn lb tls i t m m'" "is_command j" "holds j m h"
  shows "j \<notin> set (m_jobs m) \<and> (t = WorkerTurn h \<and> m_jobs m' = m_jobs m \<and> (\<Sum>w\<leftarrow>m_workers m'. job_rank j w) < (\<Sum>w\<leftarrow>m_workers m. job_rank j w)
    \<or> t \<noteq> WorkerTurn h \<and> (\<Sum>w\<leftarrow>m_workers m'. job_rank j w) \<le> (\<Sum>w\<leftarrow>m_workers m. job_rank j w) \<and> holds j m' h)"
proof -
  have r: "reachable lb tls m" using assms(1) by (simp add: pool_ok_def)
  have nq: "j \<notin> set (m_jobs m)" using held_not_queued [OF r assms(3,4)] .
  have kind: "j_kind j \<noteq> JobRegister" using assms(3) by (auto simp: is_command_def)
  show ?thesis
  proof (cases rule: pool_turn_cases [OF assms(1,2)])
    case 1
    then have "m_workers m' = m_workers m" by (simp add: only_queues_def)
    moreover have "t \<noteq> WorkerTurn h" using 1(2) assms(4) by (fastforce simp: holds_def)
    ultimately show ?thesis using nq assms(4) by (simp add: holds_def)
  next
    case (2 k now)
    note upd = sum_list_update [OF 2(2), of "job_rank j"]
    show ?thesis
    proof (cases rule: worker_turn [OF 2(2,3), where lb = lb and now = now])
      case 1
      then have "m' = m" "k \<noteq> h" using assms(1,4) \<open>m' = _\<close> by (auto simp: pool_ok_def available_def holds_def)
      then show ?thesis using nq assms(4) \<open>t = _\<close> by simp
    next
      case (2 x js w)
      then have "k \<noteq> h" "x \<noteq> j" using assms(4) nq by (auto simp: holds_def)
      then show ?thesis using 2 nq assms(4) upd [of w] \<open>t = _\<close> \<open>m' = _\<close> by (auto simp: job_rank_def holds_def)
    next
      case (3 x w)
      show ?thesis
      proof (cases "k = h")
        case True
        then have x: "x = j" using 3(1) assms(4) by (simp add: holds_def)
        then have "worker_rank w < worker_rank (m_workers m ! k)" using 3(6) kind by simp
        moreover have "1 \<le> worker_rank (m_workers m ! k)" by (rule worker_rank_pos) (rule \<open>\<not> w_exited (m_workers m ! k)\<close>)
        ultimately have "job_rank j w < job_rank j (m_workers m ! k)" using 3(1,5) x
          by (auto simp: job_rank_def simp del: worker_rank.simps)
        then show ?thesis using upd [of w] 3(2,3) nq True \<open>t = _\<close> \<open>m' = _\<close> by auto
      next
        case False
        have "job_rank j w \<le> job_rank j (m_workers m ! k)" using 3(1,5,6) kind
          by (auto simp: job_rank_def simp del: worker_rank.simps)
        then show ?thesis using upd [of w] 3(3) nq False assms(4) \<open>t = _\<close> \<open>m' = _\<close> by (auto simp: holds_def)
      qed
    qed
  qed
qed

lemma pool_turn_rank:
  assumes "pool_ok lb tls i m" "pool_turn lb tls i t m m'" "is_command j" "j \<in> set (open_jobs m)" "j \<in> set (open_jobs m')"
  shows "answer_rank i j m' \<le> answer_rank i j m" "answer_helps i j t m \<Longrightarrow> answer_rank i j m' < answer_rank i j m"
    "answer_helps i j u m \<Longrightarrow> answer_rank i j m' = answer_rank i j m \<Longrightarrow> answer_helps i j u m'"
proof -
  have r: "reachable lb tls m'" using pool_turn_ok [OF assms(1,2)] by (simp add: pool_ok_def)
  have "answer_rank i j m' \<le> answer_rank i j m \<and> (answer_helps i j t m \<longrightarrow> answer_rank i j m' < answer_rank i j m)
    \<and> (answer_helps i j u m \<longrightarrow> answer_rank i j m' = answer_rank i j m \<longrightarrow> answer_helps i j u m')"
  proof (cases "j \<in> set (m_jobs m)")
    case True
    then show ?thesis using queued_rank [OF assms(1-3) True] by (auto simp: answer_helps_def)
  next
    case False
    have held: "j \<notin> set (m_jobs m') \<and> answer_rank i j m' \<le> answer_rank i j m
        \<and> (if t = WorkerTurn h then answer_rank i j m' < answer_rank i j m else holds j m' h)" if "holds j m h" for h
      using held_rank [OF assms(1-3) that] held_not_queued [OF r assms(3), of h] False
      by (auto simp: answer_rank_def less_prod_def less_eq_prod_def)
    obtain h where "holds j m h" using False assms(4) by (auto simp: in_open_jobs)
    from held [OF this] have "answer_rank i j m' \<le> answer_rank i j m" "j \<notin> set (m_jobs m')" by blast+
    moreover have "answer_rank i j m' < answer_rank i j m" if "answer_helps i j t m"
      using that held False by (auto simp: answer_helps_def split: if_splits)
    moreover have "answer_helps i j u m'" if "answer_helps i j u m" "answer_rank i j m' = answer_rank i j m"
    proof -
      from that(1) False obtain k where "u = WorkerTurn k" "holds j m k" by (auto simp: answer_helps_def)
      with held [of k] that(2) \<open>j \<notin> set (m_jobs m')\<close> show ?thesis by (auto simp: answer_helps_def split: if_splits)
    qed
    ultimately show ?thesis by blast
  qed
  then show "answer_rank i j m' \<le> answer_rank i j m" "answer_helps i j t m \<Longrightarrow> answer_rank i j m' < answer_rank i j m"
    "answer_helps i j u m \<Longrightarrow> answer_rank i j m' = answer_rank i j m \<Longrightarrow> answer_helps i j u m'" by blast+
qed

section \<open>How many turns that takes\<close>

lemma worker_rank_bound: "worker_rank w \<le> 5"
  by (simp split: option.split)

lemma held_ranks: "(\<Sum>w\<leftarrow>ws. job_rank j w) \<le> 5 * length (filter (\<lambda>k. j_request_id k = j_request_id j) (jobs_of ws))"
proof (induction ws)
  case (Cons w ws)
  then show ?case
    using worker_rank_bound [of w]
    by (cases "w_job w") (auto simp: job_rank_def simp del: worker_rank.simps split: if_splits)
qed simp

lemma answer_rank_bound:
  assumes "pool_ok lb tls i m" "is_command j" "j \<in> set (open_jobs m)"
  shows "snd (answer_rank i j m) \<le> 5"
proof -
  have "reachable lb tls m" using assms(1) by (simp add: pool_ok_def)
  from one_place [OF this assms(2,3)]
  have "length (filter (\<lambda>k. j_request_id k = j_request_id j) (jobs_of (m_workers m))) \<le> 1" by simp
  with held_ranks [of j "m_workers m"] worker_rank_bound [of "m_workers m ! i"] show ?thesis
    by (auto simp: answer_rank_def simp del: worker_rank.simps)
qed

text \<open>Six turns for every job before it, and those of the worker that has it.\<close>

definition turns_left :: "nat \<Rightarrow> job \<Rightarrow> mgr \<Rightarrow> nat" where
  "turns_left i j m = 6 * fst (answer_rank i j m) + snd (answer_rank i j m)"

lemma turns_left_bound:
  assumes "pool_ok lb tls i m" "is_command j" "j \<in> set (open_jobs m)"
  shows "turns_left i j m \<le> 6 * length (m_jobs m) + 5"
proof -
  have "fst (answer_rank i j m) \<le> length (m_jobs m)"
  proof (cases "j \<in> set (m_jobs m)")
    case True
    have "length (takeWhile P xs) < length xs" if "\<not> P x" "x \<in> set xs" for P and x :: job and xs
      using that by (induction xs) auto
    from this [of "\<lambda>k. k \<noteq> j" j] True have "length (takeWhile (\<lambda>k. k \<noteq> j) (m_jobs m)) < length (m_jobs m)" by simp
    then show ?thesis using True by (simp add: answer_rank_def)
  qed (simp add: answer_rank_def)
  with answer_rank_bound [OF assms] show ?thesis by (simp add: turns_left_def)
qed

lemma lex_arith:
  fixes a b c d :: nat
  assumes "b \<le> 5" "d \<le> 5"
  shows "a < c \<or> a = c \<and> b \<le> d \<longleftrightarrow> 6 * a + b \<le> 6 * c + d" "a = c \<and> b = d \<longleftrightarrow> 6 * a + b = 6 * c + d"
  using assms by presburger+

lemma lex_number:
  fixes p q :: "nat \<times> nat"
  assumes "snd p \<le> 5" "snd q \<le> 5"
  shows "p \<le> q \<longleftrightarrow> 6 * fst p + snd p \<le> 6 * fst q + snd q" "p = q \<longleftrightarrow> 6 * fst p + snd p = 6 * fst q + snd q"
  using lex_arith [OF assms, of "fst p" "fst q"] by (auto simp: less_eq_prod_def prod_eq_iff)

lemma turns_left_falls:
  assumes "pool_ok lb tls i m" "pool_turn lb tls i t m m'" "is_command j" "j \<in> set (open_jobs m)" "j \<in> set (open_jobs m')"
  shows "turns_left i j m' \<le> turns_left i j m" "answer_helps i j t m \<Longrightarrow> turns_left i j m' < turns_left i j m"
    "answer_helps i j u m \<Longrightarrow> turns_left i j m' = turns_left i j m \<Longrightarrow> answer_helps i j u m'"
proof -
  note small = answer_rank_bound [OF pool_turn_ok [OF assms(1,2)] assms(3,5)] answer_rank_bound [OF assms(1,3,4)]
  note number = lex_number [OF small, folded turns_left_def]
  note rank = pool_turn_rank [OF assms]
  show "turns_left i j m' \<le> turns_left i j m" using rank(1) number(1) by blast
  show "turns_left i j m' < turns_left i j m" if "answer_helps i j t m"
    using rank(2) [OF that] number by (metis less_le)
  show "answer_helps i j u m'" if "answer_helps i j u m" "turns_left i j m' = turns_left i j m"
    using rank(3) [OF that(1)] that(2) number(2) by blast
qed

lemma pool_turn_workers:
  assumes "pool_ok lb tls i m" "pool_turn lb tls i t m m'"
  shows "length (m_workers m') = length (m_workers m)"
proof (cases rule: pool_turn_cases [OF assms])
  case (2 k now)
  show ?thesis
    by (cases rule: worker_turn [OF 2(2,3), where lb = lb and now = now])
      (use 2 assms(1) in \<open>auto simp: pool_ok_def available_def\<close>)
qed (simp add: only_queues_def)

lemma due_worker:
  assumes "pool_ok lb tls i m" "j \<in> set (open_jobs m)"
  shows "\<exists>k < length (m_workers m). answer_helps i j (WorkerTurn k) m"
proof (cases "j \<in> set (m_jobs m)")
  case True
  then show ?thesis using assms(1) by (auto simp: answer_helps_def pool_ok_def available_def)
next
  case False
  then show ?thesis using assms(2) by (auto simp: answer_helps_def in_open_jobs holds_def)
qed

interpretation answers: timed_system "pool_turn lb tls i" "\<lambda>m. pool_ok lb tls i m \<and> length (m_workers m) = W"
    "\<lambda>m. is_command j \<and> j \<in> set (open_jobs m)" "turns_left i j" "answer_helps i j" "\<lambda>t. \<exists>k < W. t = WorkerTurn k"
  for lb tls i j W
proof unfold_locales
  show "answer_helps i j t m \<Longrightarrow> pool_turn lb tls i t m m' \<Longrightarrow> is_command j \<and> j \<in> set (open_jobs m') \<Longrightarrow>
      turns_left i j m' < turns_left i j m"
    if "pool_ok lb tls i m \<and> length (m_workers m) = W" "is_command j \<and> j \<in> set (open_jobs m)" for m m' t
    using that turns_left_falls(2) by blast
  show "pool_turn lb tls i u m m' \<Longrightarrow> is_command j \<and> j \<in> set (open_jobs m') \<Longrightarrow> turns_left i j m' = turns_left i j m \<Longrightarrow>
      answer_helps i j t m'"
    if "pool_ok lb tls i m \<and> length (m_workers m) = W" "is_command j \<and> j \<in> set (open_jobs m)" "answer_helps i j t m" for m m' t u
    using that turns_left_falls(3) by blast
  show "\<exists>t. (\<exists>k<W. t = WorkerTurn k) \<and> answer_helps i j t m"
    if "pool_ok lb tls i m \<and> length (m_workers m) = W" "is_command j \<and> j \<in> set (open_jobs m)" for m
    using that due_worker by blast
  then show "\<exists>t. answer_helps i j t m"
    if "pool_ok lb tls i m \<and> length (m_workers m) = W" "is_command j \<and> j \<in> set (open_jobs m)" for m
    using that by blast
qed (use pool_turn_ok pool_turn_workers turns_left_falls(1) in \<open>metis+\<close>)

lemma station_counter [simp]:
  "m_next_station (upd_station a f m) = m_next_station m" "m_next_station (enqueue j m) = m_next_station m"
  "m_next_station (go a p m) = m_next_station m" "length (m_threads (go a p m)) = length (m_threads m)"
  by (simp_all add: upd_station_def enqueue_def go_def upd_thread_def)

text \<open>A turn raises each counter by at most one.\<close>

lemma counters_step:
  assumes "mgr_step lb tls m m'" "requests_ok m" "mgr_ok lb tls m" "m_next_request m < int_max" "m_next_station m < int_max"
  shows "m_next_request m' \<le> m_next_request m + 1 \<and> m_next_station m' \<le> m_next_station m + 1"
proof
  obtain opened closed answered where t: "turn m opened closed answered m'"
    using step_orderly [OF assms(1-4)] by (auto simp: orderly_def)
  then have "size opened \<le> 1" using size_mset_mono [of opened "{#m_next_request m + 1#}"] by (simp add: turn_def)
  with t show "m_next_request m' \<le> m_next_request m + 1" by (simp add: turn_def)
  have frame: "m_next_station m' \<le> m_next_station m + 1" if "thread_frame m m'" using that by (simp add: thread_frame_def)
  have zero: "0 \<le> m_next_station m" using assms(3) by (simp add: mgr_ok_def objects_ok_def)
  have fold: "m_next_station (fold (\<lambda>a. upd_station a f) as m0) = m_next_station m0" for f as m0
    by (induction as arbitrary: m0) (simp_all add: upd_station_def)
  show "m_next_station m' \<le> m_next_station m + 1"
    using assms(1)
  proof cases
    case step_main
    have "m_next_station (snd (configure lb tls net cfg m0)) = m_next_station m0" for net cfg m0
      by (simp add: configure_def stop_workers_def start_workers_def Let_def split: sum.split)
    with step_main(2) show ?thesis
      using zero assms(5)
      by cases (simp_all add: reload_state create_station_def destroy_station_def set_metadata_def clear_metadata_def
          update_station_def queue_track_def slug_command_def enqueue_command_def request_station_list_def tick_def
          shutdown_def refresh_def refresh_status_def enqueue_request_def next_request_def to_int32_id fold Let_def split: option.split)
  next
    case (step_resume net)
    then show ?thesis
      by (simp add: fold main_resume_def start_workers_def shutdown_finished_def destroy_joined_def shutdown_joined_def
          stop_workers_def enqueue_def upd_station_def Let_def split: main_pc.split)
  qed (use frame frame_worker_step frame_stream_step frame_poller_step in blast)+
qed

lemma pool_turn_next:
  assumes "pool_ok lb tls i m" "pool_turn lb tls i t m m'"
  shows "pool_ok lb tls i m' \<and> length (m_workers m') = length (m_workers m)
    \<and> m_next_request m' \<le> m_next_request m + 1 \<and> m_next_station m' \<le> m_next_station m + 1"
proof -
  have r: "requests_ok m" "mgr_ok lb tls m"
    using assms(1) reachable_requests reachable_ok unfolding pool_ok_def by blast+
  have "m' = m \<or> mgr_step lb tls m m'" "m_next_request m < int_max" "m_next_station m < int_max"
    using assms(2) take_turn_mgr [of lb tls t m m'] by (auto simp: pool_turn_def)
  then have "m_next_request m' \<le> m_next_request m + 1 \<and> m_next_station m' \<le> m_next_station m + 1"
    using counters_step [OF _ r] by auto
  with pool_turn_ok [OF assms] pool_turn_workers [OF assms] show ?thesis by simp
qed

section \<open>Commands are answered\<close>

text \<open>
  C8
  Every command is answered, and within a bounded time: if any \<open>B\<close> turns in a row hold one of every worker, the
  pool is not stopped and one of its workers is not held by a registration, a queued command or track gets
  its one callback, with its request and station id, within \<open>B\<close> turns for each of six steps of every job in the
  queue and six more, whatever the server answers and whatever the other threads and the scripts do in
  between, polling and further commands included. Both id counters are taken to be so many below the
  largest \<^verbatim>\<open>int\<close>; past it \<^verbatim>\<open>++\<close> is undefined. A call of a worker is taken to return: what a peer answers to it is
  a finite list.
\<close>

theorem commands_are_answered:
  assumes "\<And>n. n < K \<Longrightarrow> take_turn lb tls (turns n) (\<sigma> n) (\<sigma> (Suc n))" "reachable lb tls (\<sigma> 0)"
    and "\<And>k. k < length (m_workers (\<sigma> 0)) \<Longrightarrow> served B K turns (WorkerTurn k)"
    and "K = B * (6 * length (m_jobs (\<sigma> 0)) + 6)"
    and "m_next_request (\<sigma> 0) + int K < int_max" "m_next_station (\<sigma> 0) + int K < int_max"
    and "\<And>n. n \<le> K \<Longrightarrow> m_running (\<sigma> n) \<and> i < length (m_workers (\<sigma> n))"
    and "\<And>n k. n \<le> K \<Longrightarrow> w_job (m_workers (\<sigma> n) ! i) = Some k \<Longrightarrow> j_kind k \<noteq> JobRegister"
    and "j \<in> set (open_jobs (\<sigma> 0))" "j_kind j = JobCommand \<or> j_kind j = JobQueueTrack"
  shows "\<exists>n<K. \<exists>e. filter (\<lambda>e. ev_request e = j_request_id j) (pushed (\<sigma> n) (\<sigma> (Suc n))) = [e] \<and> ev_station e = j_station_id j
    \<and> (ev_kind e = EvCommandResult \<and> ev_text e = j_command j
       \<or> ev_kind e = EvTrackQueued \<and> j_kind j = JobQueueTrack \<and> ev_flag e)"
proof -
  have cmd: "is_command j" using assms(10) by (simp add: is_command_def)
  let ?W = "length (m_workers (\<sigma> 0))"
  have step: "pool_turn lb tls i (turns n) (\<sigma> n) (\<sigma> (Suc n))"
    if "n < K" "m_next_request (\<sigma> n) < int_max" "m_next_station (\<sigma> n) < int_max" for n
    using assms(1) [OF that(1)] assms(7,8) [of "Suc n"] that by (simp add: pool_turn_def available_def)
  have all: "pool_ok lb tls i (\<sigma> n) \<and> length (m_workers (\<sigma> n)) = ?W
      \<and> m_next_request (\<sigma> n) \<le> m_next_request (\<sigma> 0) + int n \<and> m_next_station (\<sigma> n) \<le> m_next_station (\<sigma> 0) + int n"
    if "n \<le> K" for n
    using that
  proof (induction n)
    case 0
    then show ?case using assms(2,7) assms(8) [of 0] by (simp add: pool_ok_def available_def)
  next
    case (Suc n)
    then have n: "n < K" "pool_ok lb tls i (\<sigma> n)" "length (m_workers (\<sigma> n)) = ?W"
      "m_next_request (\<sigma> n) \<le> m_next_request (\<sigma> 0) + int n" "m_next_station (\<sigma> n) \<le> m_next_station (\<sigma> 0) + int n" by simp_all
    then have "pool_turn lb tls i (turns n) (\<sigma> n) (\<sigma> (Suc n))" using assms(5,6) by (intro step) simp_all
    from pool_turn_next [OF n(2) this] n(3-5) show ?case by simp
  qed
  have small: "m_next_request (\<sigma> n) < int_max" "m_next_station (\<sigma> n) < int_max" if "n \<le> K" for n
    using all [OF that] assms(5,6) that by simp_all
  have run: "pool_turn lb tls i (turns n) (\<sigma> n) (\<sigma> (Suc n))" if "n < K" for n
    using step small that by simp
  have "turns_left i j (\<sigma> 0) \<le> 6 * length (m_jobs (\<sigma> 0)) + 5"
    using turns_left_bound all [of 0] cmd assms(9) by blast
  then have "B * Suc (turns_left i j (\<sigma> 0)) \<le> K" unfolding assms(4) by (intro mult_le_mono) simp_all
  moreover have "served B K turns t" if "\<exists>k < ?W. t = WorkerTurn k" for t using that assms(3) by blast
  ultimately obtain n where "n \<le> K" "j \<notin> set (open_jobs (\<sigma> n))"
    using answers.ends_within [of K lb tls i turns \<sigma> ?W B j, OF run] all [of 0] cmd by auto
  moreover from this obtain k where k: "k \<le> n" "\<forall>d<k. j \<in> set (open_jobs (\<sigma> d))" "j \<notin> set (open_jobs (\<sigma> k))"
    using ex_least_nat_le [of "\<lambda>n. j \<notin> set (open_jobs (\<sigma> n))" n] by blast
  moreover from this assms(9) obtain d where "k = Suc d" by (cases k) auto
  ultimately have n: "d < K" "j \<in> set (open_jobs (\<sigma> d))" "j \<notin> set (open_jobs (\<sigma> (Suc d)))" by simp_all
  then have "mgr_step lb tls (\<sigma> d) (\<sigma> (Suc d))" using take_turn_mgr [OF assms(1)] by metis
  then have "orderly (\<sigma> d) (\<sigma> (Suc d))"
    using step_orderly reachable_requests reachable_ok all [of d] small [of d] n(1) by (auto simp: pool_ok_def)
  then have "result_of j (pushed (\<sigma> d) (\<sigma> (Suc d)))"
    using n cmd assms(7) [of "Suc d"] by (auto simp: orderly_def settled_def)
  then show ?thesis unfolding result_of_def using n(1) by blast
qed

section \<open>A command beside the poller\<close>

lemma example_skip_reachable: "reachable 64 False example_skip"
  by (rule reach_step [OF example_mgr_reachable _ _ example_skip_step]) (simp_all add: example_mgr_fields)

lemma example_skip_fields:
  "m_pc example_skip = MainIdle" "m_running example_skip" "m_stations example_skip = [(0, 0)]" "m_heap example_skip = m_heap example_mgr"
  "m_threads example_skip = m_threads example_mgr" "m_workers example_skip = m_workers example_mgr"
  "m_next_station example_skip = 1" "m_next_request example_skip = 1" "m_jobs example_skip = m_jobs example_mgr @ [skip_job]"
  by (simp_all add: example_skip_shape example_mgr_fields)

lemma worker_step_request [simp]: "m_next_request (worker_step lb now i m) = m_next_request m"
proof -
  have reg: "registration_done a rc r m = (x, m') \<Longrightarrow> m_next_request m' = m_next_request m" for a rc r x m'
    by (auto simp: registration_done_def Let_def split: sum.splits if_splits)
  have "m_next_request (worker_call lb i rpc body m) = m_next_request m" for rpc body
    by (simp add: worker_call_def split: prod.split)
  moreover have "m_next_request (worker_register i j m) = m_next_request m" for j
    by (simp add: worker_register_def split: option.split)
  moreover have "m_next_request (worker_handle now i j r m) = m_next_request m" for j r
    by (auto simp: worker_handle_def Let_def dest: reg split: option.split prod.split registration.split)
  ultimately show ?thesis
    by (simp add: worker_step_def worker_take_def take_job_def Let_def split: option.split list.split)
qed

lemma worker_step_jobs:
  assumes "i < length (m_workers m)" "m_running m"
  shows "set (open_jobs (worker_step lb now i m)) \<subseteq> set (open_jobs m)
    \<and> length (m_workers (worker_step lb now i m)) = length (m_workers m)"
proof (cases "w_exited (m_workers m ! i)")
  case False
  have upd: "set (jobs_of ((m_workers m)[i := w])) \<subseteq> set (jobs_of (m_workers m)) \<union> set_option (w_job w)" for w
    using set_update_subset_insert [of "m_workers m" i w] by (fastforce simp: in_jobs_of)
  show ?thesis
  proof (cases rule: worker_turn [OF assms(1) False, where lb = lb and now = now])
    case (2 j js w)
    then show ?thesis using upd [of w] by (auto simp: open_jobs_def)
  next
    case (3 j w)
    have "j \<in> set (jobs_of (m_workers m))" using 3(1) assms(1) by (auto simp: in_jobs_of)
    with 3 upd [of w] show ?thesis by (auto simp: open_jobs_def)
  qed (use assms(2) in simp)
qed (simp add: worker_exited_idle)

text \<open>The station is there, and the poller asks for its status between the turns of the two workers.\<close>

definition working :: "mgr \<Rightarrow> bool" where
  "working m \<longleftrightarrow> m_running m \<and> m_stations m = [(0, 0)] \<and> length (m_workers m) = 2
     \<and> (\<forall>j \<in> set (open_jobs m). j_kind j \<noteq> JobRegister)"

definition in_turn :: "nat \<Rightarrow> turn" where
  "in_turn n = (if n mod 3 = 0 then WorkerTurn 0 else if n mod 3 = 1 then WorkerTurn 1 else PollerTurn)"

lemma in_turn_served: "k < 2 \<Longrightarrow> served 3 K in_turn (WorkerTurn k)"
  unfolding served_def
proof (intro allI impI)
  fix n
  assume k: "k < 2"
  have "\<exists>d<3. (n + d) mod 3 = k" using k by presburger
  moreover have "in_turn m = WorkerTurn k" if "m mod 3 = k" for m
    using that k by (cases "k = 0") (simp_all add: in_turn_def)
  ultimately show "\<exists>d<3. in_turn (n + d) = WorkerTurn k" by blast
qed

lemma refresh_adds: "set (m_jobs (refresh i m)) \<subseteq> set (m_jobs m) \<union> {j. j_kind j = JobStatus}"
  by (auto simp: refresh_def refresh_status_def enqueue_request_def next_request_def enqueue_def Let_def split: option.split)

lemma working_turn:
  assumes "working m"
  shows "working (next_turn lb tls net now (in_turn n) m)"
proof -
  have worker: "working (worker_step lb now i m)" if "i < 2" for i
    using assms that worker_step_jobs [of i m lb now] frame_worker_step [of m lb now i]
    by (auto simp: working_def thread_frame_def)
  have "set (m_jobs (poller_step m)) \<subseteq> set (m_jobs m) \<union> {j. j_kind j = JobStatus}"
    by (auto simp: poller_step_def split: poller.split list.split dest!: subsetD [OF refresh_adds])
  then have "working (poller_step m)"
    using assms frame_poller_step [of m] by (auto simp: working_def thread_frame_def open_jobs_def)
  moreover have "length (m_workers m) = 2" using assms by (simp add: working_def)
  ultimately show ?thesis using worker [of 0] worker [of 1] by (simp add: next_turn_def in_turn_def)
qed

lemma commands_are_answered_witness:
  "\<exists>n<54. \<exists>e. filter (\<lambda>e. ev_request e = 1) (pushed (scheduled 64 False example_net in_turn example_skip n)
       (scheduled 64 False example_net in_turn example_skip (Suc n))) = [e] \<and> ev_station e = 0
     \<and> ev_kind e = EvCommandResult \<and> ev_text e = ''Skip''"
proof -
  let ?s = "scheduled 64 False example_net in_turn example_skip"
  have workers: "m_workers example_mgr = m_workers example_server"
    by (simp add: example_mgr_def create_station_def Let_def)
  have idle: "w_job w = None" if "w \<in> set (m_workers example_mgr)" for w
    using that unfolding workers example_server_start by (auto simp: start_workers_def Let_def)
  have two: "length (m_workers example_mgr) = 2"
    by (simp add: example_mgr_def create_station_def example_server_fields Let_def)
  have jobs: "m_jobs example_mgr = m_jobs example_server"
    by (simp add: example_mgr_def create_station_def Let_def)
  have "working example_skip"
    using example_skip_fields idle two jobs
    by (auto simp: working_def open_jobs_def in_jobs_of jobs_of_idle example_server_fields skip_job_def)
  then have w: "working (?s n)" for n by (induction n) (simp_all add: working_turn)
  have held: "j_kind k \<noteq> JobRegister" if "w_job (m_workers (?s n) ! 0) = Some k" for n k
    using w [of n] that nth_mem [of 0 "m_workers (?s n)"] by (fastforce simp: working_def open_jobs_def in_jobs_of)
  have run: "m_running (?s n) \<and> 0 < length (m_workers (?s n))" for n using w [of n] by (simp add: working_def)
  have turns: "take_turn 64 False (in_turn n) (?s n) (?s (Suc n))" for n by (simp add: next_turn_taken)
  have len: "length (m_jobs example_skip) = 2" "length (m_workers example_skip) = 2"
    using example_skip_fields two jobs by (simp_all add: example_server_fields)
  have "\<exists>n<54. \<exists>e. filter (\<lambda>e. ev_request e = j_request_id skip_job) (pushed (?s n) (?s (Suc n))) = [e] \<and> ev_station e = j_station_id skip_job
    \<and> (ev_kind e = EvCommandResult \<and> ev_text e = j_command skip_job
       \<or> ev_kind e = EvTrackQueued \<and> j_kind skip_job = JobQueueTrack \<and> ev_flag e)"
    using in_turn_served run held example_skip_reachable example_skip_fields len
    by (intro commands_are_answered [of 54 64 False in_turn ?s 3 0 skip_job, OF turns])
      (auto simp: open_jobs_def skip_job_def simp del: scheduled.simps(2))
  then show ?thesis by (simp add: skip_job_def)
qed

section \<open>A registration that is tried again\<close>

text \<open>No connection to the server can be made.\<close>

definition unreachable :: "conn \<Rightarrow> bool" where
  "unreachable c \<longleftrightarrow> \<not> connected c
     \<and> (\<forall>d \<in> set (dials (c_sock c)). \<exists>e. dial_tcp (host (c_url c)) (port (c_url c)) (dial_resolution d) = Inl e)"

lemma unreachable_connect:
  assumes "\<forall>d \<in> set (dials s). \<exists>e. dial_tcp h p (dial_resolution d) = Inl e"
  shows "\<exists>e s'. sock_connect h p tmo s = (Some e, s') \<and> \<not> fd s' \<and> set (dials s') \<subseteq> set (dials s)"
proof (cases "dials s")
  case (Cons d ds)
  then obtain e where "dial_tcp h p (dial_resolution d) = Inl e" using assms by auto
  with Cons show ?thesis by (auto simp: sock_connect_def tls_connect_def plain_connect_def)
qed (simp add: sock_connect_def tls_connect_def plain_connect_def)

lemma unreachable_post:
  assumes "unreachable c"
  shows "\<exists>e c'. post lb path hs body c = (Inl e, c') \<and> unreachable c'"
proof -
  have "\<exists>e c'. ensure_connected c = (Some e, c') \<and> unreachable c'"
  proof (cases "c_null c")
    case None
    then have fd: "\<not> fd (c_sock c)" using assms by (simp add: unreachable_def connected_def)
    obtain e s where "sock_connect (host (c_url c)) (port (c_url c)) (c_timeout c) (c_sock c) = (Some e, s)"
        "\<not> fd s" "set (dials s) \<subseteq> set (dials (c_sock c))"
      using unreachable_connect [of "c_sock c"] assms unfolding unreachable_def by blast
    then show ?thesis using None fd assms by (auto simp: ensure_connected_def unreachable_def connected_def)
  qed (use assms in \<open>auto simp: ensure_connected_def\<close>)
  then obtain e c' where e: "ensure_connected c = (Some e, c')" "unreachable c'" by blast
  then have "post lb path hs body c = (Inl e, c')" by (simp add: post_def post_loop.simps [of _ _ _ _ 0])
  with e(2) show ?thesis by blast
qed

lemma unreachable_call:
  assumes "unreachable (cl_conn cl)"
  shows "\<exists>e cl'. call_rpc lb rpc request cl = (Inl (transport_error e), cl') \<and> unreachable (cl_conn cl')"
proof -
  obtain e c' where "post lb (service_path @ rpc) (call_headers ''application/json'' (cl_token cl)) request (cl_conn cl) = (Inl e, c')"
      "unreachable c'"
    using unreachable_post [OF assms] by blast
  then show ?thesis by (intro exI [of _ e] exI [of _ "cl\<lparr>cl_conn := c'\<rparr>"]) (simp add: call_rpc_def)
qed

definition registering :: "nat \<Rightarrow> job \<Rightarrow> worker \<Rightarrow> bool" where
  "registering a j w \<longleftrightarrow> w_job w = Some j \<and> j_kind j = JobRegister \<and> j_station j = Some a \<and> \<not> w_exited w
     \<and> (case w_reply w of None \<Rightarrow> True | Some (Inl e) \<Rightarrow> \<not> permanent e | Some (Inr _) \<Rightarrow> False)
     \<and> unreachable (cl_conn (w_client w))"

lemma registering_step:
  assumes "i < length (m_workers m)" "registering a j (m_workers m ! i)" "\<not> quitting a m"
  shows "registering a j (m_workers (worker_step lb now i m) ! i)"
proof -
  let ?w = "m_workers m ! i"
  have w: "w_job ?w = Some j" "j_kind j = JobRegister" "j_station j = Some a" "\<not> w_exited ?w"
    using assms(2) by (simp_all add: registering_def)
  show ?thesis
  proof (cases "w_reply ?w")
    case None
    show ?thesis
    proof (cases "w_request ?w")
      case no: None
      have "worker_step lb now i m = upd_worker i (\<lambda>w. w\<lparr>w_request := Some (register_request_json (station_at m a))\<rparr>) m"
        using w assms(3) None no by (simp add: worker_step_def worker_register_def register_body_def)
      then show ?thesis using assms(1,2) None by (simp add: registering_def)
    next
      case (Some body)
      obtain e cl' where call: "call_rpc lb ''RegisterStation'' body (w_client ?w) = (Inl (transport_error e), cl')"
          "unreachable (cl_conn cl')"
        using unreachable_call assms(2) unfolding registering_def by blast
      with w assms(1) None Some show ?thesis
        by (simp add: worker_step_def worker_call_def registering_def permanent_def transport_error_def)
    qed
  next
    case (Some r)
    then obtain e where e: "r = Inl e" "\<not> permanent e"
      using assms(2) by (auto simp: registering_def split: sum.splits)
    then show ?thesis
      using w assms(1,2) Some
      by (simp add: worker_step_def worker_handle_def registration_done_def registering_def Let_def)
  qed
qed

text \<open>While the pool runs, a turn of any other thread leaves a worker as it is.\<close>

lemma running_turn:
  assumes "take_turn lb tls t m m'" "reachable lb tls m" "m_running m" "m_running m'"
  obtains (queues) "only_queues m m'"
    | (works) k now where "t = WorkerTurn k" "k < length (m_workers m)" "m' = worker_step lb now k m"
  using assms(1)
proof cases
  case main_calls
  then show ?thesis using queues main_call_queues assms(3,4) by blast
next
  case (main_waits net)
  then show ?thesis using queues main_resume_queues reachable_wait [OF assms(2)] assms(3,4) by blast
next
  case stream_goes
  then show ?thesis using queues stream_step_queues by metis
next
  case poller_goes
  then show ?thesis using queues poller_step_queues by metis
qed (use queues works in \<open>auto simp: only_queues_def\<close>)

lemma other_worker_kept:
  assumes "take_turn lb tls t m m'" "reachable lb tls m" "m_running m" "m_running m'" "t \<noteq> WorkerTurn i"
  shows "m_workers m' ! i = m_workers m ! i \<and> length (m_workers m') = length (m_workers m)"
  using assms(1-4)
proof (cases rule: running_turn)
  case (works k now)
  then have alive: "\<not> w_exited (m_workers m ! k)"
    using reachable_runs [OF assms(2)] assms(3) nth_mem [of k "m_workers m"] by (simp add: pool_runs_def)
  show ?thesis
    by (cases rule: worker_turn [OF works(2) alive, where lb = lb and now = now]) (use works assms(3,5) in auto)
qed (simp add: only_queues_def)

text \<open>
  C15
  While the server cannot be reached, the registration that GoRadio_UpdateStation queued keeps the worker that
  took it: it is tried again for as long as its station exists and the pool runs, in any
  order of steps, so a pool of which every worker has one answers no other command.
\<close>

theorem registration_keeps_its_worker:
  assumes "\<And>n. take_turn lb tls (turns n) (\<sigma> n) (\<sigma> (Suc n))" "reachable lb tls (\<sigma> 0)"
    and "\<And>n. m_next_station (\<sigma> n) < int_max \<and> m_next_request (\<sigma> n) < int_max"
    and "\<And>n. m_running (\<sigma> n) \<and> \<not> s_stopping (station_at (\<sigma> n) a)"
    and "i < length (m_workers (\<sigma> 0))" "registering a j (m_workers (\<sigma> 0) ! i)"
  shows "i < length (m_workers (\<sigma> n)) \<and> w_job (m_workers (\<sigma> n) ! i) = Some j"
proof -
  have r: "reachable lb tls (\<sigma> n)" for n
  proof (induction n)
    case (Suc n)
    show ?case using take_turn_mgr [OF assms(1) [of n]] reach_step [OF Suc] Suc assms(3) by auto
  qed (rule assms(2))
  have "i < length (m_workers (\<sigma> n)) \<and> registering a j (m_workers (\<sigma> n) ! i)"
  proof (induction n)
    case (Suc n)
    have quits: "\<not> quitting a (\<sigma> n)" using assms(4) by (simp add: quitting_def)
    show ?case
    proof (cases "turns n = WorkerTurn i")
      case True
      with assms(1) [of n] Suc obtain now where "\<sigma> (Suc n) = worker_step lb now i (\<sigma> n)"
        by (auto elim: worker_turnE)
      then show ?thesis
        using Suc registering_step [OF _ _ quits] worker_step_jobs [of i "\<sigma> n" lb now] assms(4) by simp
    qed (use other_worker_kept [OF assms(1) r] assms(4) Suc in simp)
  qed (use assms(5,6) in simp)
  then show ?thesis by (simp add: registering_def)
qed

text \<open>A server that is down, and a station that is updated: the second worker takes the registration.\<close>

definition dead_net :: "nat \<Rightarrow> sock" where
  "dead_net = (\<lambda>_. quiet_sock\<lparr>fd := False\<rparr>)"

definition offline_server :: mgr where
  "offline_server = snd (configure 64 False dead_net example_config new_manager)"

definition offline_station :: mgr where
  "offline_station = snd (create_station False dead_net ''main'' [] [] 3 [] offline_server)"

definition offline_update :: mgr where
  "offline_update = snd (update_station 0 [] [] 0 [] offline_station)"

definition offline_taken :: mgr where
  "offline_taken = worker_step 64 0 1 (worker_step 64 0 0 offline_update)"

lemma offline_start: "offline_server = start_workers False dead_net example_config
    (new_manager\<lparr>m_config := example_config,
       m_url := \<lparr>scheme = ''http'', host = ''127.0.0.1'', port = 9090, base_path = []\<rparr>, m_configured := True\<rparr>)"
proof -
  have "\<not> m_running new_manager" by (simp add: new_manager_def)
  then show ?thesis by (simp add: offline_server_def configure_def example_check Let_def)
qed

lemma offline_server_fields:
  "m_pc offline_server = MainIdle" "m_stations offline_server = []" "m_configured offline_server" "m_running offline_server"
  "m_heap offline_server = []" "m_threads offline_server = []" "m_next_station offline_server = 0" "m_next_request offline_server = 0"
  "length (m_jobs offline_server) = 1" "length (m_workers offline_server) = 2"
  "i < 2 \<Longrightarrow> m_workers offline_server ! i = \<lparr>w_client = new_client False (m_url offline_server) ''t'' 10000 (dead_net i),
     w_job = None, w_request = None, w_reply = None, w_backoff = 0, w_exited = False\<rparr>"
  unfolding offline_start
  by (simp_all add: new_manager_def start_workers_def enqueue_def Let_def om_empty_def example_config_def
      default_config_def)

lemma offline_station_fields:
  "m_pc offline_station = MainIdle" "m_stations offline_station = [(0, 0)]" "m_running offline_station"
  "length (m_heap offline_station) = 1" "\<not> s_stopping (m_heap offline_station ! 0)" "m_next_station offline_station = 1"
  "m_next_request offline_station = 0" "m_jobs offline_station = m_jobs offline_server"
  "m_workers offline_station = m_workers offline_server"
  by (simp_all add: offline_station_def create_station_def find_station_by_slug_def offline_server_fields Let_def
      new_station_def to_int32_def)

lemma offline_update_fields:
  "m_running offline_update" "length (m_heap offline_update) = 1" "\<not> s_stopping (m_heap offline_update ! 0)"
  "m_next_station offline_update = 1" "m_next_request offline_update = 0"
  "m_jobs offline_update = m_jobs offline_server @ [register_job 0 0]" "m_workers offline_update = m_workers offline_server"
  by (simp_all add: offline_update_def update_station_def find_station_def offline_station_fields upd_station_def enqueue_def)

definition greeting :: job where
  "greeting = no_job\<lparr>j_kind := JobServerInfo, j_rpc := ''GetServerInfo'', j_body := ''{}''\<rparr>"

lemma offline_greeting: "m_jobs offline_server = [greeting]"
  unfolding offline_start by (simp add: new_manager_def start_workers_def enqueue_def Let_def greeting_def)

lemma offline_taken_shape:
  "offline_taken = offline_update\<lparr>m_jobs := [], m_workers := (m_workers offline_server)
    [0 := (m_workers offline_server ! 0)\<lparr>w_job := Some greeting, w_backoff := k_min_backoff\<rparr>,
     Suc 0 := (m_workers offline_server ! Suc 0)\<lparr>w_job := Some (register_job 0 0), w_backoff := k_min_backoff\<rparr>]\<rparr>"
proof -
  have m1: "worker_step 64 0 0 offline_update =
      upd_worker 0 (\<lambda>w. w\<lparr>w_job := Some greeting, w_backoff := k_min_backoff\<rparr>) (offline_update\<lparr>m_jobs := [register_job 0 0]\<rparr>)"
    by (simp add: worker_step_def worker_take_def take_job_def offline_update_fields offline_server_fields offline_greeting)
  show ?thesis
    unfolding offline_taken_def m1
    by (simp add: worker_step_def worker_take_def take_job_def offline_update_fields offline_server_fields upd_worker_def)
qed

lemma offline_taken_fields:
  "m_running offline_taken" "\<not> s_stopping (station_at offline_taken 0)" "m_next_station offline_taken = 1"
  "m_next_request offline_taken = 0" "length (m_workers offline_taken) = 2"
  "w_job (m_workers offline_taken ! Suc 0) = Some (register_job 0 0)" "w_reply (m_workers offline_taken ! Suc 0) = None"
  "\<not> w_exited (m_workers offline_taken ! Suc 0)"
  "w_client (m_workers offline_taken ! Suc 0) = new_client False (m_url offline_server) ''t'' 10000 (dead_net 1)"
  unfolding offline_taken_shape by (simp_all add: station_at_def offline_update_fields offline_server_fields)

lemma offline_taken_reachable: "reachable 64 False offline_taken"
proof -
  have "mgr_step 64 False new_manager offline_server"
    unfolding offline_server_def by (intro step_main call_configure) (simp add: new_manager_def)
  then have 1: "reachable 64 False offline_server"
    by (rule reach_step [OF reach_new, rotated -1]) (simp_all add: new_manager_def)
  have "mgr_step 64 False offline_server offline_station"
    unfolding offline_station_def by (intro step_main call_create) (simp add: offline_server_fields)
  then have 2: "reachable 64 False offline_station"
    by (rule reach_step [OF 1, rotated -1]) (simp_all add: offline_server_fields)
  have "mgr_step 64 False offline_station offline_update"
    unfolding offline_update_def by (intro step_main call_update) (simp add: offline_station_fields)
  then have 3: "reachable 64 False offline_update"
    by (rule reach_step [OF 2, rotated -1]) (simp_all add: offline_station_fields)
  have "mgr_step 64 False offline_update (worker_step 64 0 0 offline_update)"
    by (rule step_worker) (simp add: offline_update_fields offline_server_fields)
  then have 4: "reachable 64 False (worker_step 64 0 0 offline_update)"
    by (rule reach_step [OF 3, rotated -1]) (simp_all add: offline_update_fields)
  have "m_next_station (worker_step 64 0 0 offline_update) = m_next_station offline_update"
    using frame_worker_step [of offline_update 64 0 0] by (simp add: thread_frame_def)
  moreover have "mgr_step 64 False (worker_step 64 0 0 offline_update) offline_taken"
    unfolding offline_taken_def
    by (rule step_worker) (simp add: offline_update_fields offline_server_fields worker_step_jobs)
  ultimately show ?thesis by (intro reach_step [OF 4]) (simp_all add: offline_update_fields)
qed

lemma registration_keeps_its_worker_witness:
  "w_job (m_workers ((worker_step 64 0 1 ^^ 1000) offline_taken) ! 1) = Some (register_job 0 0)"
proof -
  let ?s = "\<lambda>n. (worker_step 64 0 1 ^^ n) offline_taken"
  have frame: "thread_frame offline_taken (?s n) \<and> m_next_request (?s n) = 0 \<and> length (m_workers (?s n)) = 2" for n
  proof (induction n)
    case (Suc n)
    have "m_running (?s n)" using Suc offline_taken_fields(1) by (simp add: thread_frame_def)
    then show ?case
      using Suc thread_frame_trans [OF _ frame_worker_step] worker_step_jobs [of 1 "?s n" 64 0] by auto
  qed (simp add: offline_taken_fields)
  have len: "0 < length (m_heap offline_taken)"
    using offline_update_fields(2) thread_frame_trans [OF frame_worker_step [of offline_update 64 0 0] frame_worker_step [of _ 64 0 1]]
    by (simp add: offline_taken_def thread_frame_def)
  have quit: "m_running (?s n)" "\<not> s_stopping (station_at (?s n) 0)" "m_next_station (?s n) = 1" for n
    using frame [of n] offline_taken_fields len by (auto simp: thread_frame_def same_identity_def station_at_def)
  have turns: "take_turn 64 False (WorkerTurn 1) (?s n) (?s (Suc n))" for n
    using worker_goes [of 1 "?s n" 64 False 0] frame [of n] by simp
  have "registering 0 (register_job 0 0) (m_workers offline_taken ! 1)"
    by (simp add: registering_def offline_taken_fields register_job_def unreachable_def connected_def new_client_def
        new_conn_def dead_net_def quiet_sock_def)
  with registration_keeps_its_worker [of 64 False "\<lambda>_. WorkerTurn 1" ?s 0 1 "register_job 0 0" 1000, OF turns]
  show ?thesis using frame quit offline_taken_reachable offline_taken_fields(5) by simp
qed

end
