(* ===== verification/Late_Registration.thy ===== *)
theory Late_Registration
  imports Command_Liveness
begin

text \<open>
  A registration that comes too late. \<^verbatim>\<open>RegisterWithRetry\<close> looks at the stopping flag, makes up the request
  and only then calls, without a mutex; in a worker nothing waits for it when the station is destroyed.
\<close>

definition about_to_register :: "string \<Rightarrow> worker \<Rightarrow> bool" where
  "about_to_register body w \<longleftrightarrow> (\<exists>j. w_job w = Some j \<and> j_kind j = JobRegister) \<and> w_request w = Some body
     \<and> w_reply w = None \<and> \<not> w_exited w"

text \<open>
  C16
  A worker that has made up the RegisterStation request of an update sends it with its next step, whatever
  happened in between: the station may have been destroyed and UnregisterStation sent by another worker, and then
  the audio server keeps a station that no longer exists here.
\<close>

theorem registration_comes_too_late:
  assumes "\<And>n. take_turn lb tls (turns n) (\<sigma> n) (\<sigma> (Suc n))" "\<And>n. turns n \<noteq> WorkerTurn i"
    and "reachable lb tls (\<sigma> 0)" "\<And>n. m_next_station (\<sigma> n) < int_max \<and> m_next_request (\<sigma> n) < int_max"
    and "\<And>n. m_running (\<sigma> n)" "about_to_register body (m_workers (\<sigma> 0) ! i)"
  shows "worker_step lb now i (\<sigma> n) = worker_call lb i ''RegisterStation'' body (\<sigma> n)"
proof -
  have "reachable lb tls (\<sigma> n) \<and> m_workers (\<sigma> n) ! i = m_workers (\<sigma> 0) ! i"
  proof (induction n)
    case (Suc n)
    have "reachable lb tls (\<sigma> (Suc n))" using take_turn_mgr [OF assms(1) [of n]] reach_step Suc assms(4) by metis
    then show ?case using other_worker_kept [OF assms(1) _ assms(5) assms(5) assms(2)] Suc by simp
  qed (simp add: assms(3))
  then show ?thesis using assms(6) by (auto simp: about_to_register_def worker_step_def)
qed

section \<open>An update, and the station destroyed behind it\<close>

text \<open>What a worker does with a job, other than a registration, while the server cannot be reached.\<close>

lemma unreachable_job:
  assumes "i < length (m_workers m)" "w_job (m_workers m ! i) = Some j" "j_kind j \<noteq> JobRegister"
    "w_reply (m_workers m ! i) = None" "\<not> w_exited (m_workers m ! i)" "unreachable (cl_conn (w_client (m_workers m ! i)))"
  shows "\<exists>w. m_workers (worker_step lb now2 i (worker_step lb now1 i m)) = (m_workers m)[i := w] \<and> w_job w = None
    \<and> w_reply w = None \<and> \<not> w_exited w \<and> unreachable (cl_conn (w_client w))
    \<and> m_jobs (worker_step lb now2 i (worker_step lb now1 i m)) = m_jobs m"
proof -
  let ?w = "m_workers m ! i"
  obtain e cl' where call: "call_rpc lb (j_rpc j) (j_body j) (w_client ?w) = (Inl (transport_error e), cl')"
      "unreachable (cl_conn cl')"
    using unreachable_call [OF assms(6)] by blast
  have 1: "worker_step lb now1 i m
      = upd_worker i (\<lambda>w. w\<lparr>w_client := cl', w_request := None, w_reply := Some (Inl (transport_error e))\<rparr>) m"
    using assms call by (simp add: worker_step_def worker_call_def)
  show ?thesis
    unfolding 1 using assms call
    by (intro exI [of _ "?w\<lparr>w_client := cl', w_request := None, w_job := None, w_reply := None\<rparr>"])
      (simp add: worker_step_def worker_handle_def Let_def)
qed

definition late_update :: mgr where
  "late_update = worker_step 64 0 1 offline_taken"

definition late_body :: string where
  "late_body = register_request_json (station_at offline_taken 0)"

definition late_destroy :: mgr where
  "late_destroy = snd (destroy_station 0 late_update)"

definition late_joined :: mgr where
  "late_joined = main_resume False dead_net (stream_step 64 0 0 late_destroy)"

definition late_run :: "nat \<Rightarrow> mgr" where
  "late_run n = (if n = 0 then late_update else if n = 1 then late_destroy else if n = 2 then stream_step 64 0 0 late_destroy
     else (worker_step 64 0 0 ^^ (n - 3)) late_joined)"

lemma late_update_shape:
  "late_update = upd_worker 1 (\<lambda>w. w\<lparr>w_request := Some late_body\<rparr>) offline_taken"
proof -
  have "w_request (m_workers offline_taken ! Suc 0) = None"
    unfolding offline_taken_shape by (simp add: offline_update_fields offline_server_fields)
  then show ?thesis
    by (simp add: late_update_def worker_step_def worker_register_def register_body_def quitting_def late_body_def
        offline_taken_fields register_job_def)
qed

lemma offline_more_fields:
  "m_pc offline_taken = MainIdle" "m_stations offline_taken = [(0, 0)]" "m_jobs offline_taken = []"
  "length (m_heap offline_taken) = 1" "length (m_threads offline_taken) = 1"
  "t_phase (m_threads offline_taken ! 0) = Registering k_min_backoff False"
  "w_job (m_workers offline_taken ! 0) = Some greeting" "w_reply (m_workers offline_taken ! 0) = None"
  "\<not> w_exited (m_workers offline_taken ! 0)" "unreachable (cl_conn (w_client (m_workers offline_taken ! 0)))"
  unfolding offline_taken_shape
  by (simp_all add: offline_update_def update_station_def find_station_def offline_station_fields upd_station_def enqueue_def
      offline_server_fields)
    (simp_all add: offline_station_def create_station_def find_station_by_slug_def offline_server_fields Let_def
      unreachable_def connected_def new_client_def new_conn_def dead_net_def quiet_sock_def)

lemma late_destroy_shape:
  "late_destroy = (upd_station 0 halt_station (late_update\<lparr>m_stations := []\<rparr>))\<lparr>m_pc := JoiningStation 0 0\<rparr>"
  by (simp add: late_destroy_def destroy_station_def find_station_def late_update_shape upd_worker_def offline_more_fields)

lemma late_thread_step: "stream_step 64 0 0 late_destroy = go 0 Finished late_destroy"
  by (simp add: late_destroy_shape stream_step_def thread_register_def register_body_def quitting_def station_at_def
      late_update_shape upd_worker_def offline_more_fields upd_station_def)

lemma late_joined_fields:
  "m_stations late_joined = []" "m_jobs late_joined = [unregister_job 0 (s_slug (station_at late_joined 0))]"
  "m_workers late_joined = m_workers late_update" "m_running late_joined" "m_next_station late_joined = 1"
  "m_next_request late_joined = 0"
proof -
  have j: "late_joined = destroy_joined 0 0 (go 0 Finished late_destroy)"
    unfolding late_joined_def late_thread_step
    by (simp add: main_resume_def thread_gone_def late_destroy_shape phase_go late_update_shape upd_worker_def
        offline_more_fields go_def upd_thread_def upd_station_def)
  show "m_stations late_joined = []" "m_jobs late_joined = [unregister_job 0 (s_slug (station_at late_joined 0))]"
    "m_workers late_joined = m_workers late_update" "m_running late_joined" "m_next_station late_joined = 1"
    "m_next_request late_joined = 0"
    by (simp_all add: j late_destroy_shape destroy_joined_def Let_def enqueue_def late_update_shape upd_worker_def offline_more_fields
        offline_taken_fields upd_station_def go_def upd_thread_def station_at_def)
qed

text \<open>The first worker answers both of its jobs, and has nothing left to do.\<close>

lemma late_end:
  "m_jobs ((worker_step 64 0 0 ^^ 5) late_joined) = []" "w_job (m_workers ((worker_step 64 0 0 ^^ 5) late_joined) ! 0) = None"
proof -
  let ?m = "late_joined" and ?g = "worker_step 64 0 0" and ?u = "unregister_job 0 (s_slug (station_at late_joined 0))"
  have len: "length (m_workers ?m) = 2"
    by (simp add: late_joined_fields late_update_shape upd_worker_def offline_taken_fields)
  have "m_workers ?m ! 0 = m_workers offline_taken ! 0"
    by (simp add: late_joined_fields late_update_shape upd_worker_def)
  then obtain w where 1: "m_workers (?g (?g ?m)) = (m_workers ?m)[0 := w]" "w_job w = None" "w_reply w = None" "\<not> w_exited w"
      "unreachable (cl_conn (w_client w))" "m_jobs (?g (?g ?m)) = [?u]"
    using unreachable_job [of 0 ?m greeting 64 0 0] offline_more_fields len late_joined_fields(2) by (auto simp: greeting_def)
  let ?w = "w\<lparr>w_job := Some ?u, w_backoff := k_min_backoff\<rparr>"
  have 2: "m_workers (?g (?g (?g ?m))) = (m_workers ?m)[0 := ?w]" "m_jobs (?g (?g (?g ?m))) = []"
    using 1 len by (simp_all add: worker_step_def [of 64 0 0 "?g (?g ?m)"] worker_take_def take_job_def upd_worker_def)
  have 3: "\<exists>w. m_workers (?g (?g (?g (?g (?g ?m))))) = (m_workers (?g (?g (?g ?m))))[0 := w] \<and> w_job w = None
      \<and> w_reply w = None \<and> \<not> w_exited w \<and> unreachable (cl_conn (w_client w)) \<and> m_jobs (?g (?g (?g (?g (?g ?m))))) = []"
    using unreachable_job [of 0 "?g (?g (?g ?m))" ?u 64 0 0] 1 2 len by (simp add: unregister_job_def)
  have five: "(?g ^^ 5) ?m = ?g (?g (?g (?g (?g ?m))))" by (simp add: eval_nat_numeral)
  show "m_jobs ((?g ^^ 5) ?m) = []" "w_job (m_workers ((?g ^^ 5) ?m) ! 0) = None"
    unfolding five using 3 2(1) len by auto
qed

lemma late_run_step: "take_turn 64 False (if n = 1 then StreamTurn 0 else if n = 0 \<or> n = 2 then MainTurn else WorkerTurn 0)
    (late_run n) (late_run (Suc n))"
proof -
  have pc: "m_pc late_update = MainIdle" by (simp add: late_update_shape upd_worker_def offline_more_fields)
  have "length (m_threads late_destroy) = 1"
    by (simp add: late_destroy_def destroy_station_def late_update_shape upd_worker_def offline_more_fields split: option.split)
  then have idle: "0 < length (m_threads late_destroy)" by simp
  have "length (m_workers ((worker_step 64 0 0 ^^ k) late_joined)) = 2 \<and> m_running ((worker_step 64 0 0 ^^ k) late_joined)" for k
    by (induction k) (simp_all add: worker_step_jobs late_joined_fields late_update_shape upd_worker_def offline_taken_fields)
  then have works: "take_turn 64 False (WorkerTurn 0) ((worker_step 64 0 0 ^^ k) late_joined) ((worker_step 64 0 0 ^^ Suc k) late_joined)" for k
    using worker_goes [of 0 "(worker_step 64 0 0 ^^ k) late_joined" 64 False 0] by simp
  consider "n = 0" | "n = 1" | "n = 2" | k where "n = k + 3"
    using le_Suc_ex [of 3 n] by (cases "3 \<le> n") (auto simp: add.commute eval_nat_numeral less_Suc_eq not_le)
  then show ?thesis
  proof cases
    case 1
    then show ?thesis using pc by (auto simp: late_run_def late_destroy_def intro: main_calls call_destroy)
  next
    case 2
    then show ?thesis using idle by (simp add: late_run_def stream_goes)
  next
    case 3
    then show ?thesis by (simp add: late_run_def late_joined_def main_waits)
  next
    case (4 k)
    then show ?thesis using works [of k] by (simp add: late_run_def)
  qed
qed

lemma late_reachable: "reachable 64 False late_update"
proof -
  have "mgr_step 64 False offline_taken late_update"
    unfolding late_update_def by (rule step_worker) (simp add: offline_taken_fields)
  then show ?thesis
    by (rule reach_step [OF offline_taken_reachable, rotated -1]) (simp_all add: offline_taken_fields)
qed

lemma late_run_fields: "m_running (late_run n) \<and> m_next_station (late_run n) = 1 \<and> m_next_request (late_run n) = 0"
proof -
  have "m_running ((worker_step 64 0 0 ^^ k) late_joined) \<and> m_next_station ((worker_step 64 0 0 ^^ k) late_joined) = 1
      \<and> m_next_request ((worker_step 64 0 0 ^^ k) late_joined) = 0" for k
  proof (induction k)
    case (Suc k)
    with frame_worker_step [of "(worker_step 64 0 0 ^^ k) late_joined" 64 0 0] show ?case by (simp add: thread_frame_def)
  qed (simp add: late_joined_fields)
  moreover have "m_running late_update \<and> m_next_station late_update = 1 \<and> m_next_request late_update = 0"
    by (simp add: late_update_shape upd_worker_def offline_taken_fields)
  moreover from this have "m_running late_destroy \<and> m_next_station late_destroy = 1 \<and> m_next_request late_destroy = 0"
    by (simp add: late_destroy_def destroy_station_def split: option.split)
  moreover have "m_running (stream_step 64 0 0 late_destroy) \<and> m_next_station (stream_step 64 0 0 late_destroy) = 1
      \<and> m_next_request (stream_step 64 0 0 late_destroy) = 0"
    by (simp add: late_thread_step go_def upd_thread_def calculation)
  ultimately show ?thesis by (simp add: late_run_def)
qed

lemma registration_comes_too_late_witness:
  "m_stations (late_run 8) = [] \<and> m_jobs (late_run 8) = [] \<and> w_job (m_workers (late_run 8) ! 0) = None
    \<and> worker_step 64 0 1 (late_run 8) = worker_call 64 1 ''RegisterStation'' late_body (late_run 8)"
proof (intro conjI)
  have "about_to_register late_body (m_workers (late_run 0) ! 1)"
    by (simp add: about_to_register_def late_run_def late_update_shape upd_worker_def offline_taken_fields register_job_def)
  with registration_comes_too_late [of 64 False _ late_run 1 late_body 0 8, OF late_run_step]
  show "worker_step 64 0 1 (late_run 8) = worker_call 64 1 ''RegisterStation'' late_body (late_run 8)"
    using late_reachable late_run_fields by (simp add: late_run_def [of 0])
  have "thread_frame late_joined ((worker_step 64 0 0 ^^ k) late_joined)" for k
    by (induction k) (auto intro: thread_frame_trans frame_worker_step)
  then show "m_stations (late_run 8) = []"
    by (simp add: late_run_def thread_frame_def late_joined_fields)
qed (simp_all add: late_run_def late_end)

end
