(* ===== verification/Stream_Data.thy ===== *)
theory Stream_Data
  imports Event_Framing
begin

text \<open>
  An event stream on any connection: its peer may fall silent, so that reads time out, at any point, and may end
  the stream or fail at any point. What arrives before that reaches the reader: a read that times out keeps
  every byte, a read that brings data takes it off the front, and a read that reports the end leaves nothing
  behind. The envelopes that \<^verbatim>\<open>Read\<close> reports are those of the reference \<open>ref_frame\<close>.
\<close>

section \<open>What a socket still delivers\<close>

fun before_stop :: "recv_event list \<Rightarrow> string" where
  "before_stop [] = []"
| "before_stop (RecvData d # es) = (if d = [] then [] else d @ before_stop es)"
| "before_stop (RecvBlock # es) = before_stop es"
| "before_stop (RecvFail e # es) = []"

definition sock_data :: "sock \<Rightarrow> string" where
  "sock_data s = (if (if over_tls s then ssl_session s \<noteq> None else fd s) then before_stop (read_answers s) else [])"

text \<open>The law of a read, at every layer: what it hands out was next, and only the end loses the rest.\<close>

definition read_law :: "'a rd \<Rightarrow> ('a \<Rightarrow> string) \<Rightarrow> string \<Rightarrow> string \<Rightarrow> bool" where
  "read_law r taken before after \<longleftrightarrow>
     (case r of Got d \<Rightarrow> before = taken d @ after | Pending \<Rightarrow> after = before | Stopped e \<Rightarrow> before = [])"

lemma sock_recv_law: "sock_recv len tmo s = (r, s') \<Longrightarrow> 0 < len \<Longrightarrow> read_law r id (sock_data s) (sock_data s')"
  by (auto simp: transport_defs sock_data_def read_law_def read_answers_def
      split: if_splits list.splits recv_event.splits ssl_read.splits option.splits)

section \<open>What a connection still delivers\<close>

definition conn_data :: "conn \<Rightarrow> string" where
  "conn_data c = unread c @ sock_data (c_sock c)"

lemma conn_data_fields [simp]:
  "conn_data (c\<lparr>c_remaining := n\<rparr>) = conn_data c" "conn_data (c\<lparr>c_need_size := b\<rparr>) = conn_data c"
  "conn_data (c\<lparr>c_done := b\<rparr>) = conn_data c" "conn_data (c\<lparr>c_mode := m\<rparr>) = conn_data c"
  "buf_ok (c\<lparr>c_remaining := n\<rparr>) = buf_ok c" "buf_ok (c\<lparr>c_need_size := b\<rparr>) = buf_ok c"
  "buf_ok (c\<lparr>c_done := b\<rparr>) = buf_ok c" "buf_ok (c\<lparr>c_mode := m\<rparr>) = buf_ok c"
  by (simp_all add: conn_data_def buf_ok_def)

lemma fill_law:
  assumes "fill tmo c = (r, c')" "buf_ok c"
  shows "buf_ok c'" "case r of Stopped e \<Rightarrow> conn_data c = unread c \<and> unread c' = unread c | _ \<Rightarrow> conn_data c' = conn_data c"
proof -
  have "read_law r id (sock_data (c_sock c)) (sock_data (c_sock c'))"
    using sock_recv_law [OF fill_cases(2) [OF assms(1)]] by simp
  with fill_cases(3) [OF assms] show "case r of Stopped e \<Rightarrow> conn_data c = unread c \<and> unread c' = unread c | _ \<Rightarrow> conn_data c' = conn_data c"
    by (cases r) (simp_all add: read_law_def conn_data_def)
  show "buf_ok c'" using fill_cases(4) [OF assms] .
qed

lemma skip_law: "n \<le> length (unread c) \<Longrightarrow> buf_ok c \<Longrightarrow> buf_ok (skip_bytes n c) \<and> conn_data (skip_bytes n c) = drop n (conn_data c)"
  by (simp add: conn_data_def) (auto simp: skip_bytes_def buf_ok_def unread_def)

lemma read_line_law:
  "read_line tmo c = (r, c') \<Longrightarrow> buf_ok c \<Longrightarrow> buf_ok c' \<and>
    (case r of Got l \<Rightarrow> ref_line (conn_data c) = Some (l, conn_data c') | Pending \<Rightarrow> conn_data c' = conn_data c
     | Stopped e \<Rightarrow> ref_line (conn_data c) = None)"
proof (induction tmo c arbitrary: r c' rule: read_line.induct)
  case (1 tmo c)
  show ?case
  proof (cases "find_char (CHR 0x0A) (unread c)")
    case (Some i)
    then have "find_char (CHR 0x0A) (conn_data c) = Some i" "i < length (unread c)"
      unfolding conn_data_def by (auto simp: find_char_append_left find_char_mem find_char_bound)
    with Some "1.prems" skip_law [of "Suc i" c] show ?thesis
      by (auto simp: ref_line_def read_line.simps [of tmo c] conn_data_def)
  next
    case None
    obtain r1 c1 where f: "fill tmo c = (r1, c1)" by fastforce
    note law = fill_law [OF f "1.prems"(2)]
    show ?thesis
    proof (cases r1)
      case (Got d)
      with f None "1.prems" have "read_line tmo c1 = (r, c')" by (simp add: read_line.simps [of tmo c])
      from "1.IH" [OF None _ refl this] f Got law show ?thesis by (cases r) simp_all
    qed (use f None "1.prems" law in \<open>auto simp: read_line.simps [of tmo c] ref_line_def\<close>)
  qed
qed

lemma size_line_law:
  "size_line tmo c = (r, c') \<Longrightarrow> buf_ok c \<Longrightarrow> buf_ok c' \<and>
    (case r of Got l \<Rightarrow> ref_size (conn_data c) = Some (l, conn_data c') | Pending \<Rightarrow> ref_size (conn_data c') = ref_size (conn_data c)
     | Stopped e \<Rightarrow> ref_size (conn_data c) = None)"
proof (induction tmo c arbitrary: r c' rule: size_line.induct)
  case (1 tmo c)
  obtain r1 c1 where f: "read_line tmo c = (r1, c1)" by fastforce
  note law = read_line_law [OF f "1.prems"(2)]
  show ?case
  proof (cases "r1 = Got []")
    case True
    with f "1.prems" have "size_line tmo c1 = (r, c')" by (simp add: size_line.simps [of tmo c])
    moreover have "ref_size (conn_data c) = ref_size (conn_data c1)" using law True by (simp add: ref_size.simps [of "conn_data c"])
    ultimately show ?thesis using "1.IH" [OF f [symmetric] True refl] law by (cases r) simp_all
  next
    case False
    then show ?thesis using f "1.prems" law
      by (cases r1) (auto simp: size_line.simps [of tmo c] ref_size.simps [of "conn_data c"] split: if_splits)
  qed
qed

section \<open>What a body still delivers\<close>

definition counted_data :: "conn \<Rightarrow> string" where
  "counted_data c = take (nat (c_remaining c)) (conn_data c)"

definition body_data :: "conn \<Rightarrow> string" where
  "body_data c =
     (if c_done c then [] else case c_mode c of
        BodyNone \<Rightarrow> []
      | BodyLength \<Rightarrow> counted_data c
      | BodyChunked \<Rightarrow>
          if c_need_size c then part_chunked (conn_data c)
          else counted_data c @ part_chunked (drop (nat (c_remaining c)) (conn_data c))
      | BodyUntilClose \<Rightarrow> conn_data c)"

lemma have_bytes_law:
  assumes "have_bytes tmo c = (r, c')" "buf_ok c"
  shows "buf_ok c' \<and> (case r of Stopped e \<Rightarrow> conn_data c = [] | _ \<Rightarrow> conn_data c' = conn_data c)"
proof (cases "unread c = []")
  case True
  then have "fill tmo c = (r, c')" using assms(1) by (simp add: have_bytes_def)
  from fill_law [OF this assms(2)] True show ?thesis by (cases r) simp_all
qed (use assms in \<open>auto simp: have_bytes_def\<close>)

lemma take_body_law:
  assumes "take_body c = (d, c')" "buf_ok c"
  shows "buf_ok c'" "conn_data c = d @ conn_data c'" "c_remaining c' = c_remaining c - int (length d)"
    "length d \<le> nat (c_remaining c)"
proof -
  define n where "n = (if int (length (unread c)) > c_remaining c then nat (c_remaining c) else length (unread c))"
  have n: "n \<le> length (unread c)" "n \<le> nat (c_remaining c)" by (auto simp: n_def)
  have d: "d = take n (unread c)" "c' = (skip_bytes n c)\<lparr>c_remaining := c_remaining c - int n\<rparr>"
    using assms(1) by (auto simp: take_body_def Let_def n_def)
  then have len: "length d = n" using n(1) by simp
  show "buf_ok c'" using skip_law [OF n(1) assms(2)] d(2) by simp
  have "conn_data c = take n (conn_data c) @ drop n (conn_data c)" by simp
  also have "take n (conn_data c) = d" using n(1) d(1) by (simp add: conn_data_def)
  also have "drop n (conn_data c) = conn_data c'" using skip_law [OF n(1) assms(2)] d(2) by simp
  finally show "conn_data c = d @ conn_data c'" .
  show "c_remaining c' = c_remaining c - int (length d)" using d(2) len by simp
  show "length d \<le> nat (c_remaining c)" using n(2) len by simp
qed

lemma counted_split:
  assumes "take_body c = (d, c')" "buf_ok c"
  shows "counted_data c = d @ counted_data c'"
    "drop (nat (c_remaining c)) (conn_data c) = drop (nat (c_remaining c')) (conn_data c')"
proof -
  note law = take_body_law [OF assms]
  have "nat (c_remaining c) = length d + nat (c_remaining c')" using law(3,4) by linarith
  then show "counted_data c = d @ counted_data c'" "drop (nat (c_remaining c)) (conn_data c) = drop (nat (c_remaining c')) (conn_data c')"
    by (simp_all add: counted_data_def law(2))
qed

text \<open>The two bodies that are counted, behind their line.\<close>

lemma counted_read_law:
  assumes "have_bytes tmo c = (rb, c1)" "buf_ok c"
    and "(r, c') = (case rb of Got _ \<Rightarrow> (case take_body c1 of (d, c2) \<Rightarrow> (Chunk d, if c_remaining c2 \<le> 0 then upd c2 else c2))
       | Pending \<Rightarrow> (NotYet, c1) | Stopped e \<Rightarrow> (Ended (Some e), c1))"
    and "\<And>c. buf_ok (upd c) = buf_ok c"
  shows "buf_ok c' \<and> (case r of
      Chunk d \<Rightarrow> \<exists>c2. c' = (if c_remaining c2 \<le> 0 then upd c2 else c2) \<and> counted_data c = d @ counted_data c2
        \<and> drop (nat (c_remaining c)) (conn_data c) = drop (nat (c_remaining c2)) (conn_data c2)
        \<and> c_mode c2 = c_mode c \<and> c_need_size c2 = c_need_size c \<and> c_done c2 = c_done c
    | NotYet \<Rightarrow> conn_data c' = conn_data c \<and> same_body c c' | Ended e \<Rightarrow> conn_data c = [])"
proof -
  note h = have_bytes_law [OF assms(1,2)]
  have sb: "same_body c c1" using have_bytes_frame(1) [OF assms(1)] .
  show ?thesis
  proof (cases rb)
    case (Got x)
    obtain d c2 where t: "take_body c1 = (d, c2)" by fastforce
    have "buf_ok c1" "conn_data c1 = conn_data c" "c_remaining c1 = c_remaining c"
      using h Got same_body_fields [OF sb] by simp_all
    moreover from this have "counted_data c1 = counted_data c" by (simp add: counted_data_def)
    ultimately show ?thesis
      using counted_split [OF t] take_body_law(1) [OF t] assms(3,4) Got t same_body_fields [OF sb] take_body_fields [of c1]
      by (auto intro!: exI [of _ c2])
  qed (use h assms(3) sb in simp_all)
qed

lemma chunk_header_law:
  assumes "chunk_header tmo c = (r, c')" "buf_ok c" "c_mode c = BodyChunked" "\<not> c_done c"
  shows "buf_ok c' \<and> (case r of
      None \<Rightarrow> body_data c' = body_data c \<and> c_mode c' = BodyChunked \<and> \<not> c_done c' \<and> \<not> c_need_size c'
    | Some NotYet \<Rightarrow> body_data c' = body_data c | Some (Ended e) \<Rightarrow> body_data c = [] | Some (Chunk d) \<Rightarrow> False)"
proof (cases "c_need_size c")
  case True
  obtain rl c1 where l: "size_line tmo c = (rl, c1)" by fastforce
  note law = size_line_law [OF l assms(2)]
  note same = same_body_fields [OF size_line_same_body [OF l]]
  show ?thesis
  proof (cases rl)
    case (Got t)
    with law have "part_chunked (conn_data c) = (if chunk_size t \<le> 0 then []
        else take (nat (chunk_size t)) (conn_data c1) @ part_chunked (drop (nat (chunk_size t)) (conn_data c1)))"
      by (subst part_chunked.simps) simp
    then show ?thesis
      using assms l Got law True same
      by (auto simp: chunk_header_def body_data_def counted_data_def split: if_splits)
  next
    case Pending
    with law have "part_chunked (conn_data c1) = part_chunked (conn_data c)" by (simp add: part_chunked.simps)
    then show ?thesis using assms l Pending law True same by (auto simp: chunk_header_def body_data_def)
  next
    case (Stopped e)
    with law have "part_chunked (conn_data c) = []" by (subst part_chunked.simps) simp
    then show ?thesis using assms l Stopped law True by (auto simp: chunk_header_def body_data_def)
  qed
qed (use assms in \<open>auto simp: chunk_header_def\<close>)

lemma read_body_law:
  assumes "read_body tmo c = (r, c')" "buf_ok c"
  shows "buf_ok c' \<and> (case r of Chunk d \<Rightarrow> body_data c = d @ body_data c' | NotYet \<Rightarrow> body_data c' = body_data c
    | Ended e \<Rightarrow> body_data c = [])"
proof (cases "c_done c")
  case False
  show ?thesis
  proof (cases "c_mode c")
    case BodyNone
    then show ?thesis using assms False by (auto simp: read_body_def body_data_def buf_ok_def)
  next
    case BodyLength
    obtain rb c1 where h: "have_bytes tmo c = (rb, c1)" by fastforce
    have "(r, c') = (case rb of Got _ \<Rightarrow> (case take_body c1 of (d, c2) \<Rightarrow> (Chunk d, if c_remaining c2 \<le> 0 then c2\<lparr>c_done := True\<rparr> else c2))
       | Pending \<Rightarrow> (NotYet, c1) | Stopped e \<Rightarrow> (Ended (Some e), c1))"
      using assms(1) False BodyLength h by (simp add: read_body_def split: rd.splits)
    note law = counted_read_law [OF h assms(2) this]
    show ?thesis
    proof (cases r)
      case (Chunk d)
      with law obtain c2 where "c' = (if c_remaining c2 \<le> 0 then c2\<lparr>c_done := True\<rparr> else c2)" "buf_ok c'"
          "counted_data c = d @ counted_data c2" "c_mode c2 = c_mode c" "c_done c2 = c_done c" by auto
      with Chunk False BodyLength show ?thesis
        by (cases "c_remaining c2 \<le> 0") (simp_all add: body_data_def counted_data_def)
    qed (use law False BodyLength same_body_fields [of c c'] in \<open>auto simp: body_data_def counted_data_def\<close>)
  next
    case BodyChunked
    obtain o0 c0 where k: "chunk_header tmo c = (o0, c0)" by fastforce
    note law = chunk_header_law [OF k assms(2) BodyChunked False]
    show ?thesis
    proof (cases o0)
      case None
      obtain rb c1 where h: "have_bytes tmo c0 = (rb, c1)" by fastforce
      have "(r, c') = (case rb of Got _ \<Rightarrow> (case take_body c1 of (d, c2) \<Rightarrow> (Chunk d, if c_remaining c2 \<le> 0 then c2\<lparr>c_need_size := True\<rparr> else c2))
         | Pending \<Rightarrow> (NotYet, c1) | Stopped e \<Rightarrow> (Ended (Some e), c1))"
        using assms(1) False BodyChunked h k None by (simp add: read_body_def split: rd.splits)
      note read = counted_read_law [OF h _ this]
      have before: "body_data c = counted_data c0 @ part_chunked (drop (nat (c_remaining c0)) (conn_data c0))"
      proof -
        have f: "c_mode c0 = BodyChunked" "\<not> c_done c0" "\<not> c_need_size c0" "body_data c0 = body_data c" using law None by simp_all
        then have "body_data c0 = counted_data c0 @ part_chunked (drop (nat (c_remaining c0)) (conn_data c0))"
          by (simp add: body_data_def)
        with f(4) show ?thesis by simp
      qed
      show ?thesis
      proof (cases r)
        case (Chunk d)
        with read law None obtain c2 where "c' = (if c_remaining c2 \<le> 0 then c2\<lparr>c_need_size := True\<rparr> else c2)" "buf_ok c'"
            "counted_data c0 = d @ counted_data c2" "drop (nat (c_remaining c0)) (conn_data c0) = drop (nat (c_remaining c2)) (conn_data c2)"
            "c_mode c2 = BodyChunked" "\<not> c_done c2" "\<not> c_need_size c2" by auto
        moreover from this have "body_data c' = counted_data c2 @ part_chunked (drop (nat (c_remaining c2)) (conn_data c2))"
          by (cases "c_remaining c2 \<le> 0") (simp_all add: body_data_def counted_data_def)
        ultimately show ?thesis using Chunk before by simp
      next
        case NotYet
        with read law None have "conn_data c' = conn_data c0" "same_body c0 c'" "buf_ok c'" by simp_all
        moreover from this law None have "body_data c' = body_data c0"
          using same_body_fields [of c0 c'] by (simp add: body_data_def counted_data_def)
        ultimately show ?thesis using NotYet law None by simp
      next
        case (Ended e)
        with read law None have "buf_ok c'" "conn_data c0 = []" by simp_all
        with Ended before show ?thesis by (simp add: counted_data_def)
      qed
    next
      case (Some x)
      then show ?thesis
        using law k assms(1) False BodyChunked by (cases x) (auto simp: read_body_def)
    qed
  next
    case BodyUntilClose
    obtain rb c1 where h: "have_bytes tmo c = (rb, c1)" by fastforce
    note law = have_bytes_law [OF h assms(2)]
    note same = same_body_fields [OF have_bytes_frame(1) [OF h]]
    show ?thesis
    proof (cases rb)
      case (Got x)
      then have r: "r = Chunk (unread c1)" "c' = skip_bytes (length (unread c1)) c1"
        using assms(1) False BodyUntilClose h by (simp_all add: read_body_def)
      have "conn_data c = unread c1 @ conn_data c'" using law Got r skip_law [of "length (unread c1)" c1] by (simp add: conn_data_def)
      then show ?thesis
        using law Got r same False BodyUntilClose skip_law [of "length (unread c1)" c1] by (simp add: body_data_def)
    qed (use assms(1) False BodyUntilClose h law same in \<open>auto simp: read_body_def body_data_def\<close>)
  qed
qed (use assms in \<open>auto simp: read_body_def body_data_def\<close>)

section \<open>What a stream still delivers\<close>

definition stream_data :: "stream \<Rightarrow> string" where
  "stream_data st = drop (st_pos st) (st_pending st) @ (if st_ended st then [] else body_data (st_conn st))"

text \<open>The two read positions are within their buffers.\<close>

definition stream_ok :: "stream \<Rightarrow> bool" where
  "stream_ok st \<longleftrightarrow> st_pos st \<le> length (st_pending st) \<and> buf_ok (st_conn st)"

lemma frame_of_pending:
  assumes "drop (st_pos st) (st_pending st) = p" "length_fits lb (stream_data st)"
  shows "5 \<le> length p \<and> envelope_size lb p \<le> length p \<longleftrightarrow> 5 \<le> length p \<and> 5 + envelope_length p \<le> length p"
    "5 \<le> length p \<Longrightarrow> envelope_size lb p = 5 + envelope_length p"
proof -
  have "envelope_size lb p = 5 + envelope_length p" if "5 \<le> length p"
    using assms(2) envelope_length_append [OF that, of "if st_ended st then [] else body_data (st_conn st)"] that assms(1)
    by (auto simp: length_fits_def stream_data_def envelope_size_def)
  then show "5 \<le> length p \<and> envelope_size lb p \<le> length p \<longleftrightarrow> 5 \<le> length p \<and> 5 + envelope_length p \<le> length p"
    "5 \<le> length p \<Longrightarrow> envelope_size lb p = 5 + envelope_length p" by auto
qed

lemma stream_read_law:
  "stream_read lb tmo st = (r, st') \<Longrightarrow> stream_ok st \<Longrightarrow> length_fits lb (stream_data st) \<Longrightarrow> stream_ok st' \<and>
    (case r of
       Quiet \<Rightarrow> stream_data st' = stream_data st
     | Event v \<Rightarrow> \<exists>flags payload. ref_frame (stream_data st) = Some (flags, payload, stream_data st') \<and> frame_result flags payload = Event v
     | Lost e \<Rightarrow> ref_frame (stream_data st) = None
         \<or> (\<exists>flags payload rest. ref_frame (stream_data st) = Some (flags, payload, rest) \<and> frame_result flags payload = Lost e))"
proof (induction lb tmo st arbitrary: r st' rule: stream_read.induct)
  case (1 lb tmo st)
  obtain p where p: "drop (st_pos st) (st_pending st) = p" by simp
  define q where "q = (if st_ended st then [] else body_data (st_conn st))"
  have data: "stream_data st = p @ q" by (simp add: stream_data_def p q_def)
  note fits = frame_of_pending [OF p "1.prems"(3)]
  show ?case
  proof (cases "5 \<le> length p \<and> envelope_size lb p \<le> length p")
    case True
    let ?n = "5 + envelope_length p" and ?r = "frame_result (byte (p ! 0)) (take (envelope_length p) (drop 5 p))"
    have size: "envelope_size lb p = ?n" "5 \<le> length p" "?n \<le> length p" using True fits by simp_all
    let ?st1 = "skip_pending ?n st"
    have "r = ?r" "st' = ?st1 \<or> (\<exists>e. ?r = Lost e) \<and> st' = ?st1\<lparr>st_ended := True\<rparr>"
      using "1.prems"(1) True size p by (auto simp: stream_read.simps [of lb tmo st] Let_def split: event_read.splits)
    moreover have "stream_ok ?st1"
      using "1.prems"(2) size(3) p skip_pending_drop(2) [of ?n st] by (auto simp: stream_ok_def intro: skip_pending_pos)
    moreover have "stream_data ?st1 = drop ?n p @ q"
      unfolding stream_data_def skip_pending_drop by (simp add: p q_def)
    moreover have "ref_frame (stream_data st) = Some (byte (p ! 0), take (envelope_length p) (drop 5 p), drop ?n p @ q)"
      unfolding data by (rule ref_frame_append [OF size(2,3)])
    ultimately show ?thesis
      using frame_result_not_quiet [of "byte (p ! 0)" "take (envelope_length p) (drop 5 p)"]
      by (cases ?r) (auto simp: stream_ok_def)
  next
    case False
    then have read: "stream_read lb tmo st =
        (if st_ended st then (Lost (transport_error ''event stream ended''), st)
         else case read_body tmo (st_conn st) of
             (NotYet, c) \<Rightarrow> (Quiet, st\<lparr>st_conn := c\<rparr>)
           | (Ended e, c) \<Rightarrow>
               (Lost (transport_error (case e of Some m \<Rightarrow> if m = [] then ''event stream ended'' else m
                                                | None \<Rightarrow> ''event stream ended'')),
                st\<lparr>st_conn := c, st_ended := True\<rparr>)
           | (Chunk d, c) \<Rightarrow> stream_read lb tmo (st\<lparr>st_conn := c, st_pending := st_pending st @ d\<rparr>))"
      using p by (subst stream_read.simps) (simp only: Let_def if_False)
    have none: "ref_frame p = None" using False fits(1) by (auto simp: ref_frame_def)
    show ?thesis
    proof (cases "st_ended st")
      case True
      then show ?thesis using read "1.prems" data none by (auto simp: q_def)
    next
      case ended: False
      obtain b c where b: "read_body tmo (st_conn st) = (b, c)" by fastforce
      have buf: "buf_ok (st_conn st)" "st_pos st \<le> length (st_pending st)" using "1.prems"(2) by (simp_all add: stream_ok_def)
      note law = read_body_law [OF b buf(1)]
      show ?thesis
      proof (cases b)
        case (Chunk d)
        let ?st1 = "st\<lparr>st_conn := c, st_pending := st_pending st @ d\<rparr>"
        have same: "stream_data ?st1 = stream_data st" "stream_ok ?st1"
          using law Chunk ended buf by (simp_all add: stream_data_def stream_ok_def)
        have "stream_read lb tmo ?st1 = (r, st')" using "1.prems"(1) read ended b Chunk by simp
        from "1.IH" [OF refl _ ended b [symmetric] Chunk this] False p same "1.prems"(3) show ?thesis by (cases r) simp_all
      next
        case NotYet
        then show ?thesis
          using "1.prems"(1) read ended b law buf by (auto simp: stream_data_def stream_ok_def)
      next
        case (Ended e)
        then have "q = []" using law ended by (simp add: q_def)
        then show ?thesis
          using "1.prems"(1) read ended b law buf Ended none data by (auto simp: stream_ok_def)
      qed
    qed
  qed
qed

end
