(* ===== verification/Stream_Callbacks.thy ===== *)
theory Stream_Callbacks
  imports Late_Registration Stream_Data
begin

text \<open>
  From the bytes of an event stream to the callbacks of the scripts. What the audio server says of a station in the
  body of its event stream determines, envelope by envelope, the callbacks that are pushed for it; the other
  threads and the main thread add none, lose none and change no order.
\<close>

section \<open>What a stream says\<close>

text \<open>The callbacks of one event, and those of a body. EvError is left out: it has other sources too.\<close>

definition event_callbacks :: "int \<Rightarrow> json \<Rightarrow> pawn_event list" where
  "event_callbacks i v =
     (let e = no_event\<lparr>ev_station := i\<rparr>; type = get_str v ''type'' [] in
      if type = ''EVENT_TYPE_TRACK_STARTED'' then
        (let t = track_from_json (get v ''trackStarted'') no_track in
         [e\<lparr>ev_kind := EvTrackStarted, ev_queue_id := tr_queue_id t, ev_location := tr_location t, ev_title := tr_title t,
            ev_artist := tr_artist t, ev_cover_art := tr_cover_art t, ev_num1 := tr_duration t\<rparr>])
      else if type = ''EVENT_TYPE_TRACK_ENDED'' then
        [e\<lparr>ev_kind := EvTrackEnded, ev_queue_id := get_str (get v ''trackEnded'') ''queueId'' [],
           ev_text := get_str (get v ''trackEnded'') ''reason'' []\<rparr>]
      else if type = ''EVENT_TYPE_QUEUE_UPDATED'' then
        [e\<lparr>ev_kind := EvQueueUpdated, ev_num1 := get_int (get v ''queueUpdated'') ''queueLength'' 0\<rparr>]
      else if type = ''EVENT_TYPE_LISTENER_COUNT_CHANGED'' then
        [e\<lparr>ev_kind := EvListenerCount, ev_num1 := get_int (get v ''listenerCountChanged'') ''listenerCount'' 0\<rparr>]
      else if type = ''EVENT_TYPE_QUEUE_LOW'' then
        [e\<lparr>ev_kind := EvQueueLow, ev_num1 := get_int (get v ''queueLow'') ''queueLength'' 0,
           ev_num2 := get_int (get v ''queueLow'') ''threshold'' 0\<rparr>]
      else if type = ''EVENT_TYPE_SILENCE_STARTED'' then [e\<lparr>ev_kind := EvSilenceStarted\<rparr>]
      else if type = ''EVENT_TYPE_SILENCE_ENDED'' then [e\<lparr>ev_kind := EvSilenceEnded\<rparr>]
      else [])"

lemma ref_frame_shorter: "ref_frame s = Some (flags, payload, rest) \<Longrightarrow> length rest < length s"
  by (auto simp: ref_frame_def split: if_splits)

function body_callbacks :: "int \<Rightarrow> string \<Rightarrow> pawn_event list" where
  "body_callbacks i s =
     (case ref_frame s of
        None \<Rightarrow> []
      | Some (flags, payload, rest) \<Rightarrow>
          (case frame_result flags payload of Event v \<Rightarrow> event_callbacks i v @ body_callbacks i rest | _ \<Rightarrow> []))"
  by pat_completeness auto
termination
  by (relation "measure (\<lambda>(i, s). length s)") (auto dest: ref_frame_shorter [OF sym] ref_frame_shorter)

declare body_callbacks.simps [simp del]

text \<open>
  The length of every envelope of a body can be added to the header without wrapping. Where \<^verbatim>\<open>unsigned long\<close> has more
  than 32 bits that is always so.
\<close>

function body_fits :: "nat \<Rightarrow> string \<Rightarrow> bool" where
  "body_fits lb s \<longleftrightarrow> length_fits lb s \<and>
     (case ref_frame s of None \<Rightarrow> True | Some (flags, payload, rest) \<Rightarrow> body_fits lb rest)"
  by pat_completeness auto
termination
  by (relation "measure (\<lambda>(lb, s). length s)") (auto dest: ref_frame_shorter [OF sym] ref_frame_shorter)

declare body_fits.simps [simp del]

text \<open>The callbacks of a station that only its stream makes.\<close>

definition of_stream :: "int \<Rightarrow> pawn_event \<Rightarrow> bool" where
  "of_stream i e \<longleftrightarrow> ev_station e = i \<and> ev_kind e \<in> {EvTrackStarted, EvTrackEnded, EvQueueUpdated, EvListenerCount, EvQueueLow,
     EvSilenceStarted, EvSilenceEnded}"

text \<open>What is still to come of them: for the event that was read last, and for the rest of the body.\<close>

definition to_come :: "nat \<Rightarrow> mgr \<Rightarrow> pawn_event list" where
  "to_come a m =
     (case s_stream (m_heap m ! a) of
        None \<Rightarrow> []
      | Some st \<Rightarrow>
          (case t_phase (m_threads m ! a) of
             Reading \<Rightarrow> body_callbacks (int a) (stream_data st)
           | ReadDone Quiet \<Rightarrow> body_callbacks (int a) (stream_data st)
           | ReadDone (Event v) \<Rightarrow> event_callbacks (int a) v @ body_callbacks (int a) (stream_data st)
           | _ \<Rightarrow> []))"

text \<open>A thread that has subscribed, with a stream that may go on, or one that has lost its stream.\<close>

definition readable :: "nat \<Rightarrow> stream \<Rightarrow> bool" where
  "readable lb st \<longleftrightarrow> stream_ok st \<and> body_fits lb (stream_data st)"

definition following :: "nat \<Rightarrow> nat \<Rightarrow> mgr \<Rightarrow> bool" where
  "following lb a m \<longleftrightarrow> a < length (m_threads m) \<and>
     (case t_phase (m_threads m ! a) of
        Opening slug \<Rightarrow> False
      | SubscribeAnswered r \<Rightarrow> False
      | Reading \<Rightarrow> (\<exists>st. s_stream (m_heap m ! a) = Some st \<and> readable lb st)
      | ReadDone r \<Rightarrow> (\<exists>st. s_stream (m_heap m ! a) = Some st \<and> ((\<forall>e. r \<noteq> Lost e) \<longrightarrow> readable lb st))
      | _ \<Rightarrow> True)"

section \<open>Its own thread\<close>

lemma dispatch_callbacks:
  "\<exists>es. m_dispatch (dispatch_station_event now a v m) = m_dispatch m @ es
     \<and> filter (of_stream (s_id (station_at m a))) es = event_callbacks (s_id (station_at m a)) v
     \<and> (\<forall>i. i \<noteq> s_id (station_at m a) \<longrightarrow> filter (of_stream i) es = [])"
  by (simp add: dispatch_station_event_def event_callbacks_def of_stream_def no_event_def Let_def)

lemma wide_length: "33 \<le> lb \<Longrightarrow> length_fits lb s"
proof -
  assume lb: "33 \<le> lb"
  have "byte (s ! 1) * 16777216 + byte (s ! 2) * 65536 + byte (s ! 3) * 256 + byte (s ! 4) < 4294967296"
    using byte_bound [of "s ! 1"] byte_bound [of "s ! 2"] byte_bound [of "s ! 3"] byte_bound [of "s ! 4"] by linarith
  then have "5 + envelope_length s < 2 ^ 33" by (simp add: envelope_length_def)
  also have "(2::nat) ^ 33 \<le> 2 ^ lb" using lb by (intro power_increasing) simp_all
  finally show ?thesis by (simp add: length_fits_def)
qed

lemma wide_body: "33 \<le> lb \<Longrightarrow> body_fits lb s"
proof (induction lb s rule: body_fits.induct)
  case (1 lb s)
  then show ?case
    by (subst body_fits.simps) (auto simp: wide_length split: option.split)
qed

lemma read_callbacks:
  assumes "readable lb st" "stream_read lb tmo st = (r, st')"
  shows "body_callbacks i (stream_data st) =
      (case r of Quiet \<Rightarrow> body_callbacks i (stream_data st') | Lost e \<Rightarrow> []
       | Event v \<Rightarrow> event_callbacks i v @ body_callbacks i (stream_data st'))"
    "(\<forall>e. r \<noteq> Lost e) \<Longrightarrow> readable lb st'"
proof -
  have fits: "length_fits lb (stream_data st)"
    and rest: "\<And>f p t. ref_frame (stream_data st) = Some (f, p, t) \<Longrightarrow> body_fits lb t"
    using assms(1) by (auto simp: readable_def body_fits.simps [of lb "stream_data st"])
  have "stream_ok st" using assms(1) by (simp add: readable_def)
  note law = stream_read_law [OF assms(2) this fits]
  have "body_callbacks i (stream_data st) =
      (case r of Quiet \<Rightarrow> body_callbacks i (stream_data st') | Lost e \<Rightarrow> []
       | Event v \<Rightarrow> event_callbacks i v @ body_callbacks i (stream_data st')) \<and> ((\<forall>e. r \<noteq> Lost e) \<longrightarrow> readable lb st')"
  proof (cases r)
    case (Event v)
    with law obtain flags payload where
      f: "ref_frame (stream_data st) = Some (flags, payload, stream_data st')" "frame_result flags payload = Event v" by auto
    then show ?thesis using Event law rest [OF f(1)] by (simp add: body_callbacks.simps [of i "stream_data st"] readable_def)
  next
    case Quiet
    then show ?thesis using law assms(1) by (simp add: readable_def)
  next
    case (Lost e)
    then show ?thesis using law by (auto simp: body_callbacks.simps [of i "stream_data st"])
  qed
  then show "body_callbacks i (stream_data st) =
      (case r of Quiet \<Rightarrow> body_callbacks i (stream_data st') | Lost e \<Rightarrow> []
       | Event v \<Rightarrow> event_callbacks i v @ body_callbacks i (stream_data st'))"
    "(\<forall>e. r \<noteq> Lost e) \<Longrightarrow> readable lb st'" by auto
qed

text \<open>What a step pushes, as far as it concerns the stream of a station.\<close>

definition delivers :: "nat \<Rightarrow> mgr \<Rightarrow> pawn_event list \<Rightarrow> mgr \<Rightarrow> bool" where
  "delivers a m es m' \<longleftrightarrow> filter (of_stream (int a)) (pushed m m') = es"

lemma delivers_new: "m_dispatch m' = m_dispatch m @ es \<Longrightarrow> delivers a m (filter (of_stream (int a)) es) m'"
  by (simp add: delivers_def)

lemma delivers_none:
  "m_dispatch m' = m_dispatch m \<Longrightarrow> delivers a m [] m'" "m_dispatch m' = [] \<Longrightarrow> delivers a m [] m'"
  "m_dispatch m' = m_dispatch m @ es \<Longrightarrow> filter (of_stream (int a)) es = [] \<Longrightarrow> delivers a m [] m'"
  by (simp_all add: delivers_def pushed_none)

lemma registration_delivers:
  assumes "registration_done b rc r m = (x, m1)"
  shows "\<exists>es. m_dispatch m1 = m_dispatch m @ es \<and> filter (of_stream i) es = []"
  using assms by (auto simp: registration_done_def Let_def of_stream_def no_event_def split: sum.splits if_splits)

text \<open>A thread without a subscription.\<close>

definition away :: "stream_phase \<Rightarrow> bool" where
  "away p \<longleftrightarrow> (case p of Opening slug \<Rightarrow> False | SubscribeAnswered r \<Rightarrow> False | Reading \<Rightarrow> False | ReadDone r \<Rightarrow> False
     | _ \<Rightarrow> True)"

lemma away_phases [simp]:
  "away (Registering b rc)" "away (RegisterCalling b rc body)" "away (RegisterAnswered b rc r)" "away (Refreshing rc)"
  "away Subscribing" "away Finished"
  by (simp_all add: away_def)

lemma own_delivers:
  assumes "following lb a m" "\<not> quitting a m" "s_id (station_at m a) = int a" "a < length (m_heap m)"
    and "\<And>slug. t_phase (m_threads (stream_step lb now a m) ! a) \<noteq> Opening slug"
  shows "following lb a (stream_step lb now a m)
    \<and> (\<exists>es. delivers a m es (stream_step lb now a m) \<and> es @ to_come a (stream_step lb now a m) = to_come a m)"
proof -
  let ?m = "stream_step lb now a m"
  have len: "a < length (m_threads m)" using assms(1) by (simp add: following_def)
  have idle: ?thesis if "away (t_phase (m_threads m ! a))" "away (t_phase (m_threads ?m ! a))"
      "length (m_threads ?m) = length (m_threads m)" "delivers a m [] ?m"
    using that len by (auto simp: following_def to_come_def away_def split: option.split stream_phase.splits)
  show ?thesis
  proof (cases "t_phase (m_threads m ! a)")
    case (Registering b rc)
    then show ?thesis
      using assms(2) len
      by (intro idle) (auto simp: stream_step_def thread_register_def register_body_def phase_go delivers_none(1))
  next
    case (RegisterCalling b rc body)
    then show ?thesis
      using len by (intro idle) (auto simp: stream_step_def thread_call_def phase_set delivers_none(1) split: prod.split)
  next
    case (RegisterAnswered b rc r)
    obtain x m1 where x: "registration_done a rc r m = (x, m1)" by fastforce
    obtain es where es: "m_dispatch m1 = m_dispatch m @ es" "filter (of_stream (int a)) es = []"
      using registration_delivers [OF x] by blast
    show ?thesis
      using RegisterAnswered len x threads_registration [OF x] es
      by (intro idle) (cases x; auto simp: stream_step_def thread_registered_def phase_go intro: delivers_none(3))+
  next
    case (Refreshing rc)
    then show ?thesis
      using len by (intro idle) (auto simp: stream_step_def thread_refresh_def phase_go delivers_none(1))
  next
    case Subscribing
    then show ?thesis
      using assms(2,5) len by (auto simp: stream_step_def thread_subscribe_def phase_go split: if_splits)
  next
    case (Opening slug)
    then show ?thesis using assms(1) by (simp add: following_def)
  next
    case (SubscribeAnswered r)
    then show ?thesis using assms(1) by (simp add: following_def)
  next
    case Reading
    then obtain st where st: "s_stream (m_heap m ! a) = Some st" "readable lb st" using assms(1) by (auto simp: following_def)
    obtain r st' where r: "stream_read lb k_stream_read_timeout st = (r, st')" by fastforce
    have m: "?m = go a (ReadDone r) (set_stream a st' m)"
      using Reading st r by (simp add: stream_step_def thread_read_def station_at_def)
    have "s_stream (m_heap ?m ! a) = Some st'" using assms(4) by (simp add: m set_stream_def upd_station_def)
    moreover have "t_phase (m_threads ?m ! a) = ReadDone r" using len by (simp add: m phase_go)
    moreover have "length (m_threads ?m) = length (m_threads m)" by (simp add: m)
    ultimately show ?thesis
      using read_callbacks [OF st(2) r] Reading st(1) len
      by (cases r) (auto simp: following_def to_come_def m intro!: exI [of _ "[]"] delivers_none(1))
  next
    case (ReadDone r)
    then obtain st where st: "s_stream (m_heap m ! a) = Some st" "(\<forall>e. r \<noteq> Lost e) \<longrightarrow> readable lb st"
      using assms(1) by (auto simp: following_def)
    have step: "?m = thread_read_done now a st r m" using ReadDone st(1) by (simp add: stream_step_def station_at_def)
    show ?thesis
    proof (cases r)
      case Quiet
      then have "?m = go a Reading m" using step assms(2) by (simp add: thread_read_done_def)
      then show ?thesis
        using ReadDone Quiet st len by (auto simp: following_def to_come_def phase_go intro!: exI [of _ "[]"] delivers_none(1))
    next
      case (Lost e)
      then have "?m = thread_dropped a st m" using step by (simp add: thread_read_done_def)
      then show ?thesis
        using ReadDone Lost assms(2) len
        by (auto simp: following_def to_come_def thread_dropped_def Let_def phase_go intro!: exI [of _ "[]"] delivers_none(1)
            split: option.split)
    next
      case (Event v)
      then have m: "?m = go a Reading (dispatch_station_event now a v m)" using step by (simp add: thread_read_done_def)
      obtain es where es: "m_dispatch (dispatch_station_event now a v m) = m_dispatch m @ es"
          "filter (of_stream (int a)) es = event_callbacks (int a) v"
        using dispatch_callbacks [of now a v m] assms(3) by auto
      have "delivers a m (event_callbacks (int a) v) ?m" using delivers_new [of ?m m es a] es by (simp add: m)
      moreover have "s_stream (m_heap ?m ! a) = Some st" using st(1) by (simp add: m stream_dispatch)
      moreover have "t_phase (m_threads ?m ! a) = Reading" "a < length (m_threads ?m)" using len by (simp_all add: m phase_go)
      ultimately show ?thesis
        using ReadDone Event st by (auto simp: following_def to_come_def intro!: exI [of _ "event_callbacks (int a) v"])
    qed
  next
    case Finished
    then have "?m = m" by (simp add: stream_step_def)
    with Finished show ?thesis using len by (intro idle) (auto simp: delivers_none(1))
  qed
qed

section \<open>The others\<close>

lemma job_delivers: "\<exists>es. m_dispatch (finish_job now j r m) = m_dispatch m @ es \<and> filter (of_stream i) es = []"
  by (simp add: finish_job_def job_failed_def handle_job_response_def apply_status_def of_stream_def no_event_def Let_def
      split: sum.split job_kind.split option.split)

lemma worker_delivers: "delivers a m [] (worker_step lb now i m)"
proof -
  have call: "delivers a m [] (worker_call lb i rpc body m)" for rpc body
    by (rule delivers_none(1)) (simp add: worker_call_def split: prod.split)
  have reg: "delivers a m [] (worker_register i j m)" for j
    by (rule delivers_none(1)) (simp add: worker_register_def split: option.split)
  have take: "delivers a m [] (worker_take i m)"
    by (rule delivers_none(1)) (simp add: worker_take_def take_job_def split: option.split list.split)
  have handle: "delivers a m [] (worker_handle now i j r m)" for j r
  proof (cases "j_kind j = JobRegister \<and> j_station j \<noteq> None")
    case True
    then obtain b where b: "j_station j = Some b" by blast
    obtain x m1 where x: "registration_done b False r m = (x, m1)" by fastforce
    obtain es where es: "m_dispatch m1 = m_dispatch m @ es" "filter (of_stream (int a)) es = []"
      using registration_delivers [OF x] by blast
    show ?thesis
      using True b x es by (cases x) (auto simp: worker_handle_def Let_def intro: delivers_none(3))
  next
    case False
    obtain es where es: "m_dispatch (finish_job now j r (upd_worker i (\<lambda>w. w\<lparr>w_job := None, w_reply := None\<rparr>) m)) = m_dispatch m @ es"
        "filter (of_stream (int a)) es = []"
      using job_delivers [of now j r "upd_worker i (\<lambda>w. w\<lparr>w_job := None, w_reply := None\<rparr>) m"] by auto
    then show ?thesis
      using False by (auto simp: worker_handle_def Let_def intro: delivers_none)
  qed
  show ?thesis
    using call reg take handle by (auto simp: worker_step_def Let_def intro: delivers_none(1) split: option.split)
qed

lemma poller_delivers: "delivers a m [] (poller_step m)"
  by (rule delivers_none(1)) (simp add: poller_step_def split: poller.split list.split)

lemma other_stream_delivers:
  assumes "s_id (station_at m b) \<noteq> int a"
  shows "delivers a m [] (stream_step lb now b m)"
proof -
  have reg: "delivers a m [] (thread_registered b bo rc r m)" for bo rc r
  proof -
    obtain x m1 where x: "registration_done b rc r m = (x, m1)" by fastforce
    obtain es where "m_dispatch m1 = m_dispatch m @ es" "filter (of_stream (int a)) es = []"
      using registration_delivers [OF x] by blast
    then show ?thesis by (intro delivers_none(3)) (simp_all add: thread_registered_def x)
  qed
  have sub: "delivers a m [] (thread_subscribed b r m)" for r
    using assms by (cases r) (auto simp: thread_subscribed_def of_stream_def no_event_def intro: delivers_none)
  have drop: "delivers a m [] (thread_dropped b st m)" for st
    by (rule delivers_none(1)) (simp add: thread_dropped_def Let_def)
  have read: "delivers a m [] (thread_read_done now b st r m)" for st r
  proof (cases r)
    case (Event v)
    obtain es where "m_dispatch (dispatch_station_event now b v m) = m_dispatch m @ es" "filter (of_stream (int a)) es = []"
      using dispatch_callbacks [of now b v m] assms by metis
    then show ?thesis by (intro delivers_none(3)) (simp_all add: thread_read_done_def Event)
  qed (use drop in \<open>auto simp: thread_read_done_def intro: delivers_none(1)\<close>)
  have rest: "delivers a m [] (thread_register b bo rc m)" "delivers a m [] (thread_call lb b bo rc body m)"
    "delivers a m [] (thread_refresh b rc m)" "delivers a m [] (thread_subscribe b m)" "delivers a m [] (thread_open lb b slug st m)"
    "delivers a m [] (thread_read lb b st m)" for bo rc body slug st
    by (auto simp: thread_register_def thread_call_def thread_refresh_def thread_subscribe_def thread_open_def thread_read_def
        intro: delivers_none(1) split: prod.split)
  show ?thesis
    using reg sub read rest
    by (auto simp: stream_step_def intro: delivers_none(1) split: stream_phase.split option.split)
qed

lemma configure_dispatch [simp]: "m_dispatch (snd (configure lb tls net cfg m)) = m_dispatch m"
  by (simp add: configure_def stop_workers_def start_workers_def Let_def split: sum.split)

lemma main_delivers:
  assumes "main_call lb tls m m'"
  shows "delivers a m [] m'"
proof -
  have "m_dispatch m' = m_dispatch m \<or> m_dispatch m' = []"
    using assms
    by cases (simp_all add: reload_state create_station_def destroy_station_def set_metadata_def clear_metadata_def
        update_station_def queue_track_def slug_command_def enqueue_command_def request_station_list_def tick_def shutdown_def
        Let_def split: option.split)
  then show ?thesis using delivers_none by blast
qed

lemma resume_delivers: "delivers a m [] (main_resume tls net m)"
  by (rule delivers_none(1))
    (simp add: main_resume_def start_workers_def shutdown_finished_def destroy_joined_def shutdown_joined_def stop_workers_def
      Let_def split: main_pc.split)

text \<open>Nobody else touches the stream of a station that is not stopping.\<close>

lemma fold_halt_stream:
  "\<not> s_stopping (m_heap (fold (\<lambda>b. upd_station b halt_station) bs m) ! a) \<Longrightarrow> a < length (m_heap m) \<Longrightarrow>
    m_heap (fold (\<lambda>b. upd_station b halt_station) bs m) ! a = m_heap m ! a"
proof (induction bs arbitrary: m)
  case (Cons b bs)
  let ?m = "upd_station b halt_station m"
  have same: "m_heap (fold (\<lambda>b. upd_station b halt_station) bs ?m) ! a = m_heap ?m ! a"
    using Cons.prems by (intro Cons.IH) simp_all
  show ?case
  proof (cases "b = a")
    case True
    then have "s_stopping (m_heap ?m ! a)" using Cons.prems(2) by (simp add: upd_station_def)
    then show ?thesis using Cons.prems(1) same by simp
  next
    case False
    then have "m_heap ?m ! a = m_heap m ! a" by (simp add: upd_station_def)
    then show ?thesis using same by simp
  qed
qed simp

lemma upd_station_stream: "(\<And>s. s_stream (f s) = s_stream s) \<Longrightarrow> s_stream (m_heap (upd_station b f m) ! a) = s_stream (m_heap m ! a)"
  by (rule upd_fields_kept)

lemma configure_heap [simp]: "m_heap (snd (configure lb tls net cfg m)) = m_heap m"
  by (simp add: configure_def stop_workers_def start_workers_def Let_def split: sum.split)

lemma main_stream:
  assumes "main_call lb tls m m'" "a < length (m_heap m)" "\<not> s_stopping (m_heap m' ! a)"
  shows "s_stream (m_heap m' ! a) = s_stream (m_heap m ! a)"
  using assms(1)
proof cases
  case (call_destroy i)
  show ?thesis
  proof (cases "find_station m i")
    case (Some b)
    then show ?thesis
      using assms(2,3) call_destroy by (cases "b = a") (simp_all add: destroy_station_def upd_station_def)
  qed (use call_destroy in \<open>simp add: destroy_station_def\<close>)
next
  case call_shutdown
  then show ?thesis
    using assms(2,3) fold_halt_stream [of "map snd (m_stations m)" m a] by (auto simp: shutdown_def Let_def split: if_splits)
next
  case (call_create net slug name description threshold logo)
  then show ?thesis using assms(2) by (simp add: create_station_def Let_def nth_append)
qed (use assms(2) in \<open>simp_all add: reload_state set_metadata_def clear_metadata_def update_station_def queue_track_def
    slug_command_def enqueue_command_def request_station_list_def refresh_def refresh_status_def enqueue_request_def
    next_request_def enqueue_def tick_def upd_station_stream Let_def split: option.split\<close>)

lemma resume_stream:
  assumes "wait_ok m" "m_running m" "m_running (main_resume tls net m)" "\<not> s_stopping (m_heap m ! a)"
  shows "s_stream (m_heap (main_resume tls net m) ! a) = s_stream (m_heap m ! a)"
proof (cases "m_pc m")
  case (JoiningStation b i)
  then have "b \<noteq> a" using assms(1,4) by (auto simp: wait_ok_def stopping_def)
  then show ?thesis
    using JoiningStation by (simp add: main_resume_def destroy_joined_def Let_def enqueue_def upd_station_def)
next
  case (JoiningAll bs)
  then show ?thesis using assms(2,3) by (auto simp: main_resume_def shutdown_joined_def stop_workers_def split: if_splits)
qed (use assms(1,2) in \<open>simp_all add: main_resume_def wait_ok_def\<close>)

lemma other_delivers:
  assumes "following lb a m" "other_step lb tls a m m'" "mgr_ok lb tls m" "wait_ok m" "\<not> quitting a m" "\<not> quitting a m'"
  shows "following lb a m' \<and> delivers a m [] m' \<and> to_come a m' = to_come a m"
proof -
  have len: "a < length (m_threads m)" using assms(1) by (simp add: following_def)
  then have obj: "a < length (m_heap m)" and id: "\<And>b. b < length (m_heap m) \<Longrightarrow> s_id (station_at m b) = int b"
    "length (m_threads m) = length (m_heap m)"
    using assms(3) by (simp_all add: mgr_ok_def objects_ok_def station_at_def)
  have run: "m_running m" "m_running m'" "\<not> s_stopping (m_heap m ! a)" "\<not> s_stopping (m_heap m' ! a)"
    using assms(5,6) by (simp_all add: quitting_def station_at_def)
  have "s_stream (m_heap m' ! a) = s_stream (m_heap m ! a) \<and> delivers a m [] m' \<and> a < length (m_threads m')"
    using assms(2)
  proof cases
    case other_main
    have "a < length (m_threads m')"
      using other_main(2) len
      by cases (simp_all add: reload_state create_station_def destroy_station_def set_metadata_def clear_metadata_def
        update_station_def queue_track_def slug_command_def enqueue_command_def request_station_list_def tick_def shutdown_def
        Let_def split: option.split)
    then show ?thesis using main_stream [OF other_main(2) obj run(4)] main_delivers [OF other_main(2)] by simp
  next
    case (other_resume net)
    then show ?thesis
      using resume_stream [OF assms(4) run(1) _ run(3), of tls net] run(2) resume_delivers threads_resume len by simp
  next
    case (other_worker i now)
    then show ?thesis
      using worker_step_streams worker_delivers frame_worker_step [of m lb now i] len by (simp add: thread_frame_def)
  next
    case (other_stream b now)
    then have "s_id (station_at m b) \<noteq> int a" using id by simp
    then show ?thesis
      using other_stream stream_step_streams other_stream_delivers frame_stream_step [of m lb now b] len
      by (simp add: thread_frame_def)
  next
    case other_poller
    then show ?thesis
      using poller_step_streams poller_delivers frame_poller_step [of m] len by (simp add: thread_frame_def)
  qed
  then have same: "s_stream (m_heap m' ! a) = s_stream (m_heap m ! a)" "delivers a m [] m'" "a < length (m_threads m')" by simp_all
  show ?thesis
    using assms(1) same(2,3) unfolding following_def to_come_def same(1) other_step_thread [OF assms(2) len] by simp
qed

section \<open>From the stream to the scripts\<close>

text \<open>
  A stretch of a run, with the callbacks that are pushed in it: the station is not stopping, and its thread does
  not open its stream anew.
\<close>

inductive stretch :: "nat \<Rightarrow> bool \<Rightarrow> nat \<Rightarrow> mgr \<Rightarrow> pawn_event list \<Rightarrow> mgr \<Rightarrow> bool" for lb tls a m where
  stretch_start: "stretch lb tls a m [] m"
| stretch_step: "stretch lb tls a m es m1 \<Longrightarrow> m_next_station m1 < int_max \<Longrightarrow> m_next_request m1 < int_max \<Longrightarrow>
    mgr_step lb tls m1 m2 \<Longrightarrow> \<not> quitting a m2 \<Longrightarrow> (\<forall>slug. t_phase (m_threads m2 ! a) \<noteq> Opening slug) \<Longrightarrow>
    stretch lb tls a m (es @ pushed m1 m2) m2"

text \<open>
  C2
  What the audio server says reaches the scripts: while a station's thread follows its event stream, the callbacks
  pushed for its tracks, queue, listeners and silence, in any interleaving with everything else the plugin
  does, are those of the envelopes in the decoded body of the response, each once and in their order; what has
  not been pushed yet is still to come from the rest of the body. Reads may time out anywhere, in the middle of
  an envelope too, and the connection may end or fail at any point: then the envelopes that came whole before it count.
  The conditions are that no length of an envelope wraps \<^verbatim>\<open>5 + length\<close> (only a 32-bit \<^verbatim>\<open>unsigned long\<close> can), that
  the station is not stopping, and that the stretch ends before the stream is opened anew, with a body of its own.
\<close>

theorem stream_events_become_callbacks:
  assumes "mgr_ok lb tls m \<and> wait_ok m" "a < length (m_threads m)" "\<not> quitting a m" "t_phase (m_threads m ! a) = Reading"
    and "s_stream (m_heap m ! a) = Some st" "stream_ok st" "body_fits lb (stream_data st)" "stretch lb tls a m es m'"
  shows "filter (of_stream (int a)) es @ to_come a m' = body_callbacks (int a) (stream_data st)"
proof -
  have "(mgr_ok lb tls m' \<and> wait_ok m') \<and> following lb a m' \<and> \<not> quitting a m'
      \<and> filter (of_stream (int a)) es @ to_come a m' = body_callbacks (int a) (stream_data st)"
    using assms(8)
  proof (induction rule: stretch.induct)
    case stretch_start
    then show ?case using assms(1-7) by (simp add: following_def to_come_def readable_def)
  next
    case (stretch_step es m1 m2)
    then have r: "mgr_ok lb tls m1 \<and> wait_ok m1" "following lb a m1" "\<not> quitting a m1" by simp_all
    note ok = r(1)
    have reach: "mgr_ok lb tls m2 \<and> wait_ok m2"
      using mgr_step_ok [OF stretch_step.hyps(4)] wait_step [OF stretch_step.hyps(4)] stretch_step.hyps(2) ok by simp
    have "following lb a m2 \<and> (\<exists>xs. delivers a m1 xs m2 \<and> xs @ to_come a m2 = to_come a m1)"
    proof (cases "other_step lb tls a m1 m2")
      case True
      then show ?thesis using other_delivers [OF r(2) True] ok r(3) stretch_step.hyps(5) by auto
    next
      case False
      with stretch_step.hyps(4) obtain now where m2: "m2 = stream_step lb now a m1"
        by (cases rule: mgr_step.cases) (auto intro: other_step.intros)
      have "a < length (m_threads m1)" using r(2) by (simp add: following_def)
      then have "a < length (m_heap m1)" "s_id (station_at m1 a) = int a"
        using ok by (simp_all add: mgr_ok_def objects_ok_def station_at_def)
      then show ?thesis using own_delivers [OF r(2,3)] stretch_step.hyps(6) m2 by simp
    qed
    then show ?case using stretch_step.IH stretch_step.hyps(5) reach by (auto simp: delivers_def)
  qed
  then show ?thesis by simp
qed

text \<open>A server that says that the music has stopped.\<close>

definition silence_text :: string where
  "silence_text = jo_build (jo_str ''type'' ''EVENT_TYPE_SILENCE_STARTED'' [])"

definition silence_envelope :: string where
  "silence_envelope = [char_of (0::nat), char_of (0::nat), char_of (0::nat), char_of (0::nat), char_of (37::nat)] @ silence_text"

text \<open>
  The envelope comes inside a chunk, in two pieces with a timeout between them; then the connection fails. The pieces
  have arrived already.
\<close>

definition silence_stream :: stream where
  "silence_stream = (opened_stream [])\<lparr>st_conn := (st_conn (opened_stream []))\<lparr>c_need_size := False, c_remaining := 43,
     c_sock := (c_sock (st_conn (opened_stream [])))\<lparr>cut_after := 3, incoming := [RecvData (take 9 silence_envelope), RecvBlock,
        RecvData (drop 9 silence_envelope @ [char_of (2::nat)]), RecvFail ''connection reset'']\<rparr>\<rparr>\<rparr>"

lemma silence_literal: "silence_text = ''{\"type\":\"EVENT_TYPE_SILENCE_STARTED\"}''"
  by code_simp

lemmas example_stream_defs = silence_stream_def opened_stream_def kept_alive_def new_conn_def new_transport_def quiet_sock_def
  silence_envelope_def silence_literal secure_def example_url_def

lemmas example_read_defs = read_body_def chunk_header_def have_bytes_def fill_def unread_def transport_defs take_body_def
  skip_bytes_def envelope_size_def envelope_length_def skip_pending_def

lemma silence_data: "stream_ok silence_stream" "stream_data silence_stream = silence_envelope @ [char_of (2::nat)]"
  by (simp_all add: example_stream_defs stream_ok_def buf_ok_def stream_data_def body_data_def counted_data_def conn_data_def
      unread_def sock_data_def read_answers_def)

definition silence_waiting :: stream where
  "silence_waiting = snd (stream_read 64 k_stream_read_timeout silence_stream)"

definition silence_over :: stream where
  "silence_over = snd (stream_read 64 k_stream_read_timeout silence_waiting)"

lemma silence_frame: "ref_frame (silence_envelope @ rest) = Some (0, silence_text, rest)"
proof -
  have "length silence_text = 37" by code_simp
  then show ?thesis by (simp add: ref_frame_def silence_envelope_def envelope_length_def)
qed

lemma silence_frame_result: "frame_result 0 silence_text = Event (JObject [(''type'', JString ''EVENT_TYPE_SILENCE_STARTED'')])"
  by code_simp

lemma rest_callbacks: "body_callbacks 0 [char_of (2::nat)] = []"
proof -
  have "ref_frame [char_of (2::nat)] = None" by (simp add: ref_frame_def)
  then show ?thesis by (simp only: body_callbacks.simps [of 0 "[_]"] option.case)
qed

lemma silence_type: "get_str (JObject [(''type'', JString ''EVENT_TYPE_SILENCE_STARTED'')]) ''type'' [] = ''EVENT_TYPE_SILENCE_STARTED''"
  by code_simp

lemma silence_callbacks:
  "body_callbacks 0 (silence_envelope @ [char_of (2::nat)]) = [no_event\<lparr>ev_station := 0, ev_kind := EvSilenceStarted\<rparr>]"
proof -
  show ?thesis
    unfolding body_callbacks.simps [of 0 "silence_envelope @ _"] silence_frame
    by (simp add: silence_frame_result rest_callbacks event_callbacks_def silence_type)
qed

lemma silence_reads:
  "stream_read 64 k_stream_read_timeout silence_stream = (Quiet, silence_waiting)"
  "stream_read 64 k_stream_read_timeout silence_waiting
     = (Event (JObject [(''type'', JString ''EVENT_TYPE_SILENCE_STARTED'')]), silence_over)"
  "stream_data silence_over = [char_of (2::nat)]"
proof -
  have "fst (stream_read 64 k_stream_read_timeout silence_stream) = Quiet"
    by (simp add: stream_read.simps example_stream_defs example_read_defs)
  then show "stream_read 64 k_stream_read_timeout silence_stream = (Quiet, silence_waiting)"
    by (simp add: silence_waiting_def prod_eq_iff)
  have event: "frame_result 0 ''{\"type\":\"EVENT_TYPE_SILENCE_STARTED\"}'' = Event (JObject [(''type'', JString ''EVENT_TYPE_SILENCE_STARTED'')])"
    using silence_frame_result unfolding silence_literal .
  have "fst (stream_read 64 k_stream_read_timeout silence_waiting) = Event (JObject [(''type'', JString ''EVENT_TYPE_SILENCE_STARTED'')])"
    by (simp add: silence_waiting_def stream_read.simps example_stream_defs example_read_defs event)
  then show "stream_read 64 k_stream_read_timeout silence_waiting
     = (Event (JObject [(''type'', JString ''EVENT_TYPE_SILENCE_STARTED'')]), silence_over)"
    by (simp add: silence_over_def prod_eq_iff)
  note read1 = \<open>stream_read 64 k_stream_read_timeout silence_stream = (Quiet, silence_waiting)\<close>
    and read2 = \<open>stream_read 64 k_stream_read_timeout silence_waiting
      = (Event (JObject [(''type'', JString ''EVENT_TYPE_SILENCE_STARTED'')]), silence_over)\<close>
  have "stream_ok silence_waiting" "stream_data silence_waiting = stream_data silence_stream"
    using stream_read_law [OF read1 silence_data(1) wide_length] by simp_all
  with stream_read_law [OF read2 _ wide_length] show "stream_data silence_over = [char_of (2::nat)]"
    by (auto simp: silence_data(2) silence_frame)
qed

definition example_following :: mgr where
  "example_following = go 0 Reading (set_stream 0 silence_stream example_mgr)"

lemma example_following_fields:
  "length (m_heap example_following) = 1" "length (m_threads example_following) = 1" "m_running example_following"
  "t_phase (m_threads example_following ! 0) = Reading" "s_stream (m_heap example_following ! 0) = Some silence_stream"
  "\<not> s_stopping (m_heap example_following ! 0)" "m_next_station example_following = 1" "m_next_request example_following = 0"
  "m_pc example_following = MainIdle"
  by (simp_all add: example_following_def go_def upd_thread_def set_stream_def upd_station_def example_mgr_fields)

lemma example_following_ok: "mgr_ok 64 False example_following \<and> wait_ok example_following"
proof
  have ok: "mgr_ok 64 False example_mgr" using reachable_ok [OF example_mgr_reachable] .
  have on: "\<not> thread_gone example_mgr 0" by (simp add: thread_gone_def example_mgr_fields)
  then have "s_stream (m_heap example_mgr ! 0) \<noteq> None"
    using ok by (auto simp: mgr_ok_def streams_ok_def example_mgr_fields)
  then have frame: "thread_frame example_mgr example_following"
    unfolding example_following_def by (intro frame_go frame_set_stream)
  have "thread_gone example_following a" if "thread_gone example_mgr a" for a
    using that on by (cases "a = 0") (simp_all add: thread_gone_def example_following_def go_def upd_thread_def set_stream_def upd_station_def)
  with frame_ok [OF frame _ ok] show "mgr_ok 64 False example_following" by blast
  show "wait_ok example_following" by (simp add: wait_ok_def example_following_fields)
qed

text \<open>Four steps of its thread: a read that times out, and one that brings the event, each with what follows it.\<close>

definition example_told :: "nat \<Rightarrow> mgr" where
  "example_told n = (stream_step 64 0 0 ^^ n) example_following"

lemma example_told_frame:
  "\<not> quitting 0 (example_told n)" "m_next_station (example_told n) = 1" "length (m_threads (example_told n)) = 1"
  "length (m_heap (example_told n)) = 1"
proof -
  have "thread_frame example_following (example_told n)"
    unfolding example_told_def by (induction n) (auto intro: thread_frame_trans frame_stream_step)
  then show "\<not> quitting 0 (example_told n)" "m_next_station (example_told n) = 1" "length (m_threads (example_told n)) = 1"
    "length (m_heap (example_told n)) = 1"
    using example_following_fields by (simp_all add: quitting_def station_at_def thread_frame_def same_identity_def)
qed

lemma example_told_next: "example_told (Suc n) = stream_step 64 0 0 (example_told n)"
  by (simp add: example_told_def)

lemma stream_at_0 [simp]: "length (m_heap m) = 1 \<Longrightarrow> s_stream (m_heap (set_stream 0 st m) ! 0) = Some st"
  by (simp add: set_stream_def upd_station_def)

definition told :: "nat \<Rightarrow> stream_phase \<Rightarrow> stream \<Rightarrow> bool" where
  "told n p st \<longleftrightarrow> t_phase (m_threads (example_told n) ! 0) = p \<and> s_stream (m_heap (example_told n) ! 0) = Some st
     \<and> m_next_request (example_told n) = 0"

lemma told_read:
  "told n Reading st \<Longrightarrow> stream_read 64 k_stream_read_timeout st = (r, st') \<Longrightarrow> told (Suc n) (ReadDone r) st'"
  unfolding told_def example_told_next
  by (simp add: stream_step_def thread_read_def station_at_def phase_go example_told_frame)

lemma told_quiet: "told n (ReadDone Quiet) st \<Longrightarrow> told (Suc n) Reading st"
  unfolding told_def example_told_next
  by (simp add: stream_step_def thread_read_done_def station_at_def phase_go example_told_frame)

lemma told_event: "told n (ReadDone (Event (JObject [(''type'', JString ''EVENT_TYPE_SILENCE_STARTED'')]))) st \<Longrightarrow> told (Suc n) Reading st"
  unfolding told_def example_told_next
  using silence_type
  by (simp add: stream_step_def thread_read_done_def station_at_def phase_go example_told_frame stream_dispatch
      dispatch_station_event_def Let_def)

lemma told_stretch:
  assumes "stretch 64 False 0 example_following es (example_told n)" "told n p st" "told (Suc n) q st'" "\<forall>slug. q \<noteq> Opening slug"
  shows "stretch 64 False 0 example_following (es @ pushed (example_told n) (example_told (Suc n))) (example_told (Suc n))"
proof (rule stretch_step [OF assms(1)])
  show "mgr_step 64 False (example_told n) (example_told (Suc n))"
    unfolding example_told_next by (rule step_stream) (simp add: example_told_frame)
qed (use assms(2-4) example_told_frame in \<open>simp_all add: told_def\<close>)

lemma stream_events_become_callbacks_witness:
  "filter (of_stream 0) (concat (map (\<lambda>n. pushed (example_told n) (example_told (Suc n))) [0..<4]))
    = [no_event\<lparr>ev_station := 0, ev_kind := EvSilenceStarted\<rparr>]"
proof -
  have t0: "told 0 Reading silence_stream" by (simp add: told_def example_told_def example_following_fields)
  note t1 = told_read [OF t0 silence_reads(1)]
  note t2 = told_quiet [OF t1]
  note t3 = told_read [OF t2 silence_reads(2)]
  note t4 = told_event [OF t3]
  have "stretch 64 False 0 example_following [] (example_told 0)" by (simp add: example_told_def stretch_start)
  note s1 = told_stretch [OF this t0 t1]
  note s2 = told_stretch [OF s1 t1 t2]
  note s3 = told_stretch [OF s2 t2 t3]
  note s4 = told_stretch [OF s3 t3 t4]
  have q: "\<not> quitting 0 example_following" using example_told_frame(1) [of 0] by (simp add: example_told_def)
  have "filter (of_stream (int 0)) (concat (map (\<lambda>n. pushed (example_told n) (example_told (Suc n))) [0..<4])) @ to_come 0 (example_told 4)
      = body_callbacks (int 0) (stream_data silence_stream)"
    by (rule stream_events_become_callbacks [OF example_following_ok _ q _ _ silence_data(1) wide_body])
      (use s4 in \<open>simp_all add: example_following_fields upt_rec numeral_eq_Suc\<close>)
  moreover have "told 4 Reading silence_over" using t4 by (simp add: numeral_eq_Suc)
  then have "to_come 0 (example_told 4) = []" using silence_reads(3) by (simp add: told_def to_come_def rest_callbacks)
  ultimately show ?thesis by (simp add: silence_data(2) silence_callbacks)
qed

end
