(* ===== verification/Manager_Interrupts.thy ===== *)
theory Manager_Interrupts
  imports Stream_Callbacks
begin

text \<open>
  What the interrupt of \<^verbatim>\<open>DestroyStation\<close> does for the thread that is joined: on a connected stream only what
  has arrived is left to be read, which bounds the events that can still hold the thread up. A stream that is not
  connected yet is left as it is, and its thread then handles events for as long as they come.
\<close>

section \<open>What a stopping thread can still read\<close>

text \<open>The number of whole envelopes at the front of a body.\<close>

function envelopes :: "string \<Rightarrow> nat" where
  "envelopes s = (case ref_frame s of None \<Rightarrow> 0 | Some (flags, payload, rest) \<Rightarrow> Suc (envelopes rest))"
  by pat_completeness auto
termination
  by (relation "measure length") (auto dest: ref_frame_shorter [OF sym] ref_frame_shorter)

declare envelopes.simps [simp del]

definition readable_to :: "nat \<Rightarrow> nat \<Rightarrow> mgr \<Rightarrow> nat \<Rightarrow> bool" where
  "readable_to lb a m k \<longleftrightarrow>
     (\<exists>st. s_stream (m_heap m ! a) = Some st \<and> readable lb st \<and> envelopes (stream_data st) \<le> k)"

definition at_most :: "nat \<Rightarrow> nat \<Rightarrow> mgr \<Rightarrow> nat \<Rightarrow> bool" where
  "at_most lb a m k \<longleftrightarrow>
     (case t_phase (m_threads m ! a) of
        Finished \<Rightarrow> True
      | Reading \<Rightarrow> readable_to lb a m k
      | ReadDone r \<Rightarrow> (\<exists>e. r = Lost e) \<or> readable_to lb a m k
      | _ \<Rightarrow> False)"

lemma readable_to_kept: "s_stream (m_heap m' ! a) = s_stream (m_heap m ! a) \<Longrightarrow> readable_to lb a m' k = readable_to lb a m k"
  by (simp add: readable_to_def)

lemma at_most_gone: "thread_gone m a \<Longrightarrow> at_most lb a m k \<and> \<not> event_arrives a m"
  by (simp add: at_most_def thread_gone_def event_arrives_def)

text \<open>An event takes its envelope with it.\<close>

lemma read_envelope:
  assumes "stream_read lb tmo st = (r, st')" "readable lb st" "\<forall>e. r \<noteq> Lost e"
  shows "readable lb st' \<and> envelopes (stream_data st) = envelopes (stream_data st') + (case r of Event v \<Rightarrow> 1 | _ \<Rightarrow> 0)"
proof -
  have "stream_ok st" "length_fits lb (stream_data st)"
    using assms(2) by (auto simp: readable_def body_fits.simps [of lb "stream_data st"])
  from stream_read_law [OF assms(1) this] read_callbacks(2) [OF assms(2,1) assms(3)] assms(3)
  show ?thesis by (cases r) (auto simp: envelopes.simps [of "stream_data st"])
qed

text \<open>A step of its own stays in the loop or ends the thread.\<close>

lemma own_read:
  assumes "stopping m a" "streams_ok m" "at_most lb a m k"
  shows "\<exists>k'. at_most lb a (stream_step lb now a m) k' \<and> k' + (if event_arrives a (stream_step lb now a m) then 1 else 0) \<le> k"
proof (cases "thread_gone m a")
  case True
  then have "stream_step lb now a m = m" by (simp add: thread_gone_def stream_step_def)
  then show ?thesis using at_most_gone [OF True] by auto
next
  case False
  have q: "quitting a m" "s_stopping (station_at m a)" "a < length (m_threads m)" "a < length (m_heap m)"
    using assms(1) by (simp_all add: stopping_def quitting_def station_at_def)
  obtain st where st: "s_stream (station_at m a) = Some st"
    using assms False by (auto simp: streams_ok_def stopping_def station_at_def)
  have drop: ?thesis if "stream_step lb now a m = thread_dropped a st m"
    using at_most_gone [OF dropped_stopping [OF assms(1)], of lb st k] that by auto
  show ?thesis
  proof (cases "t_phase (m_threads m ! a) = Reading")
    case True
    then have rd: "readable lb st" "envelopes (stream_data st) \<le> k"
      using assms(3) st by (auto simp: at_most_def readable_to_def station_at_def)
    obtain r st' where r: "stream_read lb k_stream_read_timeout st = (r, st')" by fastforce
    have step: "stream_step lb now a m = go a (ReadDone r) (set_stream a st' m)"
      using True st r by (simp add: stream_step_def thread_read_def)
    have "readable_to lb a (stream_step lb now a m) n \<longleftrightarrow> readable lb st' \<and> envelopes (stream_data st') \<le> n" for n
      using q(4) by (simp add: step readable_to_def set_stream_def upd_station_def)
    moreover have "t_phase (m_threads (stream_step lb now a m) ! a) = ReadDone r" using q(3) by (simp add: step phase_go)
    ultimately show ?thesis
      using read_envelope [OF r rd(1)] rd(2) q(3)
      by (cases r) (auto simp: at_most_def event_arrives_def intro: exI [of _ k] exI [of _ "envelopes (stream_data st')"])
  next
    case no: False
    then obtain r where phase: "t_phase (m_threads m ! a) = ReadDone r"
      using assms(3) False by (auto simp: at_most_def thread_gone_def split: stream_phase.splits)
    then have step: "stream_step lb now a m = thread_read_done now a st r m" using st by (simp add: stream_step_def)
    show ?thesis
    proof (cases r)
      case (Event v)
      then have m: "stream_step lb now a m = go a Reading (dispatch_station_event now a v m)"
        using step by (simp add: thread_read_done_def)
      have "readable_to lb a (stream_step lb now a m) k"
        using assms(3) phase Event readable_to_kept [of "stream_step lb now a m" a m] by (simp add: m stream_dispatch at_most_def)
      then show ?thesis
        using q(3) by (intro exI [of _ k]) (simp add: at_most_def event_arrives_def m phase_go)
    qed (use step q drop in \<open>simp_all add: thread_read_done_def\<close>)
  qed
qed

text \<open>The others leave the stream alone, since no station in the table is stopping.\<close>

lemma fold_other:
  "a \<notin> set bs \<Longrightarrow> m_heap (fold (\<lambda>b. upd_station b f) bs m) ! a = m_heap m ! a"
  by (induction bs arbitrary: m) (simp_all add: upd_station_def)

lemma main_call_stream:
  assumes "main_call lb tls m m'" "stopping m a" "stations_ok m"
  shows "s_stream (m_heap m' ! a) = s_stream (m_heap m ! a)"
proof -
  have a: "a < length (m_heap m)" using assms(2) by (simp add: stopping_def)
  have away: "find_station m i \<noteq> Some a" "a \<notin> snd ` set (m_stations m)" for i
    using assms(2,3) stations_ok_entry [OF assms(3)] by (auto simp: stations_ok_def stopping_def find_station_def)
  show ?thesis
    using assms(1)
  proof cases
    case (call_destroy i)
    show ?thesis
    proof (cases "find_station m i")
      case (Some b)
      then have "b \<noteq> a" using away(1) [of i] by auto
      then show ?thesis using call_destroy Some by (simp add: destroy_station_def upd_station_def)
    qed (use call_destroy in \<open>simp add: destroy_station_def\<close>)
  next
    case call_shutdown
    then show ?thesis using fold_other [of a "map snd (m_stations m)" halt_station m] away(2) by (simp add: shutdown_def Let_def)
  next
    case (call_create net slug name description threshold logo)
    then show ?thesis using a by (simp add: create_station_def Let_def nth_append)
  qed (use a in \<open>simp_all add: reload_state set_metadata_def clear_metadata_def update_station_def queue_track_def
      slug_command_def enqueue_command_def request_station_list_def refresh_def refresh_status_def enqueue_request_def
      next_request_def enqueue_def tick_def upd_station_stream Let_def split: option.split\<close>)
qed

lemma resume_stream_kept:
  assumes "\<not> thread_gone m a"
  shows "s_stream (m_heap (main_resume tls net m) ! a) = s_stream (m_heap m ! a)"
proof (cases "m_pc m")
  case (JoiningStation b i)
  then show ?thesis
    using assms by (cases "b = a") (simp_all add: main_resume_def destroy_joined_def Let_def enqueue_def upd_station_def)
next
  case (JoiningAll bs)
  show ?thesis
  proof (cases "\<forall>b \<in> set bs. thread_gone m b")
    case True
    then have "a \<notin> set bs" using assms by blast
    then show ?thesis
      using JoiningAll True fold_other [of a bs "\<lambda>s. s\<lparr>s_stream := None\<rparr>" m]
      by (simp add: main_resume_def shutdown_joined_def stop_workers_def Let_def)
  next
    case False
    then show ?thesis unfolding main_resume_def JoiningAll main_pc.case if_not_P [OF False] by simp
  qed
qed (simp_all add: main_resume_def start_workers_def shutdown_finished_def Let_def)

lemma other_read:
  assumes "other_step lb tls a m m'" "mgr_ok lb tls m" "stopping m a" "at_most lb a m k"
  shows "at_most lb a m' k"
proof -
  have thread: "m_threads m' ! a = m_threads m ! a"
    using other_step_thread [OF assms(1)] assms(3) by (simp add: stopping_def)
  show ?thesis
  proof (cases "thread_gone m a")
    case True
    then show ?thesis using thread by (simp add: at_most_def thread_gone_def)
  next
    case False
    have "s_stream (m_heap m' ! a) = s_stream (m_heap m ! a)"
      using assms(1)
    proof cases
      case other_main
      then show ?thesis using main_call_stream assms(2,3) by (simp add: mgr_ok_def)
    next
      case (other_resume net)
      then show ?thesis using resume_stream_kept [OF False] by simp
    next
      case (other_stream b now)
      then show ?thesis by (simp add: stream_step_streams)
    qed (simp_all add: worker_step_streams poller_step_streams)
    then show ?thesis
      using assms(4) readable_to_kept [of m' a m lb k] thread by (simp add: at_most_def split: stream_phase.splits)
  qed
qed

section \<open>An interrupted stream ends\<close>

lemma thread_run_reads:
  assumes "thread_run lb tls a m n k m'" "mgr_ok lb tls m" "stopping m a" "at_most lb a m e"
  shows "\<exists>e'. at_most lb a m' e' \<and> e' + k \<le> e"
  using assms(1)
proof induction
  case (run_own n k m' m'' now)
  then obtain e' where e': "at_most lb a m' e'" "e' + k \<le> e" by blast
  have "mgr_ok lb tls m'" "stopping m' a" using thread_run_bound [OF run_own.hyps(1) assms(2,3)] by blast+
  then have "streams_ok m'" "stopping m' a" by (simp_all add: mgr_ok_def)
  from own_read [OF this(2,1) e'(1), of now] obtain e'' where
    "at_most lb a m'' e''" "e'' + (if event_arrives a m'' then 1 else 0) \<le> e'"
    using run_own.hyps(2) by blast
  with e'(2) show ?case by (auto split: if_splits)
next
  case (run_other n k m' m'')
  have "mgr_ok lb tls m'" "stopping m' a" using thread_run_bound [OF run_other.hyps(1) assms(2,3)] by blast+
  with run_other.IH run_other.hyps(3) show ?case using other_read by blast
qed (use assms in auto)


lemma own_steps_run: "\<exists>k. thread_run lb tls a m n k ((stream_step lb now a ^^ n) m)"
proof (induction n)
  case (Suc n)
  then obtain k where "thread_run lb tls a m n k ((stream_step lb now a ^^ n) m)" by blast
  from run_own [OF this refl, of now] show ?case by auto
qed (auto intro: run_start)

text \<open>The station that is told of a silence is destroyed before its thread has read of it; the envelope had arrived.\<close>

lemma silence_left: "stream_data (stream_interrupt silence_stream) = silence_envelope @ [char_of (2::nat)]"
  by (simp add: example_stream_defs stream_interrupt_def conn_interrupt_def sock_interrupt_def stream_data_def body_data_def
      counted_data_def conn_data_def unread_def sock_data_def read_answers_def)

lemma silence_count: "envelopes (silence_envelope @ [char_of (2::nat)]) = 1"
proof -
  have "ref_frame [char_of (2::nat)] = None" by (simp add: ref_frame_def)
  then show ?thesis by (simp add: envelopes.simps [of "_ @ _"] silence_frame envelopes.simps [of "[_]"])
qed


section \<open>A stream that is not connected\<close>

text \<open>
  \<^verbatim>\<open>Interrupt\<close> finds no socket while the stream is being connected, and nothing is left of it once the
  connection stands.
\<close>

lemma interrupt_needs_a_connection: "\<not> fd (c_sock (st_conn st)) \<Longrightarrow> stream_interrupt st = st"
  by (simp add: stream_interrupt_def conn_interrupt_def sock_interrupt_def)

text \<open>A thread in its inner loop handles one event after the other, whether its station is stopping or not.\<close>

primrec events_ready :: "nat \<Rightarrow> nat \<Rightarrow> stream \<Rightarrow> bool" where
  "events_ready lb 0 st = True"
| "events_ready lb (Suc k) st =
     (case stream_read lb k_stream_read_timeout st of (r, st') \<Rightarrow> (\<exists>v. r = Event v) \<and> events_ready lb k st')"

lemma events_keep_the_thread:
  assumes "stopping m a" "t_phase (m_threads m ! a) = Reading" "s_stream (station_at m a) = Some st" "events_ready lb k st"
  shows "\<not> thread_gone ((stream_step lb now a ^^ (2 * k)) m) a"
  using assms
proof (induction k arbitrary: m st)
  case (Suc k)
  obtain v st' where r: "stream_read lb k_stream_read_timeout st = (Event v, st')" "events_ready lb k st'"
    using Suc.prems(4) by (auto split: prod.splits)
  have a: "a < length (m_heap m)" "a < length (m_threads m)" using Suc.prems(1) by (simp_all add: stopping_def)
  let ?m1 = "stream_step lb now a m" and ?m2 = "stream_step lb now a (stream_step lb now a m)"
  have m1: "?m1 = go a (ReadDone (Event v)) (set_stream a st' m)"
    using Suc.prems(2,3) r by (simp add: stream_step_def thread_read_def)
  have p1: "t_phase (m_threads ?m1 ! a) = ReadDone (Event v)" "s_stream (m_heap ?m1 ! a) = Some st'" "a < length (m_threads ?m1)"
    unfolding m1 using a by (simp_all add: phase_go set_stream_def upd_station_def)
  then have m2: "?m2 = go a Reading (dispatch_station_event now a v ?m1)"
    by (simp add: stream_step_def [of lb now a ?m1] station_at_def thread_read_done_def)
  have "stopping ?m2 a" using Suc.prems(1) stopping_frame [OF frame_stream_step] by blast
  moreover have "t_phase (m_threads ?m2 ! a) = Reading" "s_stream (station_at ?m2 a) = Some st'"
    unfolding m2 using p1 by (simp_all add: phase_go station_at_def stream_dispatch)
  ultimately have "\<not> thread_gone ((stream_step lb now a ^^ (2 * k)) ?m2) a" using Suc.IH r(2) by blast
  moreover have "(stream_step lb now a ^^ (2 * Suc k)) m = (stream_step lb now a ^^ (2 * k)) ?m2"
    by (simp add: funpow_swap1)
  ultimately show ?case by simp
qed (simp add: thread_gone_def)

end
