(* ===== verification/Amx.thy ===== *)
theory Amx
  imports Manager_Threads
begin

text \<open>
  src/amxutil.cpp: the loaded scripts, reading and writing their string arguments, and the
  callbacks into them. The abstract machine's own functions are not part of the sources; they
  are the fields of a record that every definition takes as an argument, acting on a state \<open>'v\<close> of
  which nothing is assumed here. A script is a number, for its \<^verbatim>\<open>AMX*\<close>.
\<close>

section \<open>The machine's functions\<close>

text \<open>
  \<open>None\<close> is any result other than \<^verbatim>\<open>AMX_ERR_NONE\<close>, or a null address. \<open>api_exec\<close> runs a script,
  which may call natives, so it acts on everything the plugin has; \<open>api_store\<close> writes through an
  address of the script, and \<open>api_register\<close> is given the names of the natives.
\<close>

record 'v plugin =
  p_mgr :: mgr
  p_scripts :: "nat list"
  p_debug :: bool
  p_amx :: 'v

record 'v amx_api =
  api_get_addr :: "'v \<Rightarrow> nat \<Rightarrow> int \<Rightarrow> nat option"
  api_str_len :: "'v \<Rightarrow> nat \<Rightarrow> int option"
  api_get_string :: "'v \<Rightarrow> nat \<Rightarrow> nat \<Rightarrow> string option"
  api_set_string :: "nat \<Rightarrow> string \<Rightarrow> nat \<Rightarrow> 'v \<Rightarrow> 'v"
  api_store :: "nat \<Rightarrow> int \<Rightarrow> 'v \<Rightarrow> 'v"
  api_find_public :: "'v \<Rightarrow> nat \<Rightarrow> string \<Rightarrow> int option"
  api_allot :: "nat \<Rightarrow> int \<Rightarrow> 'v \<Rightarrow> (int \<times> nat) option \<times> 'v"
  api_register :: "nat \<Rightarrow> string list \<Rightarrow> 'v \<Rightarrow> int \<times> 'v"
  api_push :: "nat \<Rightarrow> int \<Rightarrow> 'v \<Rightarrow> 'v"
  api_exec :: "nat \<Rightarrow> int \<Rightarrow> 'v plugin \<Rightarrow> int \<times> 'v plugin"
  api_release :: "nat \<Rightarrow> int \<Rightarrow> 'v \<Rightarrow> 'v"

section \<open>Scripts\<close>

definition amx_track_script :: "nat \<Rightarrow> nat list \<Rightarrow> nat list" where
  "amx_track_script a scripts = (if a \<in> set scripts then scripts else scripts @ [a])"

definition amx_forget_script :: "nat \<Rightarrow> nat list \<Rightarrow> nat list" where
  "amx_forget_script a scripts = remove1 a scripts"

section \<open>String arguments\<close>

text \<open>The buffer ends with the first NUL written into it.\<close>

definition amx_read_string :: "'v amx_api \<Rightarrow> nat \<Rightarrow> int \<Rightarrow> 'v \<Rightarrow> string" where
  "amx_read_string api a param v =
     (case api_get_addr api v a param of
        None \<Rightarrow> []
      | Some p \<Rightarrow>
          (case api_str_len api v p of
             None \<Rightarrow> []
           | Some n \<Rightarrow>
               if n \<le> 0 then []
               else (case api_get_string api v p (nat n + 1) of None \<Rightarrow> [] | Some s \<Rightarrow> c_str s)))"

definition amx_write_string :: "'v amx_api \<Rightarrow> nat \<Rightarrow> int \<Rightarrow> string \<Rightarrow> int \<Rightarrow> 'v \<Rightarrow> 'v" where
  "amx_write_string api a param s max_cells v =
     (if max_cells \<le> 0 then v
      else (case api_get_addr api v a param of
              None \<Rightarrow> v
            | Some p \<Rightarrow> api_set_string api p (c_str s) (nat max_cells) v))"

definition amx_write_cell :: "'v amx_api \<Rightarrow> nat \<Rightarrow> int \<Rightarrow> int \<Rightarrow> 'v \<Rightarrow> 'v" where
  "amx_write_cell api a param n v =
     (case api_get_addr api v a param of None \<Rightarrow> v | Some p \<Rightarrow> api_store api p n v)"

section \<open>Callbacks\<close>

datatype cb_arg = ArgNum int | ArgStr string

definition cb_int :: "int \<Rightarrow> cb_arg list \<Rightarrow> cb_arg list" where
  "cb_int n args = args @ [ArgNum n]"

definition cb_bool :: "bool \<Rightarrow> cb_arg list \<Rightarrow> cb_arg list" where
  "cb_bool b = cb_int (if b then 1 else 0)"

definition cb_int64 :: "int \<Rightarrow> cb_arg list \<Rightarrow> cb_arg list" where
  "cb_int64 n = cb_int (if n > 2147483647 then 2147483647 else if n < - 2147483648 then - 2147483648 else n)"

definition cb_str :: "string \<Rightarrow> cb_arg list \<Rightarrow> cb_arg list" where
  "cb_str s args = args @ [ArgStr s]"

text \<open>
  The strings go to the script's heap, last argument first; \<open>cells\<close> collects what is to be pushed,
  in that order, and \<open>first\<close> is the lowest address taken. The flag says that the heap was full.
\<close>

fun allot_args ::
  "'v amx_api \<Rightarrow> nat \<Rightarrow> cb_arg list \<Rightarrow> int option \<Rightarrow> int list \<Rightarrow> 'v \<Rightarrow> bool \<times> int option \<times> int list \<times> 'v" where
  "allot_args api a [] first cells v = (False, first, cells, v)"
| "allot_args api a (ArgNum n # args) first cells v = allot_args api a args first (cells @ [n]) v"
| "allot_args api a (ArgStr s # args) first cells v =
     (let n = to_int32 (int (length s)) + 1 in
      case api_allot api a n v of
        (None, v') \<Rightarrow> (True, first, cells, v')
      | (Some (addr, phys), v') \<Rightarrow>
          allot_args api a args (case first of None \<Rightarrow> Some addr | Some f \<Rightarrow> Some f) (cells @ [addr])
            (api_set_string api phys (c_str s) (nat n) v'))"

definition release_first :: "'v amx_api \<Rightarrow> nat \<Rightarrow> int option \<Rightarrow> 'v \<Rightarrow> 'v" where
  "release_first api a first v = (case first of None \<Rightarrow> v | Some addr \<Rightarrow> api_release api a addr v)"

text \<open>The turn of one script; the error code of \<^verbatim>\<open>Exec\<close> and the results of \<^verbatim>\<open>Push\<close> are only logged or dropped.\<close>

definition offer :: "'v amx_api \<Rightarrow> string \<Rightarrow> cb_arg list \<Rightarrow> nat \<Rightarrow> 'v plugin \<Rightarrow> 'v plugin" where
  "offer api name args a s =
     (case api_find_public api (p_amx s) a name of
        None \<Rightarrow> s
      | Some index \<Rightarrow>
          (case allot_args api a (rev args) None [] (p_amx s) of
             (failed, first, cells, v) \<Rightarrow>
               if failed then s\<lparr>p_amx := release_first api a first v\<rparr>
               else (case api_exec api a index (s\<lparr>p_amx := fold (api_push api a) cells v\<rparr>) of
                       (err, s') \<Rightarrow> s'\<lparr>p_amx := release_first api a first (p_amx s')\<rparr>)))"

text \<open>A script that runs may load and unload others, so the loop reads the list anew in each turn.\<close>

partial_function (option) invoke_loop ::
  "'v amx_api \<Rightarrow> string \<Rightarrow> cb_arg list \<Rightarrow> nat \<Rightarrow> 'v plugin \<Rightarrow> 'v plugin option" where
  "invoke_loop api name args i s =
     (if i < length (p_scripts s) then invoke_loop api name args (i + 1) (offer api name args (p_scripts s ! i) s)
      else Some s)"

definition invoke :: "'v amx_api \<Rightarrow> string \<Rightarrow> cb_arg list \<Rightarrow> 'v plugin \<Rightarrow> 'v plugin option" where
  "invoke api name args s = invoke_loop api name args 0 s"

end
