(* ===== verification/Natives.thy ===== *)
theory Natives
  imports Amx "HOL-Library.Monad_Syntax"
begin

text \<open>
  src/natives.cpp: every \<^verbatim>\<open>GoRadio_*\<close> native, and the dispatch of waiting callbacks. A native gets
  the cells of \<^verbatim>\<open>params\<close> as a list whose first element is the size of the arguments in bytes; reading
  past the list is \<open>None\<close>. A native that waits for threads to end leaves that wait to \<open>m_pc\<close> of the
  manager and has its result already. Log lines are left out.
\<close>

section \<open>Helpers\<close>

text \<open>What the natives are built on: the machine, the build, the peers new connections get, the clock
  and the text of server.cfg.\<close>

record 'v env =
  e_api :: "'v amx_api"
  e_long_bits :: nat
  e_tls :: bool
  e_net :: "nat \<Rightarrow> sock"
  e_now :: int
  e_server_cfg :: "string option"

type_synonym 'v native = "'v env \<Rightarrow> nat \<Rightarrow> int list \<Rightarrow> 'v plugin \<Rightarrow> (int \<times> 'v plugin) option"

definition param :: "int list \<Rightarrow> nat \<Rightarrow> int option" where
  "param params k = (if k < length params then Some (params ! k) else None)"

text \<open>\<^verbatim>\<open>sizeof\<close> is unsigned, so the byte count is read as a 32-bit \<^verbatim>\<open>size_t\<close> as in a SA-MP build.\<close>

definition arg_count :: "int list \<Rightarrow> int option" where
  "arg_count params = map_option (\<lambda>b. (b mod 2 ^ 32) div 4) (param params 0)"

definition clamp_cell :: "int \<Rightarrow> int" where
  "clamp_cell n = (if n > 2147483647 then 2147483647 else if n < - 2147483648 then - 2147483648 else n)"

definition check_args :: "int list \<Rightarrow> int \<Rightarrow> bool option" where
  "check_args params expected = map_option (\<lambda>n. \<not> n < expected) (arg_count params)"

definition write_string_result ::
  "'v env \<Rightarrow> nat \<Rightarrow> int list \<Rightarrow> nat \<Rightarrow> nat \<Rightarrow> string \<Rightarrow> bool \<Rightarrow> 'v plugin \<Rightarrow> (int \<times> 'v plugin) option" where
  "write_string_result env a params dest_index len_index s ok st = do {
     dest \<leftarrow> param params dest_index;
     len \<leftarrow> param params len_index;
     Some (if ok then (1, st\<lparr>p_amx := amx_write_string (e_api env) a dest s len (p_amx st)\<rparr>)
           else (0, st\<lparr>p_amx := amx_write_string (e_api env) a dest [] len (p_amx st)\<rparr>))
   }"

definition item_at :: "'a list \<Rightarrow> int \<Rightarrow> 'a option" where
  "item_at items index = (if index < 0 \<or> int (length items) \<le> index then None else Some (items ! nat index))"

text \<open>\<^verbatim>\<open>CheckArgs\<close>, and what every native does when it fails.\<close>

definition checked :: "int \<Rightarrow> int \<Rightarrow> int list \<Rightarrow> 'v plugin \<Rightarrow> (int \<times> 'v plugin) option \<Rightarrow> (int \<times> 'v plugin) option" where
  "checked expected fallback params st body = do {
     ok \<leftarrow> check_args params expected;
     if ok then body else Some (fallback, st)
   }"

text \<open>A string argument.\<close>

definition text_arg :: "'v env \<Rightarrow> nat \<Rightarrow> int list \<Rightarrow> nat \<Rightarrow> 'v plugin \<Rightarrow> string option" where
  "text_arg env a params k st = map_option (\<lambda>c. amx_read_string (e_api env) a c (p_amx st)) (param params k)"

text \<open>A call of the manager whose result is the native's.\<close>

definition flag_call :: "(mgr \<Rightarrow> bool \<times> mgr) \<Rightarrow> 'v plugin \<Rightarrow> (int \<times> 'v plugin) option" where
  "flag_call f st = (case f (p_mgr st) of (b, m) \<Rightarrow> Some (if b then 1 else 0, st\<lparr>p_mgr := m\<rparr>))"

definition id_call :: "(mgr \<Rightarrow> int \<times> mgr) \<Rightarrow> 'v plugin \<Rightarrow> (int \<times> 'v plugin) option" where
  "id_call f st = (case f (p_mgr st) of (r, m) \<Rightarrow> Some (r, st\<lparr>p_mgr := m\<rparr>))"

section \<open>Setup\<close>

definition n_SetServer :: "'v native" where
  "n_SetServer env a params st = checked 2 0 params st (do {
     url \<leftarrow> text_arg env a params 1 st;
     token \<leftarrow> text_arg env a params 2 st;
     flag_call (\<lambda>m. apfst (\<lambda>err. err = None) (configure (e_long_bits env) (e_tls env) (e_net env)
       (default_config\<lparr>cfg_url := url, cfg_token := token\<rparr>) m)) st
   })"

definition n_IsReady :: "'v native" where
  "n_IsReady env a params st = Some (if m_configured (p_mgr st) then 1 else 0, st)"

fun reload_code :: "reload_result \<Rightarrow> int" where
  "reload_code ReloadFailed = 0"
| "reload_code ReloadApplied = 1"
| "reload_code ReloadPartial = 2"

definition n_ReloadConfig :: "'v native" where
  "n_ReloadConfig env a params st =
     (case read_server_cfg (e_long_bits env) (e_server_cfg env) (default_config, False) of
        (False, _) \<Rightarrow> Some (reload_code ReloadFailed, st)
      | (True, cfg, debug) \<Rightarrow>
          (case reload (e_long_bits env) (e_tls env) (e_net env) cfg (p_mgr st) of
             (r, _, m) \<Rightarrow> Some (reload_code r, st\<lparr>p_debug := debug, p_mgr := m\<rparr>)))"

definition n_GetServerVersion :: "'v native" where
  "n_GetServerVersion env a params st = checked 2 0 params st
     (write_string_result env a params 1 2 (m_version (p_mgr st)) (m_version (p_mgr st) \<noteq> []) st)"

section \<open>Stations\<close>

definition n_CreateStation :: "'v native" where
  "n_CreateStation env a params st = checked 5 k_invalid_station params st (do {
     slug \<leftarrow> text_arg env a params 1 st;
     name \<leftarrow> text_arg env a params 2 st;
     description \<leftarrow> text_arg env a params 3 st;
     threshold \<leftarrow> param params 4;
     logo \<leftarrow> text_arg env a params 5 st;
     id_call (\<lambda>m. apfst (\<lambda>r. case r of Inl e \<Rightarrow> k_invalid_station | Inr i \<Rightarrow> i)
       (create_station (e_tls env) (e_net env) slug name description threshold logo m)) st
   })"

definition n_DestroyStation :: "'v native" where
  "n_DestroyStation env a params st = checked 1 0 params st (do {
     i \<leftarrow> param params 1;
     flag_call (destroy_station i) st
   })"

definition n_IsValidStation :: "'v native" where
  "n_IsValidStation env a params st = checked 1 0 params st (do {
     i \<leftarrow> param params 1;
     Some (if is_valid_station (p_mgr st) i then 1 else 0, st)
   })"

definition n_GetStationBySlug :: "'v native" where
  "n_GetStationBySlug env a params st = checked 1 k_invalid_station params st (do {
     slug \<leftarrow> text_arg env a params 1 st;
     Some (find_station_by_slug (p_mgr st) slug, st)
   })"

definition n_GetStationCount :: "'v native" where
  "n_GetStationCount env a params st = Some (clamp_cell (int (length (station_ids (p_mgr st)))), st)"

definition n_GetStationAtIndex :: "'v native" where
  "n_GetStationAtIndex env a params st = checked 1 k_invalid_station params st (do {
     index \<leftarrow> param params 1;
     Some (case item_at (station_ids (p_mgr st)) index of None \<Rightarrow> k_invalid_station | Some i \<Rightarrow> i, st)
   })"

definition n_SetStationMetadata :: "'v native" where
  "n_SetStationMetadata env a params st = checked 3 0 params st (do {
     i \<leftarrow> param params 1;
     key \<leftarrow> text_arg env a params 2 st;
     value \<leftarrow> text_arg env a params 3 st;
     flag_call (set_metadata i key value) st
   })"

definition n_ClearStationMetadata :: "'v native" where
  "n_ClearStationMetadata env a params st = checked 1 0 params st (do {
     i \<leftarrow> param params 1;
     flag_call (clear_metadata i) st
   })"

definition n_UpdateStation :: "'v native" where
  "n_UpdateStation env a params st = checked 5 0 params st (do {
     i \<leftarrow> param params 1;
     name \<leftarrow> text_arg env a params 2 st;
     description \<leftarrow> text_arg env a params 3 st;
     threshold \<leftarrow> param params 4;
     logo \<leftarrow> text_arg env a params 5 st;
     flag_call (update_station i name description threshold logo) st
   })"

definition n_GetStationSlug :: "'v native" where
  "n_GetStationSlug env a params st = checked 3 0 params st (do {
     i \<leftarrow> param params 1;
     (case get_slug (p_mgr st) i of
        None \<Rightarrow> write_string_result env a params 2 3 [] False st
      | Some slug \<Rightarrow> write_string_result env a params 2 3 slug True st)
   })"

definition n_GetStreamURL :: "'v native" where
  "n_GetStreamURL env a params st = checked 3 0 params st (do {
     i \<leftarrow> param params 1;
     (case get_stream_url (p_mgr st) i of
        None \<Rightarrow> write_string_result env a params 2 3 [] False st
      | Some url \<Rightarrow> write_string_result env a params 2 3 url (url \<noteq> []) st)
   })"

definition n_IsStationRegistered :: "'v native" where
  "n_IsStationRegistered env a params st = checked 1 0 params st (do {
     i \<leftarrow> param params 1;
     Some (if is_registered (p_mgr st) i then 1 else 0, st)
   })"

section \<open>Playback control\<close>

definition n_QueueTrack :: "'v native" where
  "n_QueueTrack env a params st = checked 6 0 params st (do {
     i \<leftarrow> param params 1;
     location \<leftarrow> text_arg env a params 2 st;
     title \<leftarrow> text_arg env a params 3 st;
     artist \<leftarrow> text_arg env a params 4 st;
     cover \<leftarrow> text_arg env a params 5 st;
     mode \<leftarrow> param params 6;
     id_call (queue_track i location title artist cover mode) st
   })"

definition n_Dequeue :: "'v native" where
  "n_Dequeue env a params st = checked 2 0 params st (do {
     i \<leftarrow> param params 1;
     queue_id \<leftarrow> text_arg env a params 2 st;
     id_call (dequeue i queue_id) st
   })"

definition n_ClearQueue :: "'v native" where
  "n_ClearQueue env a params st = checked 2 0 params st (do {
     i \<leftarrow> param params 1;
     stop \<leftarrow> param params 2;
     id_call (clear_queue i (stop \<noteq> 0)) st
   })"

definition n_Skip :: "'v native" where
  "n_Skip env a params st = checked 1 0 params st (do {
     i \<leftarrow> param params 1;
     id_call (skip i) st
   })"

definition n_SkipTo :: "'v native" where
  "n_SkipTo env a params st = checked 2 0 params st (do {
     i \<leftarrow> param params 1;
     queue_id \<leftarrow> text_arg env a params 2 st;
     id_call (skip_to i queue_id) st
   })"

definition n_Pause :: "'v native" where
  "n_Pause env a params st = checked 1 0 params st (do {
     i \<leftarrow> param params 1;
     id_call (pause i) st
   })"

definition n_Resume :: "'v native" where
  "n_Resume env a params st = checked 1 0 params st (do {
     i \<leftarrow> param params 1;
     id_call (resume i) st
   })"

definition n_Seek :: "'v native" where
  "n_Seek env a params st = checked 2 0 params st (do {
     i \<leftarrow> param params 1;
     pos \<leftarrow> param params 2;
     id_call (seek i pos) st
   })"

definition n_SeekBy :: "'v native" where
  "n_SeekBy env a params st = checked 2 0 params st (do {
     i \<leftarrow> param params 1;
     delta \<leftarrow> param params 2;
     id_call (seek_by i delta) st
   })"

section \<open>Cached status\<close>

definition n_RefreshStatus :: "'v native" where
  "n_RefreshStatus env a params st = checked 1 0 params st (do {
     i \<leftarrow> param params 1;
     id_call (refresh_status i) st
   })"

text \<open>The getters of one number share this shape: 0 without a status.\<close>

definition status_number :: "(station_status \<Rightarrow> int) \<Rightarrow> 'v native" where
  "status_number f env a params st = checked 1 0 params st (do {
     i \<leftarrow> param params 1;
     Some (case get_status (e_now env) (p_mgr st) i of None \<Rightarrow> 0 | Some s \<Rightarrow> f s, st)
   })"

definition n_HasStatus :: "'v native" where
  "n_HasStatus = status_number (\<lambda>s. if ss_valid s then 1 else 0)"

definition n_GetListenerCount :: "'v native" where
  "n_GetListenerCount = status_number (\<lambda>s. clamp_cell (ss_listener_count s))"

definition n_GetUptime :: "'v native" where
  "n_GetUptime = status_number (\<lambda>s. clamp_cell (ss_uptime s))"

definition n_IsSilence :: "'v native" where
  "n_IsSilence = status_number (\<lambda>s. if ss_is_silence s then 1 else 0)"

definition n_IsPaused :: "'v native" where
  "n_IsPaused = status_number (\<lambda>s. if ss_is_paused s then 1 else 0)"

definition n_IsPlaying :: "'v native" where
  "n_IsPlaying = status_number (\<lambda>s. if ss_has_current s then 1 else 0)"

definition n_GetQueueLength :: "'v native" where
  "n_GetQueueLength = status_number (\<lambda>s. clamp_cell (ss_queue_length s))"

text \<open>\<^verbatim>\<open>CurrentTrackString\<close>; the field is the member that its number stands for.\<close>

definition current_track_string :: "(track_info \<Rightarrow> string) \<Rightarrow> 'v native" where
  "current_track_string field env a params st = do {
     i \<leftarrow> param params 1;
     (case get_status (e_now env) (p_mgr st) i of
        None \<Rightarrow> write_string_result env a params 2 3 [] False st
      | Some s \<Rightarrow>
          if \<not> ss_has_current s then write_string_result env a params 2 3 [] False st
          else write_string_result env a params 2 3 (field (ss_current s)) True st)
   }"

definition n_GetCurrentTrackID :: "'v native" where
  "n_GetCurrentTrackID env a params st = checked 3 0 params st (current_track_string tr_queue_id env a params st)"

definition n_GetCurrentTrackTitle :: "'v native" where
  "n_GetCurrentTrackTitle env a params st = checked 3 0 params st (current_track_string tr_title env a params st)"

definition n_GetCurrentTrackArtist :: "'v native" where
  "n_GetCurrentTrackArtist env a params st = checked 3 0 params st (current_track_string tr_artist env a params st)"

definition n_GetCurrentTrackLocation :: "'v native" where
  "n_GetCurrentTrackLocation env a params st = checked 3 0 params st (current_track_string tr_location env a params st)"

definition n_GetCurrentTrackCoverArt :: "'v native" where
  "n_GetCurrentTrackCoverArt env a params st = checked 3 0 params st (current_track_string tr_cover_art env a params st)"

text \<open>The numbers of the current track, 0 when there is none.\<close>

definition n_GetCurrentTrackDuration :: "'v native" where
  "n_GetCurrentTrackDuration =
     status_number (\<lambda>s. if \<not> ss_has_current s then 0 else clamp_cell (tr_duration (ss_current s)))"

definition n_GetCurrentTrackElapsed :: "'v native" where
  "n_GetCurrentTrackElapsed = status_number (\<lambda>s. if \<not> ss_has_current s then 0 else clamp_cell (ss_elapsed s))"

section \<open>Queue and history\<close>

definition n_GetQueueItemCount :: "'v native" where
  "n_GetQueueItemCount = status_number (\<lambda>s. clamp_cell (int (length (ss_queue s))))"

text \<open>\<^verbatim>\<open>QueueItemString\<close> and \<^verbatim>\<open>HistoryString\<close> differ in the list they look into.\<close>

definition list_item_string :: "(station_status \<Rightarrow> track_info list) \<Rightarrow> (track_info \<Rightarrow> string) \<Rightarrow> 'v native" where
  "list_item_string items field env a params st = do {
     i \<leftarrow> param params 1;
     (case get_status (e_now env) (p_mgr st) i of
        None \<Rightarrow> write_string_result env a params 3 4 [] False st
      | Some s \<Rightarrow> do {
          index \<leftarrow> param params 2;
          (case item_at (items s) index of
             None \<Rightarrow> write_string_result env a params 3 4 [] False st
           | Some item \<Rightarrow> write_string_result env a params 3 4 (field item) True st)
        })
   }"

definition queue_item_string :: "(track_info \<Rightarrow> string) \<Rightarrow> 'v native" where
  "queue_item_string = list_item_string ss_queue"

definition history_string :: "(track_info \<Rightarrow> string) \<Rightarrow> 'v native" where
  "history_string = list_item_string ss_history"

definition n_GetQueueItemID :: "'v native" where
  "n_GetQueueItemID env a params st = checked 4 0 params st (queue_item_string tr_queue_id env a params st)"

definition n_GetQueueItemTitle :: "'v native" where
  "n_GetQueueItemTitle env a params st = checked 4 0 params st (queue_item_string tr_title env a params st)"

definition n_GetQueueItemArtist :: "'v native" where
  "n_GetQueueItemArtist env a params st = checked 4 0 params st (queue_item_string tr_artist env a params st)"

definition n_GetQueueItemLocation :: "'v native" where
  "n_GetQueueItemLocation env a params st = checked 4 0 params st (queue_item_string tr_location env a params st)"

definition n_GetQueueItemDuration :: "'v native" where
  "n_GetQueueItemDuration env a params st = checked 2 0 params st (do {
     i \<leftarrow> param params 1;
     (case get_status (e_now env) (p_mgr st) i of
        None \<Rightarrow> Some (0, st)
      | Some s \<Rightarrow> do {
          index \<leftarrow> param params 2;
          Some (case item_at (ss_queue s) index of None \<Rightarrow> 0 | Some item \<Rightarrow> clamp_cell (tr_duration item), st)
        })
   })"

definition n_GetHistoryCount :: "'v native" where
  "n_GetHistoryCount = status_number (\<lambda>s. clamp_cell (int (length (ss_history s))))"

definition n_GetHistoryTitle :: "'v native" where
  "n_GetHistoryTitle env a params st = checked 4 0 params st (history_string tr_title env a params st)"

definition n_GetHistoryArtist :: "'v native" where
  "n_GetHistoryArtist env a params st = checked 4 0 params st (history_string tr_artist env a params st)"

definition n_GetHistoryReason :: "'v native" where
  "n_GetHistoryReason env a params st = checked 4 0 params st (history_string tr_reason env a params st)"

section \<open>The server's stations\<close>

definition n_RequestStationList :: "'v native" where
  "n_RequestStationList env a params st = id_call request_station_list st"

definition n_GetListedStationCount :: "'v native" where
  "n_GetListedStationCount env a params st = Some (clamp_cell (int (length (m_listed (p_mgr st)))), st)"

definition listed_station_string :: "(station_summary \<Rightarrow> string) \<Rightarrow> 'v native" where
  "listed_station_string field env a params st = do {
     index \<leftarrow> param params 1;
     (case item_at (m_listed (p_mgr st)) index of
        None \<Rightarrow> write_string_result env a params 2 3 [] False st
      | Some s \<Rightarrow> write_string_result env a params 2 3 (field s) True st)
   }"

definition n_GetListedStationSlug :: "'v native" where
  "n_GetListedStationSlug env a params st = checked 3 0 params st (listed_station_string sm_slug env a params st)"

definition n_GetListedStationName :: "'v native" where
  "n_GetListedStationName env a params st = checked 3 0 params st (listed_station_string sm_name env a params st)"

definition n_GetListedStationLogo :: "'v native" where
  "n_GetListedStationLogo env a params st = checked 3 0 params st (listed_station_string sm_logo_url env a params st)"

definition n_GetListedListenerCount :: "'v native" where
  "n_GetListedListenerCount env a params st = checked 1 0 params st (do {
     index \<leftarrow> param params 1;
     Some (case item_at (m_listed (p_mgr st)) index of None \<Rightarrow> 0 | Some s \<Rightarrow> clamp_cell (sm_listener_count s), st)
   })"

text \<open>The table registered with every script.\<close>

definition k_natives :: "(string \<times> 'v native) list" where
  "k_natives =
    [(''GoRadio_SetServer'', n_SetServer),
     (''GoRadio_IsReady'', n_IsReady),
     (''GoRadio_ReloadConfig'', n_ReloadConfig),
     (''GoRadio_GetServerVersion'', n_GetServerVersion),
     (''GoRadio_CreateStation'', n_CreateStation),
     (''GoRadio_DestroyStation'', n_DestroyStation),
     (''GoRadio_IsValidStation'', n_IsValidStation),
     (''GoRadio_GetStationBySlug'', n_GetStationBySlug),
     (''GoRadio_GetStationCount'', n_GetStationCount),
     (''GoRadio_GetStationAtIndex'', n_GetStationAtIndex),
     (''GoRadio_SetStationMetadata'', n_SetStationMetadata),
     (''GoRadio_ClearStationMetadata'', n_ClearStationMetadata),
     (''GoRadio_UpdateStation'', n_UpdateStation),
     (''GoRadio_GetStationSlug'', n_GetStationSlug),
     (''GoRadio_GetStreamURL'', n_GetStreamURL),
     (''GoRadio_IsStationRegistered'', n_IsStationRegistered),
     (''GoRadio_QueueTrack'', n_QueueTrack),
     (''GoRadio_Dequeue'', n_Dequeue),
     (''GoRadio_ClearQueue'', n_ClearQueue),
     (''GoRadio_Skip'', n_Skip),
     (''GoRadio_SkipTo'', n_SkipTo),
     (''GoRadio_Pause'', n_Pause),
     (''GoRadio_Resume'', n_Resume),
     (''GoRadio_Seek'', n_Seek),
     (''GoRadio_SeekBy'', n_SeekBy),
     (''GoRadio_RefreshStatus'', n_RefreshStatus),
     (''GoRadio_HasStatus'', n_HasStatus),
     (''GoRadio_GetListenerCount'', n_GetListenerCount),
     (''GoRadio_GetUptime'', n_GetUptime),
     (''GoRadio_IsSilence'', n_IsSilence),
     (''GoRadio_IsPaused'', n_IsPaused),
     (''GoRadio_IsPlaying'', n_IsPlaying),
     (''GoRadio_GetQueueLength'', n_GetQueueLength),
     (''GoRadio_GetCurrentTrackID'', n_GetCurrentTrackID),
     (''GoRadio_GetCurrentTrackTitle'', n_GetCurrentTrackTitle),
     (''GoRadio_GetCurrentTrackArtist'', n_GetCurrentTrackArtist),
     (''GoRadio_GetCurrentTrackLocation'', n_GetCurrentTrackLocation),
     (''GoRadio_GetCurrentTrackCoverArt'', n_GetCurrentTrackCoverArt),
     (''GoRadio_GetCurrentTrackDuration'', n_GetCurrentTrackDuration),
     (''GoRadio_GetCurrentTrackElapsed'', n_GetCurrentTrackElapsed),
     (''GoRadio_GetQueueItemCount'', n_GetQueueItemCount),
     (''GoRadio_GetQueueItemID'', n_GetQueueItemID),
     (''GoRadio_GetQueueItemTitle'', n_GetQueueItemTitle),
     (''GoRadio_GetQueueItemArtist'', n_GetQueueItemArtist),
     (''GoRadio_GetQueueItemLocation'', n_GetQueueItemLocation),
     (''GoRadio_GetQueueItemDuration'', n_GetQueueItemDuration),
     (''GoRadio_GetHistoryCount'', n_GetHistoryCount),
     (''GoRadio_GetHistoryTitle'', n_GetHistoryTitle),
     (''GoRadio_GetHistoryArtist'', n_GetHistoryArtist),
     (''GoRadio_GetHistoryReason'', n_GetHistoryReason),
     (''GoRadio_RequestStationList'', n_RequestStationList),
     (''GoRadio_GetListedStationCount'', n_GetListedStationCount),
     (''GoRadio_GetListedStationSlug'', n_GetListedStationSlug),
     (''GoRadio_GetListedStationName'', n_GetListedStationName),
     (''GoRadio_GetListedStationLogo'', n_GetListedStationLogo),
     (''GoRadio_GetListedListenerCount'', n_GetListedListenerCount)]"

definition register_natives :: "'v amx_api \<Rightarrow> nat \<Rightarrow> 'v plugin \<Rightarrow> int \<times> 'v plugin" where
  "register_natives api a st =
     (case api_register api a (map fst (k_natives :: (string \<times> 'v native) list)) (p_amx st) of
        (r, v) \<Rightarrow> (r, st\<lparr>p_amx := v\<rparr>))"

section \<open>Dispatching callbacks\<close>

text \<open>The public that each kind of event calls, and the arguments it is given.\<close>

fun callback_of :: "pawn_event \<Rightarrow> string \<times> cb_arg list" where
  "callback_of ev =
     (case ev_kind ev of
        EvServerInfo \<Rightarrow> (''OnGoRadioServerInfo'', cb_str (ev_text ev) [])
      | EvStationRegistered \<Rightarrow> (''OnGoRadioStationRegistered'',
          cb_bool (ev_num1 ev \<noteq> 0) (cb_bool (ev_flag ev) (cb_str (ev_text ev) (cb_int (ev_station ev) []))))
      | EvTrackStarted \<Rightarrow> (''OnGoRadioTrackStarted'',
          cb_int64 (ev_num1 ev) (cb_str (ev_cover_art ev) (cb_str (ev_artist ev) (cb_str (ev_title ev)
            (cb_str (ev_location ev) (cb_str (ev_queue_id ev) (cb_int (ev_station ev) [])))))))
      | EvTrackEnded \<Rightarrow> (''OnGoRadioTrackEnded'',
          cb_str (ev_text ev) (cb_str (ev_queue_id ev) (cb_int (ev_station ev) [])))
      | EvTrackQueued \<Rightarrow> (''OnGoRadioTrackQueued'',
          cb_int64 (ev_num2 ev) (cb_str (ev_queue_id ev) (cb_int (ev_request ev) (cb_int (ev_station ev) []))))
      | EvQueueLow \<Rightarrow> (''OnGoRadioQueueLow'', cb_int64 (ev_num2 ev) (cb_int64 (ev_num1 ev) (cb_int (ev_station ev) [])))
      | EvQueueUpdated \<Rightarrow> (''OnGoRadioQueueUpdated'', cb_int64 (ev_num1 ev) (cb_int (ev_station ev) []))
      | EvListenerCount \<Rightarrow> (''OnGoRadioListenerCountChanged'', cb_int64 (ev_num1 ev) (cb_int (ev_station ev) []))
      | EvSilenceStarted \<Rightarrow> (''OnGoRadioSilenceStarted'', cb_int (ev_station ev) [])
      | EvSilenceEnded \<Rightarrow> (''OnGoRadioSilenceEnded'', cb_int (ev_station ev) [])
      | EvStatusUpdate \<Rightarrow> (''OnGoRadioStatusUpdate'', cb_int (ev_station ev) [])
      | EvCommandResult \<Rightarrow> (''OnGoRadioCommandResult'',
          cb_int64 (ev_num1 ev) (cb_bool (ev_flag ev) (cb_str (ev_text ev) (cb_int (ev_request ev) (cb_int (ev_station ev) [])))))
      | EvStationList \<Rightarrow> (''OnGoRadioStationList'', cb_int64 (ev_num1 ev) [])
      | EvError \<Rightarrow> (''OnGoRadioError'', cb_str (ev_text2 ev) (cb_str (ev_text ev) (cb_int (ev_station ev) []))))"

fun dispatch_events :: "'v amx_api \<Rightarrow> pawn_event list \<Rightarrow> 'v plugin \<Rightarrow> 'v plugin option" where
  "dispatch_events api [] st = Some st"
| "dispatch_events api (ev # evs) st =
     (case callback_of ev of (name, args) \<Rightarrow> Option.bind (invoke api name args st) (dispatch_events api evs))"

definition dispatch_pending_events :: "'v amx_api \<Rightarrow> 'v plugin \<Rightarrow> 'v plugin option" where
  "dispatch_pending_events api st =
     (case tick (p_mgr st) of (evs, m) \<Rightarrow> dispatch_events api evs (st\<lparr>p_mgr := m\<rparr>))"

end
