(* ===== verification/Callbacks.thy ===== *)
theory Callbacks
  imports Natives
begin

text \<open>
  The callbacks: each has the parameters its forward in include/goradio.inc declares, is offered to
  every script once, and leaves the scripts' heaps as they were.
\<close>

section \<open>Parameters\<close>

datatype param_type = NumParam | FlagParam | TextParam

definition declared_forwards :: "(string \<times> param_type list) list" where
  "declared_forwards =
    [(''OnGoRadioServerInfo'', [TextParam]),
     (''OnGoRadioStationRegistered'', [NumParam, TextParam, FlagParam, FlagParam]),
     (''OnGoRadioTrackStarted'', [NumParam, TextParam, TextParam, TextParam, TextParam, TextParam, NumParam]),
     (''OnGoRadioTrackEnded'', [NumParam, TextParam, TextParam]),
     (''OnGoRadioTrackQueued'', [NumParam, NumParam, TextParam, NumParam]),
     (''OnGoRadioQueueLow'', [NumParam, NumParam, NumParam]),
     (''OnGoRadioQueueUpdated'', [NumParam, NumParam]),
     (''OnGoRadioListenerCountChanged'', [NumParam, NumParam]),
     (''OnGoRadioSilenceStarted'', [NumParam]),
     (''OnGoRadioSilenceEnded'', [NumParam]),
     (''OnGoRadioStatusUpdate'', [NumParam]),
     (''OnGoRadioCommandResult'', [NumParam, NumParam, TextParam, FlagParam, NumParam]),
     (''OnGoRadioStationList'', [NumParam]),
     (''OnGoRadioError'', [NumParam, TextParam, TextParam])]"

text \<open>What a value of each kind is: a cell, 0 or 1, or a string.\<close>

fun arg_fits :: "param_type \<Rightarrow> cb_arg \<Rightarrow> bool" where
  "arg_fits NumParam (ArgNum n) \<longleftrightarrow> int_min \<le> n \<and> n \<le> int_max"
| "arg_fits FlagParam (ArgNum n) \<longleftrightarrow> n = 0 \<or> n = 1"
| "arg_fits TextParam (ArgStr s) \<longleftrightarrow> True"
| "arg_fits _ _ \<longleftrightarrow> False"

text \<open>
  C33
  Whatever event is dispatched, the public it calls is one that goradio.inc declares, with as many
  arguments of the same kinds: strings for strings, 0 or 1 for flags, and for numbers a cell, the
  64-bit values of the server cut to its range.
\<close>

theorem callbacks_match_their_forwards:
  assumes "int_min \<le> ev_station ev" "ev_station ev \<le> int_max" "int_min \<le> ev_request ev" "ev_request ev \<le> int_max"
  shows "\<exists>types. (fst (callback_of ev), types) \<in> set declared_forwards \<and> list_all2 arg_fits types (snd (callback_of ev))"
  using assms
  by (cases "ev_kind ev")
    (simp_all add: declared_forwards_def cb_int_def cb_int64_def cb_bool_def cb_str_def)

lemma callbacks_match_their_forwards_witness:
  "\<exists>types. (fst (callback_of (no_event\<lparr>ev_kind := EvQueueLow, ev_num1 := 2 ^ 40\<rparr>)), types) \<in> set declared_forwards
     \<and> list_all2 arg_fits types (snd (callback_of (no_event\<lparr>ev_kind := EvQueueLow, ev_num1 := 2 ^ 40\<rparr>)))"
  by (rule callbacks_match_their_forwards) (simp_all add: no_event_def k_invalid_station_def)

section \<open>Offering\<close>

text \<open>
  What amx.h's functions promise of the scripts' heaps: \<^verbatim>\<open>Allot\<close> takes space at the top, if there is
  any, \<^verbatim>\<open>Release\<close> gives back everything from an address on, and a public that has run has balanced
  its use of the heaps of the scripts that are still loaded. \<open>hea\<close> is the top of each heap. A public may load and
  unload scripts, the limit of the server on how many there are being \<open>N\<close>.
\<close>

definition heap_discipline :: "'v amx_api \<Rightarrow> ('v \<Rightarrow> nat \<Rightarrow> int) \<Rightarrow> bool" where
  "heap_discipline api hea \<longleftrightarrow>
     (\<forall>a n v. 0 \<le> n \<longrightarrow> (case api_allot api a n v of
        (None, v') \<Rightarrow> hea v' = hea v
      | (Some (addr, p), v') \<Rightarrow> addr = hea v a \<and> hea v' = (hea v)(a := hea v a + 4 * n)))
     \<and> (\<forall>p s n v. hea (api_set_string api p s n v) = hea v) \<and> (\<forall>a c v. hea (api_push api a c v) = hea v)
     \<and> (\<forall>a addr v. hea (api_release api a addr v) = (hea v)(a := min (hea v a) addr))
     \<and> (\<forall>a i s b. b \<in> set (p_scripts s) \<longrightarrow> b \<in> set (p_scripts (snd (api_exec api a i s))) \<longrightarrow>
          hea (p_amx (snd (api_exec api a i s))) b = hea (p_amx s) b)"

definition script_limit :: "'v amx_api \<Rightarrow> nat \<Rightarrow> bool" where
  "script_limit api N \<longleftrightarrow> (\<forall>a i s. length (p_scripts (snd (api_exec api a i s))) \<le> max N (length (p_scripts s)))"

text \<open>No public unloads script \<open>b\<close>; no public unloads any script, and those it loads come last.\<close>

definition stays_loaded :: "'v amx_api \<Rightarrow> nat \<Rightarrow> bool" where
  "stays_loaded api b \<longleftrightarrow> (\<forall>a i s. b \<in> set (p_scripts s) \<longrightarrow> b \<in> set (p_scripts (snd (api_exec api a i s))))"

definition only_loads :: "'v amx_api \<Rightarrow> bool" where
  "only_loads api \<longleftrightarrow> (\<forall>a i s. \<exists>new. p_scripts (snd (api_exec api a i s)) = p_scripts s @ new)"

text \<open>The heaps while arguments are placed: \<open>h\<close> is what they were, \<open>first\<close> the first address taken.\<close>

definition heap_since :: "(nat \<Rightarrow> int) \<Rightarrow> nat \<Rightarrow> int option \<Rightarrow> (nat \<Rightarrow> int) \<Rightarrow> bool" where
  "heap_since h a first h' \<longleftrightarrow> (\<forall>b. b \<noteq> a \<longrightarrow> h' b = h b) \<and> h a \<le> h' a
     \<and> (case first of None \<Rightarrow> h' a = h a | Some f \<Rightarrow> f = h a)"

definition short_texts :: "cb_arg list \<Rightarrow> bool" where
  "short_texts args \<longleftrightarrow> (\<forall>s. ArgStr s \<in> set args \<longrightarrow> int (length s) < int_max)"

lemma allot_none:
  "heap_discipline api hea \<Longrightarrow> 0 \<le> n \<Longrightarrow> api_allot api a n v = (None, v') \<Longrightarrow> hea v' = hea v"
  unfolding heap_discipline_def by (metis (mono_tags, lifting) option.case(1) prod.case)

lemma allot_some:
  "heap_discipline api hea \<Longrightarrow> 0 \<le> n \<Longrightarrow> api_allot api a n v = (Some (addr, p), v') \<Longrightarrow>
   addr = hea v a \<and> hea v' = (hea v)(a := hea v a + 4 * n)"
  unfolding heap_discipline_def by (metis (mono_tags, lifting) option.case(2) prod.case)

lemma discipline_rest:
  assumes "heap_discipline api hea"
  shows "hea (api_set_string api p s n v) = hea v" "hea (api_push api a c v) = hea v"
    "hea (api_release api a addr v) = (hea v)(a := min (hea v a) addr)"
  using assms unfolding heap_discipline_def by simp_all

lemma discipline_exec:
  "heap_discipline api hea \<Longrightarrow> stays_loaded api b \<Longrightarrow> b \<in> set (p_scripts s) \<Longrightarrow>
    hea (p_amx (snd (api_exec api a i s))) b = hea (p_amx s) b \<and> b \<in> set (p_scripts (snd (api_exec api a i s)))"
  unfolding heap_discipline_def stays_loaded_def by blast

lemma allot_args_heap:
  assumes "heap_discipline api hea"
  shows "short_texts args \<Longrightarrow> heap_since h a first (hea v) \<Longrightarrow>
    allot_args api a args first cells v = (failed, first', cells', v') \<Longrightarrow> heap_since h a first' (hea v')"
proof (induction args arbitrary: first cells v)
  case (Cons arg args)
  have short: "short_texts args" using Cons.prems(1) by (simp add: short_texts_def)
  show ?case
  proof (cases arg)
    case (ArgNum n)
    then show ?thesis using Cons.IH [OF short] Cons.prems by simp
  next
    case (ArgStr s)
    let ?n = "to_int32 (int (length s)) + 1"
    have "int (length s) < int_max" using Cons.prems(1) ArgStr by (simp add: short_texts_def)
    then have n: "0 \<le> ?n" by (simp add: to_int32_id)
    obtain r v1 where r: "api_allot api a ?n v = (r, v1)" by fastforce
    show ?thesis
    proof (cases r)
      case None
      then show ?thesis using Cons.prems r ArgStr allot_none [OF assms n, of a v v1] by (simp add: Let_def)
    next
      case (Some ap)
      then obtain addr p where ap: "r = Some (addr, p)" by (cases ap) simp
      let ?first = "case first of None \<Rightarrow> Some addr | Some f \<Rightarrow> Some f"
      have "heap_since h a ?first (hea (api_set_string api p (c_str s) (nat ?n) v1))"
        using allot_some [OF assms n, of a v addr p v1] r ap Cons.prems(2) n
        by (auto simp: heap_since_def discipline_rest [OF assms] split: option.splits)
      then show ?thesis using Cons.IH [OF short] Cons.prems(3) r ap ArgStr by (simp add: Let_def)
    qed
  qed
qed simp

lemma release_first_heap:
  assumes "heap_discipline api hea" "heap_since h a first h'" "hea v b = h' b"
  shows "hea (release_first api a first v) b = h b"
  using assms by (auto simp: release_first_def heap_since_def discipline_rest min_def split: option.splits)

lemma push_all_heap: "heap_discipline api hea \<Longrightarrow> hea (fold (api_push api a) cells v) = hea v"
  by (induction cells arbitrary: v) (simp_all add: discipline_rest)

lemma offer_heap:
  assumes "heap_discipline api hea" "short_texts args" "stays_loaded api b" "b \<in> set (p_scripts st)"
  shows "hea (p_amx (offer api name args a st)) b = hea (p_amx st) b \<and> b \<in> set (p_scripts (offer api name args a st))"
proof -
  obtain failed first cells v where r: "allot_args api a (rev args) None [] (p_amx st) = (failed, first, cells, v)"
    by (metis prod_cases4)
  have "heap_since (hea (p_amx st)) a None (hea (p_amx st))" by (simp add: heap_since_def)
  then have h: "heap_since (hea (p_amx st)) a first (hea v)"
    using allot_args_heap [OF assms(1) _ _ r] assms(2) by (simp add: short_texts_def)
  have run: "hea (p_amx (snd (api_exec api a i (st\<lparr>p_amx := fold (api_push api a) cells v\<rparr>)))) b = hea v b
      \<and> b \<in> set (p_scripts (snd (api_exec api a i (st\<lparr>p_amx := fold (api_push api a) cells v\<rparr>))))" for i
    using discipline_exec [OF assms(1,3), of "st\<lparr>p_amx := fold (api_push api a) cells v\<rparr>" a i] assms(4)
    by (simp add: push_all_heap [OF assms(1)])
  show ?thesis
    using release_first_heap [OF assms(1) h] r run assms(4)
    by (simp add: offer_def case_prod_beta split: option.split)
qed

lemma offer_scripts:
  "script_limit api N \<Longrightarrow> length (p_scripts (offer api name args a st)) \<le> max N (length (p_scripts st))"
  "only_loads api \<Longrightarrow> \<exists>new. p_scripts (offer api name args a st) = p_scripts st @ new"
proof -
  have "p_scripts (offer api name args a st) = p_scripts st
      \<or> (\<exists>i v. p_scripts (offer api name args a st) = p_scripts (snd (api_exec api a i (st\<lparr>p_amx := v\<rparr>))))"
    by (auto simp: offer_def case_prod_beta split: option.split)
  then consider (same) "p_scripts (offer api name args a st) = p_scripts st"
    | (ran) i v where "p_scripts (offer api name args a st) = p_scripts (snd (api_exec api a i (st\<lparr>p_amx := v\<rparr>)))" by blast
  note out = this
  show "length (p_scripts (offer api name args a st)) \<le> max N (length (p_scripts st))" if "script_limit api N"
  proof (cases rule: out)
    case (ran i v)
    have "length (p_scripts (snd (api_exec api a i (st\<lparr>p_amx := v\<rparr>)))) \<le> max N (length (p_scripts (st\<lparr>p_amx := v\<rparr>)))"
      using that unfolding script_limit_def by blast
    then show ?thesis using ran by simp
  qed simp
  show "\<exists>new. p_scripts (offer api name args a st) = p_scripts st @ new" if "only_loads api"
  proof (cases rule: out)
    case (ran i v)
    have "\<exists>new. p_scripts (snd (api_exec api a i (st\<lparr>p_amx := v\<rparr>))) = p_scripts (st\<lparr>p_amx := v\<rparr>) @ new"
      using that unfolding only_loads_def by blast
    then show ?thesis using ran by simp
  qed simp
qed

text \<open>The loop ends, with the scripts it has come by; if none is unloaded these are all that are there at its end.\<close>

lemma invoke_loop_offers:
  assumes "script_limit api N"
  shows "\<exists>as. invoke_loop api name args i st = Some (fold (offer api name args) as st)
    \<and> (only_loads api \<longrightarrow> i \<le> length (p_scripts st) \<longrightarrow> as = drop i (p_scripts (fold (offer api name args) as st)))"
proof (induction "max N (length (p_scripts st)) - i" arbitrary: i st rule: less_induct)
  case less
  show ?case
  proof (cases "i < length (p_scripts st)")
    case True
    let ?a = "p_scripts st ! i"
    let ?st = "offer api name args ?a st"
    have "max N (length (p_scripts ?st)) \<le> max N (length (p_scripts st))" using offer_scripts(1) [OF assms] by simp
    then have "max N (length (p_scripts ?st)) - Suc i < max N (length (p_scripts st)) - i" using True by linarith
    then obtain as where as: "invoke_loop api name args (Suc i) ?st = Some (fold (offer api name args) as ?st)"
        "only_loads api \<longrightarrow> Suc i \<le> length (p_scripts ?st) \<longrightarrow> as = drop (Suc i) (p_scripts (fold (offer api name args) as ?st))"
      using less.hyps [of ?st "Suc i"] by blast
    have "?a # as = drop i (p_scripts (fold (offer api name args) as ?st))" if loads: "only_loads api"
    proof -
      have more: "\<exists>new. p_scripts (fold (offer api name args) as s) = p_scripts s @ new" for as s
      proof (induction as arbitrary: s)
        case (Cons x as)
        obtain n1 where "p_scripts (offer api name args x s) = p_scripts s @ n1" using offer_scripts(2) [OF loads] by blast
        moreover obtain n2 where "p_scripts (fold (offer api name args) as (offer api name args x s)) = p_scripts (offer api name args x s) @ n2"
          using Cons.IH by blast
        ultimately show ?case by simp
      qed simp
      obtain n1 where n1: "p_scripts ?st = p_scripts st @ n1" using offer_scripts(2) [OF loads] by blast
      obtain n2 where n2: "p_scripts (fold (offer api name args) as ?st) = p_scripts ?st @ n2" using more by blast
      have "drop i (p_scripts (fold (offer api name args) as ?st)) = ?a # drop (Suc i) (p_scripts (fold (offer api name args) as ?st))"
        using True by (subst Cons_nth_drop_Suc [symmetric]) (simp_all add: n1 n2 nth_append)
      with as(2) loads True n1 show ?thesis by simp
    qed
    moreover have "invoke_loop api name args i st = Some (fold (offer api name args) (?a # as) st)"
      using as(1) True by (simp add: invoke_loop.simps [of api name args i])
    ultimately show ?thesis by (metis fold_simps(2))
  next
    case False
    then show ?thesis by (intro exI [of _ "[]"]) (simp add: invoke_loop.simps [of api name args i])
  qed
qed


section \<open>A small machine\<close>

text \<open>Scripts with a hundred cells of heap each, whose publics return at once.\<close>

definition example_api :: "(nat \<Rightarrow> int) amx_api" where
  "example_api = \<lparr>api_get_addr = \<lambda>v a c. if c < 0 then None else Some (nat c), api_str_len = \<lambda>v p. Some 0,
     api_get_string = \<lambda>v p n. Some [], api_set_string = \<lambda>p s n v. v, api_store = \<lambda>p n v. v,
     api_find_public = \<lambda>v a name. Some 0,
     api_allot = \<lambda>a n v. if v a + 4 * n \<le> 400 then (Some (v a, nat (v a)), v(a := v a + 4 * n)) else (None, v),
     api_register = \<lambda>a names v. (0, v), api_push = \<lambda>a c v. v, api_exec = \<lambda>a i st. (0, st), api_release = \<lambda>a addr v. v(a := min (v a) addr)\<rparr>"

definition example_plugin :: "mgr \<Rightarrow> (nat \<Rightarrow> int) plugin" where
  "example_plugin m = \<lparr>p_mgr = m, p_scripts = [0, 1], p_debug = False, p_amx = (\<lambda>a. 200)\<rparr>"

lemma example_discipline: "heap_discipline example_api (\<lambda>v. v)"
  by (simp add: heap_discipline_def example_api_def)

text \<open>A machine on which a public that runs loads a third script, where there is room for one.\<close>

definition loading_api :: "(nat \<Rightarrow> int) amx_api" where
  "loading_api = example_api\<lparr>api_exec := \<lambda>a i st. (0, if 2 \<in> set (p_scripts st) \<or> 3 \<le> length (p_scripts st) then st
     else st\<lparr>p_scripts := p_scripts st @ [2], p_amx := (p_amx st)(2 := 100)\<rparr>)\<rparr>"

lemma loading_laws:
  "heap_discipline loading_api (\<lambda>v. v)" "script_limit loading_api 3" "only_loads loading_api" "stays_loaded loading_api b"
  by (auto simp: heap_discipline_def script_limit_def only_loads_def stays_loaded_def loading_api_def example_api_def)


end
