(* ===== verification/Natives_Calls.thy ===== *)
theory Natives_Calls
  imports Callbacks Manager_Stopping
begin

text \<open>
  The natives against include/goradio.inc and the manager: each reads no more arguments than it
  declares, refuses a shorter call, and acts on the manager only by its calls.
\<close>

section \<open>What the include file declares\<close>

definition declared_natives :: "(string \<times> nat) list" where
  "declared_natives =
    [(''GoRadio_SetServer'', 2),
     (''GoRadio_IsReady'', 0),
     (''GoRadio_ReloadConfig'', 0),
     (''GoRadio_GetServerVersion'', 2),
     (''GoRadio_CreateStation'', 5),
     (''GoRadio_DestroyStation'', 1),
     (''GoRadio_IsValidStation'', 1),
     (''GoRadio_GetStationBySlug'', 1),
     (''GoRadio_GetStationCount'', 0),
     (''GoRadio_GetStationAtIndex'', 1),
     (''GoRadio_SetStationMetadata'', 3),
     (''GoRadio_ClearStationMetadata'', 1),
     (''GoRadio_UpdateStation'', 5),
     (''GoRadio_GetStationSlug'', 3),
     (''GoRadio_GetStreamURL'', 3),
     (''GoRadio_IsStationRegistered'', 1),
     (''GoRadio_QueueTrack'', 6),
     (''GoRadio_Dequeue'', 2),
     (''GoRadio_ClearQueue'', 2),
     (''GoRadio_Skip'', 1),
     (''GoRadio_SkipTo'', 2),
     (''GoRadio_Pause'', 1),
     (''GoRadio_Resume'', 1),
     (''GoRadio_Seek'', 2),
     (''GoRadio_SeekBy'', 2),
     (''GoRadio_RefreshStatus'', 1),
     (''GoRadio_HasStatus'', 1),
     (''GoRadio_GetListenerCount'', 1),
     (''GoRadio_GetUptime'', 1),
     (''GoRadio_IsSilence'', 1),
     (''GoRadio_IsPaused'', 1),
     (''GoRadio_IsPlaying'', 1),
     (''GoRadio_GetQueueLength'', 1),
     (''GoRadio_GetCurrentTrackID'', 3),
     (''GoRadio_GetCurrentTrackTitle'', 3),
     (''GoRadio_GetCurrentTrackArtist'', 3),
     (''GoRadio_GetCurrentTrackLocation'', 3),
     (''GoRadio_GetCurrentTrackCoverArt'', 3),
     (''GoRadio_GetCurrentTrackDuration'', 1),
     (''GoRadio_GetCurrentTrackElapsed'', 1),
     (''GoRadio_GetQueueItemCount'', 1),
     (''GoRadio_GetQueueItemID'', 4),
     (''GoRadio_GetQueueItemTitle'', 4),
     (''GoRadio_GetQueueItemArtist'', 4),
     (''GoRadio_GetQueueItemLocation'', 4),
     (''GoRadio_GetQueueItemDuration'', 2),
     (''GoRadio_GetHistoryCount'', 1),
     (''GoRadio_GetHistoryTitle'', 4),
     (''GoRadio_GetHistoryArtist'', 4),
     (''GoRadio_GetHistoryReason'', 4),
     (''GoRadio_RequestStationList'', 0),
     (''GoRadio_GetListedStationCount'', 0),
     (''GoRadio_GetListedStationSlug'', 3),
     (''GoRadio_GetListedStationName'', 3),
     (''GoRadio_GetListedStationLogo'', 3),
     (''GoRadio_GetListedListenerCount'', 1)]"

section \<open>Arguments\<close>

text \<open>\<^verbatim>\<open>params\<close> as the abstract machine passes it: the size in bytes, then the arguments.\<close>

definition wf_params :: "int list \<Rightarrow> bool" where
  "wf_params params \<longleftrightarrow> params \<noteq> [] \<and> length params < 2 ^ 29 \<and> hd params = 4 * int (length params - 1)"

lemma arg_count_wf: "wf_params params \<Longrightarrow> arg_count params = Some (int (length params - 1))"
  by (cases params) (simp_all add: wf_params_def arg_count_def param_def)

lemma checked_wf:
  "wf_params params \<Longrightarrow>
   checked n d params st body = (if int (length params - 1) < n then Some (d, st) else body)"
  by (simp add: checked_def check_args_def arg_count_wf)

lemma param_wf: "k < length params \<Longrightarrow> param params k = Some (params ! k)"
  by (simp add: param_def)

lemma text_arg_wf: "k < length params \<Longrightarrow>
    text_arg env a params k st = Some (amx_read_string (e_api env) a (params ! k) (p_amx st))"
  by (simp add: text_arg_def param_def)

lemma write_wf: "d < length params \<Longrightarrow> l < length params \<Longrightarrow>
    write_string_result env a params d l s ok st =
      Some (if ok then 1 else 0, st\<lparr>p_amx := amx_write_string (e_api env) a (params ! d) (if ok then s else [])
        (params ! l) (p_amx st)\<rparr>)"
  by (simp add: write_string_result_def param_def)

definition native_safe :: "nat \<Rightarrow> int \<Rightarrow> 'v native \<Rightarrow> bool" where
  "native_safe n d f \<longleftrightarrow> (\<forall>env a params st. wf_params params \<longrightarrow>
     f env a params st \<noteq> None \<and> (length params - 1 < n \<longrightarrow> f env a params st = Some (d, st)))"

definition native_calls :: "'v native \<Rightarrow> bool" where
  "native_calls f \<longleftrightarrow> (\<forall>env a params st r st'. f env a params st = Some (r, st') \<longrightarrow>
     p_scripts st' = p_scripts st
     \<and> (p_mgr st' = p_mgr st \<or> main_call (e_long_bits env) (e_tls env) (p_mgr st) (p_mgr st')))"

lemma native_safeI:
  assumes "\<And>env a params st. wf_params params \<Longrightarrow> int (length params - 1) < int n \<Longrightarrow> f env a params st = Some (d, st)"
    and "\<And>env a params st. wf_params params \<Longrightarrow> n < length params \<Longrightarrow> f env a params st \<noteq> None"
  shows "native_safe n d f"
  unfolding native_safe_def
proof (intro allI impI)
  fix env :: "'a env" and a params and st :: "'a plugin"
  assume w: "wf_params params"
  then have "length params - 1 < n \<longleftrightarrow> \<not> n < length params" by (cases params) (auto simp: wf_params_def)
  with assms(1) [OF w, of env a st] assms(2) [OF w, of env a st]
  show "f env a params st \<noteq> None \<and> (length params - 1 < n \<longrightarrow> f env a params st = Some (d, st))"
    by (cases "n < length params") simp_all
qed

lemmas native_facts = checked_wf param_wf text_arg_wf write_wf flag_call_def id_call_def status_number_def
  current_track_string_def list_item_string_def queue_item_string_def history_string_def listed_station_string_def

lemmas native_defs =
  n_SetServer_def n_IsReady_def n_ReloadConfig_def n_GetServerVersion_def n_CreateStation_def
  n_DestroyStation_def n_IsValidStation_def n_GetStationBySlug_def n_GetStationCount_def n_GetStationAtIndex_def
  n_SetStationMetadata_def n_ClearStationMetadata_def n_UpdateStation_def n_GetStationSlug_def n_GetStreamURL_def
  n_IsStationRegistered_def n_QueueTrack_def n_Dequeue_def n_ClearQueue_def n_Skip_def
  n_SkipTo_def n_Pause_def n_Resume_def n_Seek_def n_SeekBy_def
  n_RefreshStatus_def n_HasStatus_def n_GetListenerCount_def n_GetUptime_def n_IsSilence_def
  n_IsPaused_def n_IsPlaying_def n_GetQueueLength_def n_GetCurrentTrackID_def n_GetCurrentTrackTitle_def
  n_GetCurrentTrackArtist_def n_GetCurrentTrackLocation_def n_GetCurrentTrackCoverArt_def n_GetCurrentTrackDuration_def n_GetCurrentTrackElapsed_def
  n_GetQueueItemCount_def n_GetQueueItemID_def n_GetQueueItemTitle_def n_GetQueueItemArtist_def n_GetQueueItemLocation_def
  n_GetQueueItemDuration_def n_GetHistoryCount_def n_GetHistoryTitle_def n_GetHistoryArtist_def n_GetHistoryReason_def
  n_RequestStationList_def n_GetListedStationCount_def n_GetListedStationSlug_def n_GetListedStationName_def n_GetListedStationLogo_def
  n_GetListedListenerCount_def

section \<open>Every native\<close>

lemma natives_safe:
  "native_safe 2 0 n_SetServer"
  "native_safe 0 0 n_IsReady"
  "native_safe 0 0 n_ReloadConfig"
  "native_safe 2 0 n_GetServerVersion"
  "native_safe 5 (-1) n_CreateStation"
  "native_safe 1 0 n_DestroyStation"
  "native_safe 1 0 n_IsValidStation"
  "native_safe 1 (-1) n_GetStationBySlug"
  "native_safe 0 0 n_GetStationCount"
  "native_safe 1 (-1) n_GetStationAtIndex"
  "native_safe 3 0 n_SetStationMetadata"
  "native_safe 1 0 n_ClearStationMetadata"
  "native_safe 5 0 n_UpdateStation"
  "native_safe 3 0 n_GetStationSlug"
  "native_safe 3 0 n_GetStreamURL"
  "native_safe 1 0 n_IsStationRegistered"
  "native_safe 6 0 n_QueueTrack"
  "native_safe 2 0 n_Dequeue"
  "native_safe 2 0 n_ClearQueue"
  "native_safe 1 0 n_Skip"
  "native_safe 2 0 n_SkipTo"
  "native_safe 1 0 n_Pause"
  "native_safe 1 0 n_Resume"
  "native_safe 2 0 n_Seek"
  "native_safe 2 0 n_SeekBy"
  "native_safe 1 0 n_RefreshStatus"
  "native_safe 1 0 n_HasStatus"
  "native_safe 1 0 n_GetListenerCount"
  "native_safe 1 0 n_GetUptime"
  "native_safe 1 0 n_IsSilence"
  "native_safe 1 0 n_IsPaused"
  "native_safe 1 0 n_IsPlaying"
  "native_safe 1 0 n_GetQueueLength"
  "native_safe 3 0 n_GetCurrentTrackID"
  "native_safe 3 0 n_GetCurrentTrackTitle"
  "native_safe 3 0 n_GetCurrentTrackArtist"
  "native_safe 3 0 n_GetCurrentTrackLocation"
  "native_safe 3 0 n_GetCurrentTrackCoverArt"
  "native_safe 1 0 n_GetCurrentTrackDuration"
  "native_safe 1 0 n_GetCurrentTrackElapsed"
  "native_safe 1 0 n_GetQueueItemCount"
  "native_safe 4 0 n_GetQueueItemID"
  "native_safe 4 0 n_GetQueueItemTitle"
  "native_safe 4 0 n_GetQueueItemArtist"
  "native_safe 4 0 n_GetQueueItemLocation"
  "native_safe 2 0 n_GetQueueItemDuration"
  "native_safe 1 0 n_GetHistoryCount"
  "native_safe 4 0 n_GetHistoryTitle"
  "native_safe 4 0 n_GetHistoryArtist"
  "native_safe 4 0 n_GetHistoryReason"
  "native_safe 0 0 n_RequestStationList"
  "native_safe 0 0 n_GetListedStationCount"
  "native_safe 3 0 n_GetListedStationSlug"
  "native_safe 3 0 n_GetListedStationName"
  "native_safe 3 0 n_GetListedStationLogo"
  "native_safe 1 0 n_GetListedListenerCount"
  by (rule native_safeI; simp add: native_defs native_facts k_invalid_station_def split: prod.split option.split bool.split)+

text \<open>What the helpers leave alone.\<close>

lemma checked_SomeD: "checked n d params st body = Some (r, st') \<Longrightarrow> st' = st \<or> body = Some (r, st')"
  by (auto simp: checked_def bind_eq_Some_conv split: if_splits)

lemma write_SomeD:
  "write_string_result env a params d l s ok st = Some (r, st') \<Longrightarrow> p_mgr st' = p_mgr st \<and> p_scripts st' = p_scripts st"
  by (auto simp: write_string_result_def bind_eq_Some_conv split: if_splits)

lemma flag_call_SomeD:
  "flag_call f st = Some (r, st') \<Longrightarrow> p_mgr st' = snd (f (p_mgr st)) \<and> p_scripts st' = p_scripts st"
  by (auto simp: flag_call_def split: prod.splits)

lemma id_call_SomeD:
  "id_call f st = Some (r, st') \<Longrightarrow> p_mgr st' = snd (f (p_mgr st)) \<and> p_scripts st' = p_scripts st"
  by (auto simp: id_call_def split: prod.splits)

lemma status_number_SomeD: "status_number f env a params st = Some (r, st') \<Longrightarrow> st' = st"
  by (auto simp: status_number_def bind_eq_Some_conv dest!: checked_SomeD)

lemma text_getters_SomeD:
  "current_track_string field env a params st = Some (r, st') \<Longrightarrow> p_mgr st' = p_mgr st \<and> p_scripts st' = p_scripts st"
  "list_item_string items field env a params st = Some (r, st') \<Longrightarrow> p_mgr st' = p_mgr st \<and> p_scripts st' = p_scripts st"
  "listed_station_string sfield env a params st = Some (r, st') \<Longrightarrow> p_mgr st' = p_mgr st \<and> p_scripts st' = p_scripts st"
  by (auto simp: current_track_string_def list_item_string_def listed_station_string_def bind_eq_Some_conv
      dest!: write_SomeD split: option.splits if_splits)

lemmas native_dests = checked_SomeD write_SomeD flag_call_SomeD id_call_SomeD status_number_SomeD text_getters_SomeD

lemma command_calls:
  "main_call lb tls m (snd (dequeue i q m))" "main_call lb tls m (snd (clear_queue i b m))"
  "main_call lb tls m (snd (skip i m))" "main_call lb tls m (snd (skip_to i q m))" "main_call lb tls m (snd (pause i m))"
  "main_call lb tls m (snd (resume i m))" "main_call lb tls m (snd (seek i n m))" "main_call lb tls m (snd (seek_by i n m))"
  "main_call lb tls m (snd (refresh_status i m))"
  using call_refresh [of lb tls m i]
  by (simp_all add: dequeue_def clear_queue_def skip_def skip_to_def pause_def resume_def seek_def seek_by_def
      call_command refresh_def)

lemma setup_calls:
  "configure lb tls net cfg m = (x, m') \<Longrightarrow> main_call lb tls m m'"
  "reload lb tls net cfg m = (y, z, m') \<Longrightarrow> main_call lb tls m m'"
  "create_station tls net slug name description threshold logo m = (w, m') \<Longrightarrow> main_call lb tls m m'"
  using call_configure [of lb tls m net cfg] call_reload [of lb tls m net cfg]
    call_create [of lb tls m net slug name description threshold logo] by simp_all

lemma natives_call:
  "native_calls n_SetServer"
  "native_calls n_IsReady"
  "native_calls n_ReloadConfig"
  "native_calls n_GetServerVersion"
  "native_calls n_CreateStation"
  "native_calls n_DestroyStation"
  "native_calls n_IsValidStation"
  "native_calls n_GetStationBySlug"
  "native_calls n_GetStationCount"
  "native_calls n_GetStationAtIndex"
  "native_calls n_SetStationMetadata"
  "native_calls n_ClearStationMetadata"
  "native_calls n_UpdateStation"
  "native_calls n_GetStationSlug"
  "native_calls n_GetStreamURL"
  "native_calls n_IsStationRegistered"
  "native_calls n_QueueTrack"
  "native_calls n_Dequeue"
  "native_calls n_ClearQueue"
  "native_calls n_Skip"
  "native_calls n_SkipTo"
  "native_calls n_Pause"
  "native_calls n_Resume"
  "native_calls n_Seek"
  "native_calls n_SeekBy"
  "native_calls n_RefreshStatus"
  "native_calls n_HasStatus"
  "native_calls n_GetListenerCount"
  "native_calls n_GetUptime"
  "native_calls n_IsSilence"
  "native_calls n_IsPaused"
  "native_calls n_IsPlaying"
  "native_calls n_GetQueueLength"
  "native_calls n_GetCurrentTrackID"
  "native_calls n_GetCurrentTrackTitle"
  "native_calls n_GetCurrentTrackArtist"
  "native_calls n_GetCurrentTrackLocation"
  "native_calls n_GetCurrentTrackCoverArt"
  "native_calls n_GetCurrentTrackDuration"
  "native_calls n_GetCurrentTrackElapsed"
  "native_calls n_GetQueueItemCount"
  "native_calls n_GetQueueItemID"
  "native_calls n_GetQueueItemTitle"
  "native_calls n_GetQueueItemArtist"
  "native_calls n_GetQueueItemLocation"
  "native_calls n_GetQueueItemDuration"
  "native_calls n_GetHistoryCount"
  "native_calls n_GetHistoryTitle"
  "native_calls n_GetHistoryArtist"
  "native_calls n_GetHistoryReason"
  "native_calls n_RequestStationList"
  "native_calls n_GetListedStationCount"
  "native_calls n_GetListedStationSlug"
  "native_calls n_GetListedStationName"
  "native_calls n_GetListedStationLogo"
  "native_calls n_GetListedListenerCount"
  by (auto simp: native_calls_def native_defs queue_item_string_def history_string_def bind_eq_Some_conv
      command_calls main_call.intros dest!: native_dests setup_calls
      split: option.splits prod.splits sum.splits bool.splits)

lemma natives_declared:
  "list_all2 (\<lambda>(name, f) (declared, n). name = declared \<and> (\<exists>d. native_safe n d f)) k_natives declared_natives"
  unfolding k_natives_def declared_natives_def
  by (intro list.rel_intros) (simp only: prod.case simp_thms, rule exI, rule natives_safe)+

text \<open>
  C34
  The native table agrees with goradio.inc, entry by entry: called with the parameters the include
  file declares a native never reads past them, and called with fewer it changes nothing.
\<close>

theorem natives_match_their_declarations:
  assumes "wf_params params"
  shows "list_all2 (\<lambda>(name, f) (declared, n). name = declared \<and> f env a params st \<noteq> None
      \<and> (length params - 1 < n \<longrightarrow> (\<exists>r. f env a params st = Some (r, st)))) k_natives declared_natives"
  using natives_declared by (rule list.rel_mono_strong) (use assms in \<open>auto simp: native_safe_def\<close>)

text \<open>A machine with the small scripts of \<^verbatim>\<open>example_api\<close>, and no server.cfg.\<close>

definition example_env :: "(nat \<Rightarrow> int) env" where
  "example_env = \<lparr>e_api = example_api, e_long_bits = 64, e_tls = False, e_net = example_net, e_now = 0,
     e_server_cfg = None\<rparr>"

lemma natives_match_their_declarations_witness:
  "list_all2 (\<lambda>(name, f) (declared, n). name = declared
      \<and> f example_env 0 [4, 0] (example_plugin example_mgr) \<noteq> None) k_natives declared_natives"
proof -
  have "wf_params [4, 0]" by (simp add: wf_params_def)
  from natives_match_their_declarations [OF this, of example_env 0 "example_plugin example_mgr"] show ?thesis
    by (rule list.rel_mono_strong) auto
qed

text \<open>
  A native acts on the manager by one of its calls or not at all, and never on the list of scripts.
\<close>

lemma native_keeps:
  assumes "(name, f) \<in> set k_natives" "f env a params st = Some (r, st')"
    and "reachable (e_long_bits env) (e_tls env) (p_mgr st)" "m_pc (p_mgr st) = MainIdle"
    and "m_next_station (p_mgr st) < int_max" "m_next_request (p_mgr st) < int_max"
  shows "reachable (e_long_bits env) (e_tls env) (p_mgr st')" "p_scripts st' = p_scripts st"
proof -
  have "native_calls f" using assms(1) unfolding k_natives_def by (auto simp: natives_call)
  then have c: "p_scripts st' = p_scripts st"
      "p_mgr st' = p_mgr st \<or> main_call (e_long_bits env) (e_tls env) (p_mgr st) (p_mgr st')"
    using assms(2) by (auto simp: native_calls_def)
  then show "reachable (e_long_bits env) (e_tls env) (p_mgr st')" "p_scripts st' = p_scripts st"
    using reach_step [OF assms(3,5,6) step_main [OF assms(4)]] assms(3) by auto
qed

end
