(* ===== verification/Plugin.thy ===== *)
theory Plugin
  imports Natives_Calls
begin

text \<open>
  src/plugin.cpp: the entry points the server calls, the resolving of the machine's functions of
  src/amxutil.cpp, and the plugin as a system of the server, its scripts and the plugin's threads.
\<close>

section \<open>The server's interface\<close>

definition supports_version :: int where "supports_version = 0x0200"
definition supports_amx_natives :: int where "supports_amx_natives = 0x00010000"
definition supports_process_tick :: int where "supports_process_tick = 0x00020000"

definition supports :: int where
  "supports = Bit_Operations.or supports_version (Bit_Operations.or supports_amx_natives supports_process_tick)"

text \<open>\<^verbatim>\<open>PLUGIN_AMX_EXPORT\<close>: the places of the functions in the server's table.\<close>

datatype amx_export =
  Align16 | Align32 | Align64 | Allot | Callback | Cleanup | Clone | Exec | FindNative | FindPublic
| FindPubVar | FindTagId | Flags | GetAddr | GetNative | GetPublic | GetPubVar | GetString | GetTag
| GetUserData | Init | InitJIT | MemInfo | NameLength | NativeInfo | NumNatives | NumPublics | NumPubVars
| NumTags | Push | PushArray | PushString | RaiseError | Register | Release | SetCallback | SetDebugHook
| SetString | SetUserData | StrLen | UTF8Check | UTF8Get | UTF8Len | UTF8Put

fun export_index :: "amx_export \<Rightarrow> nat" where
  "export_index Align16 = 0" | "export_index Align32 = 1" | "export_index Align64 = 2" | "export_index Allot = 3"
| "export_index Callback = 4" | "export_index Cleanup = 5" | "export_index Clone = 6" | "export_index Exec = 7"
| "export_index FindNative = 8" | "export_index FindPublic = 9" | "export_index FindPubVar = 10"
| "export_index FindTagId = 11" | "export_index Flags = 12" | "export_index GetAddr = 13"
| "export_index GetNative = 14" | "export_index GetPublic = 15" | "export_index GetPubVar = 16"
| "export_index GetString = 17" | "export_index GetTag = 18" | "export_index GetUserData = 19"
| "export_index Init = 20" | "export_index InitJIT = 21" | "export_index MemInfo = 22"
| "export_index NameLength = 23" | "export_index NativeInfo = 24" | "export_index NumNatives = 25"
| "export_index NumPublics = 26" | "export_index NumPubVars = 27" | "export_index NumTags = 28"
| "export_index Push = 29" | "export_index PushArray = 30" | "export_index PushString = 31"
| "export_index RaiseError = 32" | "export_index Register = 33" | "export_index Release = 34"
| "export_index SetCallback = 35" | "export_index SetDebugHook = 36" | "export_index SetString = 37"
| "export_index SetUserData = 38" | "export_index StrLen = 39" | "export_index UTF8Check = 40"
| "export_index UTF8Get = 41" | "export_index UTF8Len = 42" | "export_index UTF8Put = 43"

text \<open>The pointers kept of it; 0 is the null pointer.\<close>

record amx_exports =
  x_allot :: nat
  x_exec :: nat
  x_find_public :: nat
  x_get_addr :: nat
  x_get_string :: nat
  x_push :: nat
  x_register :: nat
  x_release :: nat
  x_set_string :: nat
  x_str_len :: nat

text \<open>\<^verbatim>\<open>AmxInit\<close>; \<open>None\<close> stands for a missing table.\<close>

definition amx_init :: "(nat \<Rightarrow> nat) option \<Rightarrow> amx_exports \<Rightarrow> bool \<times> amx_exports" where
  "amx_init exports g =
     (case exports of
        None \<Rightarrow> (False, g)
      | Some t \<Rightarrow>
          (let g' = \<lparr>x_allot = t (export_index Allot), x_exec = t (export_index Exec),
               x_find_public = t (export_index FindPublic), x_get_addr = t (export_index GetAddr),
               x_get_string = t (export_index GetString), x_push = t (export_index Push),
               x_register = t (export_index Register), x_release = t (export_index Release),
               x_set_string = t (export_index SetString), x_str_len = t (export_index StrLen)\<rparr> in
           (x_allot g' \<noteq> 0 \<and> x_exec g' \<noteq> 0 \<and> x_find_public g' \<noteq> 0 \<and> x_get_addr g' \<noteq> 0 \<and> x_get_string g' \<noteq> 0
              \<and> x_push g' \<noteq> 0 \<and> x_register g' \<noteq> 0 \<and> x_release g' \<noteq> 0 \<and> x_set_string g' \<noteq> 0 \<and> x_str_len g' \<noteq> 0,
            g')))"

section \<open>Entry points\<close>

text \<open>
  \<^verbatim>\<open>Load\<close>: what it read from server.cfg goes to \<^verbatim>\<open>Configure\<close> only with a token, and a refused
  configuration is only logged. \<^verbatim>\<open>HttpGlobalInit\<close> and, at the end, \<^verbatim>\<open>HttpGlobalShutdown\<close> act on the process
  outside this state; they are \<open>http_global_init\<close> and \<open>http_global_shutdown\<close> of theory \<^verbatim>\<open>Sockets\<close>.
\<close>

definition load ::
  "'v env \<Rightarrow> (nat \<Rightarrow> nat) option \<Rightarrow> amx_exports \<Rightarrow> 'v plugin \<Rightarrow> bool \<times> amx_exports \<times> 'v plugin" where
  "load env exports g st =
     (case amx_init exports g of
        (False, g') \<Rightarrow> (False, g', st\<lparr>p_debug := False\<rparr>)
      | (True, g') \<Rightarrow>
          (case read_server_cfg (e_long_bits env) (e_server_cfg env) (default_config, False) of
             (False, _) \<Rightarrow> (True, g', st\<lparr>p_debug := False\<rparr>)
           | (True, cfg, debug) \<Rightarrow>
               (True, g',
                if cfg_token cfg \<noteq> [] then
                  st\<lparr>p_debug := debug,
                     p_mgr := snd (configure (e_long_bits env) (e_tls env) (e_net env) cfg (p_mgr st))\<rparr>
                else st\<lparr>p_debug := debug\<rparr>)))"

text \<open>The scripts are forgotten when the threads have ended; the wait is left to \<open>m_pc\<close>.\<close>

definition unload :: "'v plugin \<Rightarrow> 'v plugin" where
  "unload st = st\<lparr>p_mgr := shutdown (p_mgr st), p_scripts := []\<rparr>"

definition amx_load :: "'v amx_api \<Rightarrow> nat \<Rightarrow> 'v plugin \<Rightarrow> int \<times> 'v plugin" where
  "amx_load api a st = register_natives api a (st\<lparr>p_scripts := amx_track_script a (p_scripts st)\<rparr>)"

definition amx_unload :: "nat \<Rightarrow> 'v plugin \<Rightarrow> int \<times> 'v plugin" where
  "amx_unload a st = (0, st\<lparr>p_scripts := amx_forget_script a (p_scripts st)\<rparr>)"

definition process_tick :: "'v amx_api \<Rightarrow> 'v plugin \<Rightarrow> 'v plugin option" where
  "process_tick = dispatch_pending_events"

section \<open>The plugin as a system\<close>

text \<open>
  What can happen while a script runs: it computes, it calls natives, it loads and unloads other
  scripts, and the plugin's threads go on, which also ends the waits that natives began.
\<close>

definition counters_ok :: "mgr \<Rightarrow> bool" where
  "counters_ok m \<longleftrightarrow> m_next_station m < int_max \<and> m_next_request m < int_max"

inductive background :: "nat \<Rightarrow> bool \<Rightarrow> mgr \<Rightarrow> mgr \<Rightarrow> bool" for lb tls where
  bg_resume: "background lb tls m (main_resume tls net m)"
| bg_worker: "i < length (m_workers m) \<Longrightarrow> background lb tls m (worker_step lb now i m)"
| bg_stream: "a < length (m_threads m) \<Longrightarrow> background lb tls m (stream_step lb now a m)"
| bg_poller: "background lb tls m (poller_step m)"

inductive script_step :: "nat \<Rightarrow> bool \<Rightarrow> 'v plugin \<Rightarrow> 'v plugin \<Rightarrow> bool" for lb tls where
  sc_computes: "script_step lb tls st (st\<lparr>p_amx := v\<rparr>)"
| sc_native: "(name, f) \<in> set k_natives \<Longrightarrow> e_long_bits env = lb \<Longrightarrow> e_tls env = tls \<Longrightarrow>
    m_pc (p_mgr st) = MainIdle \<Longrightarrow> counters_ok (p_mgr st) \<Longrightarrow> f env a params st = Some (r, st') \<Longrightarrow>
    script_step lb tls st st'"
| sc_loads: "script_step lb tls st (snd (amx_load api a st))"
| sc_unloads: "script_step lb tls st (snd (amx_unload a st))"
| sc_threads: "counters_ok (p_mgr st) \<Longrightarrow> background lb tls (p_mgr st) m \<Longrightarrow> script_step lb tls st (st\<lparr>p_mgr := m\<rparr>)"

text \<open>A machine whose scripts act on the plugin by such steps only.\<close>

definition runs_scripts :: "nat \<Rightarrow> bool \<Rightarrow> 'v amx_api \<Rightarrow> bool" where
  "runs_scripts lb tls api \<longleftrightarrow> (\<forall>a i st. (script_step lb tls)\<^sup>*\<^sup>* st (snd (api_exec api a i st)))"

inductive plugin_reach :: "nat \<Rightarrow> bool \<Rightarrow> 'v plugin \<Rightarrow> bool" for lb tls where
  pl_start: "plugin_reach lb tls \<lparr>p_mgr = new_manager, p_scripts = [], p_debug = False, p_amx = v\<rparr>"
| pl_load: "plugin_reach lb tls st \<Longrightarrow> m_pc (p_mgr st) = MainIdle \<Longrightarrow> counters_ok (p_mgr st) \<Longrightarrow>
    e_long_bits env = lb \<Longrightarrow> e_tls env = tls \<Longrightarrow> plugin_reach lb tls (snd (snd (load env exports g st)))"
| pl_unload: "plugin_reach lb tls st \<Longrightarrow> m_pc (p_mgr st) = MainIdle \<Longrightarrow> counters_ok (p_mgr st) \<Longrightarrow>
    plugin_reach lb tls (unload st)"
| pl_tick: "plugin_reach lb tls st \<Longrightarrow> m_pc (p_mgr st) = MainIdle \<Longrightarrow> counters_ok (p_mgr st) \<Longrightarrow>
    runs_scripts lb tls api \<Longrightarrow> process_tick api st = Some st' \<Longrightarrow> plugin_reach lb tls st'"
| pl_script: "plugin_reach lb tls st \<Longrightarrow> script_step lb tls st st' \<Longrightarrow> plugin_reach lb tls st'"

definition plugin_ok :: "nat \<Rightarrow> bool \<Rightarrow> 'v plugin \<Rightarrow> bool" where
  "plugin_ok lb tls st \<longleftrightarrow> reachable lb tls (p_mgr st) \<and> distinct (p_scripts st)"

lemma call_ok:
  "reachable lb tls m \<Longrightarrow> m_pc m = MainIdle \<Longrightarrow> counters_ok m \<Longrightarrow> main_call lb tls m m' \<Longrightarrow> reachable lb tls m'"
  by (auto simp: counters_ok_def intro: reach_step step_main)

lemma background_step: "background lb tls m m' \<Longrightarrow> mgr_step lb tls m m'"
  by (auto elim!: background.cases intro: mgr_step.intros)

lemma scripts_distinct:
  "distinct scripts \<Longrightarrow> distinct (amx_track_script a scripts)"
  "distinct scripts \<Longrightarrow> distinct (amx_forget_script a scripts)"
  by (simp_all add: amx_track_script_def amx_forget_script_def)

lemma script_step_ok: "script_step lb tls st st' \<Longrightarrow> plugin_ok lb tls st \<Longrightarrow> plugin_ok lb tls st'"
proof (induction rule: script_step.induct)
  case (sc_native name f env st a params r st')
  then show ?case
    using native_keeps [OF sc_native(1,6)] by (simp add: plugin_ok_def counters_ok_def)
next
  case (sc_threads st m)
  then show ?case
    by (auto simp: plugin_ok_def counters_ok_def intro: reach_step dest: background_step)
qed (simp_all add: plugin_ok_def amx_load_def amx_unload_def register_natives_def scripts_distinct split: prod.split)

lemma script_steps_ok: "(script_step lb tls)\<^sup>*\<^sup>* st st' \<Longrightarrow> plugin_ok lb tls st \<Longrightarrow> plugin_ok lb tls st'"
  by (induction rule: rtranclp_induct) (auto intro: script_step_ok)

lemma offer_ok:
  assumes "runs_scripts lb tls api" "plugin_ok lb tls st"
  shows "plugin_ok lb tls (offer api name args a st)"
proof -
  have "plugin_ok lb tls (st\<lparr>p_amx := v\<rparr>)" for v using assms(2) by (simp add: plugin_ok_def)
  then have "plugin_ok lb tls (snd (api_exec api a i (st\<lparr>p_amx := v\<rparr>)))" for i v
    using assms(1) script_steps_ok unfolding runs_scripts_def by blast
  then show ?thesis
    using assms(2) by (auto simp: offer_def plugin_ok_def split: option.split prod.split)
      (metis prod.sel(2))+
qed

lemma invoke_ok:
  assumes "runs_scripts lb tls api" "invoke_loop api name args i st = Some st'" "plugin_ok lb tls st"
  shows "plugin_ok lb tls st'"
proof -
  have "invoke_loop api name args i st = Some st' \<Longrightarrow> runs_scripts lb tls api \<longrightarrow> plugin_ok lb tls st \<longrightarrow> plugin_ok lb tls st'"
    by (erule invoke_loop.raw_induct [rotated]) (auto split: if_splits, blast intro: offer_ok)
  then show ?thesis using assms by blast
qed

lemma dispatch_ok:
  assumes "runs_scripts lb tls api"
  shows "dispatch_events api evs st = Some st' \<Longrightarrow> plugin_ok lb tls st \<Longrightarrow> plugin_ok lb tls st'"
proof (induction evs arbitrary: st)
  case (Cons ev evs)
  then obtain st1 where "invoke_loop api (fst (callback_of ev)) (snd (callback_of ev)) 0 st = Some st1"
      "dispatch_events api evs st1 = Some st'"
    by (auto simp: invoke_def bind_eq_Some_conv split: prod.splits)
  then show ?case using Cons.IH Cons.prems(2) invoke_ok [OF assms] by blast
qed simp

lemma load_ok:
  assumes "plugin_ok lb tls st" "m_pc (p_mgr st) = MainIdle" "counters_ok (p_mgr st)" "e_long_bits env = lb" "e_tls env = tls"
  shows "plugin_ok lb tls (snd (snd (load env exports g st)))"
proof -
  have "reachable lb tls (snd (configure lb tls (e_net env) cfg (p_mgr st)))" for cfg
    using call_ok [OF _ assms(2,3) call_configure] assms(1) by (simp add: plugin_ok_def)
  then show ?thesis using assms by (auto simp: load_def plugin_ok_def split: prod.split bool.split)
qed

text \<open>
  C26
  Whatever the server, its scripts and the plugin's threads do, in any order, and whatever natives
  scripts call from within the callbacks of a tick: the manager only gets into states that its own
  operations reach, so all that holds of those holds in the plugin; and no script is listed twice.
\<close>

theorem plugin_states_are_consistent:
  assumes "plugin_reach lb tls st"
  shows "reachable lb tls (p_mgr st) \<and> distinct (p_scripts st)"
proof -
  have "plugin_ok lb tls st" using assms
  proof (induction rule: plugin_reach.induct)
    case (pl_load st env exports g)
    from load_ok [OF pl_load.IH pl_load.hyps(2-5)] show ?case .
  next
    case (pl_tick st api st')
    obtain evs m where t: "tick (p_mgr st) = (evs, m)" by fastforce
    have "reachable lb tls m"
      using call_ok [OF _ pl_tick.hyps(2,3) call_tick] pl_tick.IH t by (simp add: plugin_ok_def)
    then have "plugin_ok lb tls (st\<lparr>p_mgr := m\<rparr>)" using pl_tick.IH by (simp add: plugin_ok_def)
    then show ?case
      using dispatch_ok [OF pl_tick.hyps(4)] pl_tick.hyps(5) t
      by (simp add: process_tick_def dispatch_pending_events_def)
  next
    case (pl_unload st)
    then show ?case using call_ok [OF _ pl_unload.hyps(2,3) call_shutdown] by (simp add: plugin_ok_def unload_def)
  next
    case (pl_script st st')
    from script_step_ok [OF pl_script.hyps(2) pl_script.IH] show ?case .
  qed (simp add: plugin_ok_def reach_new)
  then show ?thesis by (simp add: plugin_ok_def)
qed

lemma example_runs_scripts: "runs_scripts lb tls example_api"
  by (simp add: runs_scripts_def example_api_def)

definition fresh_plugin :: "(nat \<Rightarrow> int) plugin" where
  "fresh_plugin = \<lparr>p_mgr = new_manager, p_scripts = [], p_debug = False, p_amx = (\<lambda>a. 200)\<rparr>"

text \<open>A script is loaded, twice, and a tick finds nothing to deliver.\<close>

lemma plugin_states_are_consistent_witness:
  "reachable 64 False (p_mgr (snd (amx_load example_api 7 (snd (amx_load example_api 7 fresh_plugin)))))
   \<and> distinct (p_scripts (snd (amx_load example_api 7 (snd (amx_load example_api 7 fresh_plugin)))))"
proof -
  have "plugin_reach 64 False fresh_plugin" unfolding fresh_plugin_def by (rule pl_start)
  then have "plugin_reach 64 False (snd (amx_load example_api 7 (snd (amx_load example_api 7 fresh_plugin))))"
    by (blast intro: pl_script sc_loads)
  then show ?thesis by (rule plugin_states_are_consistent)
qed

section \<open>Loading and unloading\<close>

text \<open>\<^verbatim>\<open>Load\<close> refuses exactly when one of the ten functions is missing, and then leaves the manager alone.\<close>

lemma amx_init_iff:
  "fst (amx_init exports g) \<longleftrightarrow>
     (\<exists>t. exports = Some t \<and> (\<forall>x \<in> {Allot, Exec, FindPublic, GetAddr, GetString, Push, Register, Release,
        SetString, StrLen}. t (export_index x) \<noteq> 0))"
  by (cases exports) (simp_all add: amx_init_def Let_def)

lemma load_refuses:
  "fst (load env exports g st) = fst (amx_init exports g)"
  "\<not> fst (load env exports g st) \<Longrightarrow> p_mgr (snd (snd (load env exports g st))) = p_mgr st"
  by (auto simp: load_def split: prod.splits bool.splits)

text \<open>
  After a load with a usable configuration the manager is running with it, and asks the server
  for its version; in every other case it stays as it was.
\<close>

lemma load_configures:
  assumes "fst (load env exports g st)" "\<not> m_running (p_mgr st)"
    and "read_server_cfg (e_long_bits env) (e_server_cfg env) (default_config, False) = (True, cfg, debug)"
    and "check_config (e_long_bits env) (e_tls env) cfg (p_mgr st) = Inr u"
  shows "m_running (p_mgr (snd (snd (load env exports g st)))) \<and> m_config (p_mgr (snd (snd (load env exports g st)))) = cfg
    \<and> p_debug (snd (snd (load env exports g st))) = debug"
  using assms(1) assms(2-4)
  by (auto simp: load_refuses load_def configure_def check_config_def start_workers_def enqueue_def Let_def
      split: option.splits prod.splits bool.splits sum.splits if_splits)

end
