(* ===== verification/Log.thy ===== *)
theory Log
  imports Prelude
begin

text \<open>
  src/log.cpp. The lines of a run, where they go, and the growing buffer of \<^verbatim>\<open>Format\<close>. The rest of the
  development leaves log lines out.
\<close>

section \<open>Lines\<close>

text \<open>\<open>l_server\<close> says whether the server gave a \<^verbatim>\<open>logprintf\<close>; the lines are kept in order.\<close>

record logger =
  l_server :: bool
  l_debug :: bool
  l_printed :: "string list"
  l_stderr :: "string list"

definition log_init :: "bool \<Rightarrow> bool \<Rightarrow> logger \<Rightarrow> logger" where
  "log_init server debug g = g\<lparr>l_server := server, l_debug := debug\<rparr>"

definition log_set_debug :: "bool \<Rightarrow> logger \<Rightarrow> logger" where
  "log_set_debug debug g = g\<lparr>l_debug := debug\<rparr>"

text \<open>The text is an argument of the format, so nothing in it is read as a conversion.\<close>

definition emit :: "string \<Rightarrow> string \<Rightarrow> logger \<Rightarrow> logger" where
  "emit level msg g =
     (if l_server g then g\<lparr>l_printed := l_printed g @ [''[goradio]'' @ level @ '' '' @ takeWhile (\<lambda>c. c \<noteq> CHR 0x00) msg]\<rparr>
      else g\<lparr>l_stderr := l_stderr g @ [''[goradio]'' @ level @ '' '' @ takeWhile (\<lambda>c. c \<noteq> CHR 0x00) msg @ [CHR 0x0A]]\<rparr>)"

definition log_info :: "string \<Rightarrow> logger \<Rightarrow> logger" where "log_info = emit []"
definition log_warn :: "string \<Rightarrow> logger \<Rightarrow> logger" where "log_warn = emit '' WARN:''"
definition log_error :: "string \<Rightarrow> logger \<Rightarrow> logger" where "log_error = emit '' ERROR:''"

definition log_debug :: "string \<Rightarrow> logger \<Rightarrow> logger" where
  "log_debug msg g = (if \<not> l_debug g then g else emit '' debug:'' msg g)"

lemma log_debug_is_silent: "log_debug msg (log_set_debug False g) = log_set_debug False g"
  by (simp add: log_debug_def log_set_debug_def)

lemma log_keeps_settings:
  "l_debug (emit level msg g) = l_debug g" "l_server (emit level msg g) = l_server g"
  by (simp_all add: emit_def)

section \<open>Formatting\<close>

text \<open>
  What \<^verbatim>\<open>vsnprintf\<close> makes of a format and its arguments is a parameter: the whole text, or \<open>None\<close> for a
  negative result. It writes as much as fits with the closing NUL, and returns the length of it all.
\<close>

definition vsnprintf :: "string option \<Rightarrow> nat \<Rightarrow> int \<times> string" where
  "vsnprintf res cap = (case res of None \<Rightarrow> (-1, []) | Some s \<Rightarrow> (int (length s), take (cap - 1) s))"

function format_loop :: "string option \<Rightarrow> nat \<Rightarrow> string" where
  "format_loop res cap =
     (case vsnprintf res cap of
        (n, buf) \<Rightarrow>
          if n < 0 then []
          else if nat n < cap then take (nat n) buf
          else format_loop res (nat n + 1))"
  by pat_completeness auto
termination
  by (relation "measure (\<lambda>(res, cap). case res of None \<Rightarrow> 0 | Some s \<Rightarrow> Suc (length s) - cap)")
    (auto simp: vsnprintf_def split: option.splits)

definition format_text :: "string option \<Rightarrow> string" where
  "format_text res = format_loop res 256"

text \<open>\<^verbatim>\<open>Format\<close> never cuts a res, however long it is.\<close>

lemma format_loop_whole: "format_loop (Some s) cap = s"
proof (induction "Some s" cap rule: format_loop.induct)
  case (1 cap)
  then show ?case
    by (subst format_loop.simps) (auto simp: vsnprintf_def)
qed

lemma format_text_whole: "format_text res = (case res of None \<Rightarrow> [] | Some s \<Rightarrow> s)"
  by (cases res) (simp_all add: format_text_def format_loop_whole vsnprintf_def)

end
